(* ===== verification/Prelude.thy ===== *)
theory Prelude
  imports
    Main
    "HOL-Library.Word"
    "HOL-Library.Char_ord"
    "HOL-Library.List_Lexorder"
    "HOL-Library.AList"
begin

text \<open>
  Shared vocabulary of the development.

  \<^item> Go's \<open>uint64\<close> (the types \<open>Term\<close> and \<open>LogIndex\<close>) is a 64-bit word, so that \<open>++\<close>,
    \<open>+ 1\<close> and \<open>- 1\<close> wrap around as they do in the program.
  \<^item> A Go \<open>string\<close> is an arbitrary sequence of bytes, and so is a \<open>[]byte\<close>: both are
    \<^typ>\<open>string\<close>, whose elements are 8-bit characters. The code never distinguishes a nil slice
    from an empty one (\<open>bytes.Equal\<close>, \<open>omitempty\<close>, \<open>copy\<close> and \<open>len\<close> do not).
  \<^item> An \<open>error\<close> result is a value of \<open>go_error\<close>; a function with results \<open>(T, error)\<close>
    returns \<open>go_error + T\<close> and a function with result \<open>error\<close> returns
    \<open>go_error option\<close>, \<^const>\<open>None\<close> being the nil error. \<open>Wrapped\<close> is \<open>fmt.Errorf\<close>
    with \<open>%w\<close>; \<open>GoPanic\<close> stands for a runtime panic inside a function that returns an error.
\<close>

section \<open>Types\<close>

type_synonym u64 = "64 word"
type_synonym bytes = string

datatype go_error =
    ErrKeyNotFound
  | ErrLogEntryNotFound
  | ErrBucketNotFound
  | BoltError string
  | JsonError
  | CASMismatch
  | UnknownOp string
  | NotLeaderError string
  | ContextDone
  | NodeStopped
  | ErrMsg string
  | GoPanic string
  | Wrapped string go_error

type_synonym 'a go = "go_error + 'a"

named_theorems word_arith \<open>facts that turn 64-bit index arithmetic into arithmetic on naturals\<close>
named_theorems json_simps \<open>evaluation of the JSON encoders and decoders\<close>
named_theorems log_simps \<open>the persistent Raft log seen through its abstract contents\<close>
named_theorems node_simps \<open>which fields of a Raft node an operation leaves alone\<close>

section \<open>Words\<close>

lemma unat_inc [word_arith]:
  fixes w :: "'a::len word"
  assumes "w \<noteq> - 1"
  shows "unat (w + 1) = Suc (unat w)"
  using assms by (metis add.commute add_eq_0_iff2 unatSuc)

lemma less_not_max:
  fixes w v :: "'a::len word"
  assumes "w < v"
  shows "w \<noteq> - 1"
  using assms word_n1_ge [of v] by auto

lemma unat_dec [word_arith]:
  fixes w :: "'a::len word"
  assumes "0 < w"
  shows "unat (w - 1) = unat w - 1"
proof -
  from assms have "w \<noteq> 0" by auto
  then show ?thesis by (rule unat_minus_one)
qed

lemma word_dec_less:
  fixes w v :: "'a::len word"
  assumes "v < w"
  shows "v \<le> w - 1"
proof -
  from assms have "0 < w"
    using word_coorder.not_eq_extremum by fastforce
  then show ?thesis
    using assms by (simp add: word_le_nat_alt word_less_nat_alt unat_dec)
qed

lemma word_less_inc:
  fixes w :: "'a::len word"
  assumes "w < v"
  shows "w < w + 1"
  using less_not_max [OF assms] by (simp add: word_less_nat_alt unat_inc)

lemma one_index: "0 < i \<and> i \<le> 1 \<longleftrightarrow> i = 1" for i :: u64
  by (auto simp: word_less_nat_alt word_le_nat_alt word_unat_eq_iff)

lemma word_inc_le:
  fixes w v :: "'a::len word"
  assumes "w < v"
  shows "w + 1 \<le> v"
  using assms less_not_max [OF assms] by (simp add: word_less_nat_alt word_le_nat_alt unat_inc)

lemma word_le_inc_iff:
  fixes w i :: "'a::len word"
  assumes "w \<noteq> - 1"
  shows "i \<le> w + 1 \<longleftrightarrow> i = w + 1 \<or> i \<le> w"
  using assms by (auto simp: word_le_nat_alt word_unat_eq_iff unat_inc le_Suc_eq)

lemma word_less_iff_le_dec:
  fixes i j :: "'a::len word"
  assumes "0 < i"
  shows "j < i \<longleftrightarrow> j \<le> i - 1"
proof -
  have "0 < unat i" using assms by (simp add: word_less_nat_alt)
  then show ?thesis using assms by (auto simp: word_le_nat_alt word_less_nat_alt unat_dec)
qed

section \<open>Lists and association lists\<close>

lemma map_of_sort_key_fst:
  assumes "distinct (map fst xs)"
  shows "map_of (sort_key fst xs) = map_of xs"
proof (rule map_of_eqI)
  show "set (map fst (sort_key fst xs)) = set (map fst xs)"
    by simp
  have "distinct (map fst (sort_key fst xs))"
    using assms by (simp add: distinct_map)
  then show "\<forall>k\<in>set (map fst (sort_key fst xs)). map_of (sort_key fst xs) k = map_of xs k"
    by (metis assms map_of_inject_set set_sort)
qed

lemma map_of_filter_fst:
  "map_of (filter (\<lambda>p. P (fst p)) xs) k = (if P k then map_of xs k else None)"
  by (induction xs) auto

lemma find_append:
  "find P (xs @ ys) = (case find P xs of Some x \<Rightarrow> Some x | None \<Rightarrow> find P ys)"
  by (induction xs) auto

end
