(* ===== verification/Go_Utf8.thy ===== *)
theory Go_Utf8
  imports Prelude
begin

text \<open>
  The part of Go's \<open>unicode/utf8\<close> that \<open>encoding/json\<close> relies on: which bytes at the head of
  a string form one well-formed rune, and the coercion of a byte string to well-formed UTF-8 in
  which every byte that does not belong to a rune becomes the replacement rune U+FFFD.
\<close>

section \<open>Decoding one rune\<close>

definition byte_in :: "nat \<Rightarrow> nat \<Rightarrow> char \<Rightarrow> bool" where
  "byte_in lo hi c \<longleftrightarrow> lo \<le> of_char c \<and> (of_char c :: nat) \<le> hi"

text \<open>
  The width of the rune at the head of the string, 0 when the head is not well-formed
  (\<open>utf8.DecodeRuneInString\<close> then returns \<open>(RuneError, 1)\<close>).
\<close>

definition second_lo :: "nat \<Rightarrow> nat" where
  "second_lo x = (if x = 0xE0 then 0xA0 else if x = 0xF0 then 0x90 else 0x80)"

definition second_hi :: "nat \<Rightarrow> nat" where
  "second_hi x = (if x = 0xED then 0x9F else if x = 0xF4 then 0x8F else 0xBF)"

definition utf8_tail :: "nat \<Rightarrow> string \<Rightarrow> nat" where
  "utf8_tail x r =
     (if x < 0xC2 then 0
      else if x < 0xE0 then
        (case r of b # _ \<Rightarrow> (if byte_in 0x80 0xBF b then 2 else 0) | _ \<Rightarrow> 0)
      else if x < 0xF0 then
        (case r of b # c # _ \<Rightarrow>
           (if byte_in (second_lo x) (second_hi x) b \<and> byte_in 0x80 0xBF c then 3 else 0)
         | _ \<Rightarrow> 0)
      else if x < 0xF5 then
        (case r of b # c # d # _ \<Rightarrow>
           (if byte_in (second_lo x) (second_hi x) b
               \<and> byte_in 0x80 0xBF c \<and> byte_in 0x80 0xBF d then 4 else 0)
         | _ \<Rightarrow> 0)
      else 0)"

fun utf8_width :: "string \<Rightarrow> nat" where
  "utf8_width [] = 0"
| "utf8_width (a # r) =
     (let x = of_char a in if x < 0x80 then 1 else utf8_tail x r)"

definition replacement_rune :: string where
  "replacement_rune = [CHR 0xEF, CHR 0xBF, CHR 0xBD]"

fun to_valid_utf8 :: "string \<Rightarrow> string" where
  "to_valid_utf8 [] = []"
| "to_valid_utf8 (c # cs) =
     (let w = utf8_width (c # cs) in
      if w = 0 then replacement_rune @ to_valid_utf8 cs
      else take w (c # cs) @ to_valid_utf8 (drop (w - 1) cs))"

declare utf8_width.simps(2) [simp del]

definition utf8_valid :: "string \<Rightarrow> bool" where
  "utf8_valid s \<longleftrightarrow> to_valid_utf8 s = s"

section \<open>Facts\<close>

lemma utf8_width_ascii: "(of_char a :: nat) < 128 \<Longrightarrow> utf8_width (a # r) = 1"
  by (simp add: utf8_width.simps Let_def)

lemma utf8_tail_cases:
  assumes "utf8_tail x r \<noteq> 0"
  obtains (two) b r' where "r = b # r'" "utf8_tail x r = 2" "\<And>z. utf8_tail x (b # z) = 2"
  | (three) b c r' where "r = b # c # r'" "utf8_tail x r = 3" "\<And>z. utf8_tail x (b # c # z) = 3"
  | (four) b c d r' where "r = b # c # d # r'" "utf8_tail x r = 4"
      "\<And>z. utf8_tail x (b # c # d # z) = 4"
  using assms
  by (auto simp: utf8_tail_def split: if_splits list.splits)

text \<open>The width only depends on the bytes it covers.\<close>

lemma utf8_width_take:
  assumes "utf8_width xs \<noteq> 0"
  shows "utf8_width (take (utf8_width xs) xs @ ys) = utf8_width xs"
proof (cases xs)
  case Nil
  with assms show ?thesis by simp
next
  case (Cons a r)
  show ?thesis
  proof (cases "(of_char a :: nat) < 128")
    case True
    with Cons show ?thesis by (simp add: utf8_width.simps Let_def)
  next
    case False
    with Cons have w: "utf8_width xs = utf8_tail (of_char a) r" by (simp add: utf8_width.simps Let_def)
    with assms have "utf8_tail (of_char a) r \<noteq> 0" by simp
    then show ?thesis
      by (cases rule: utf8_tail_cases) (use Cons False w in \<open>auto simp: utf8_width.simps Let_def\<close>)
  qed
qed

lemma utf8_width_le_length: "utf8_width xs \<le> length xs"
proof (cases "utf8_width xs = 0")
  case False
  then show ?thesis
  proof (cases xs)
    case (Cons a r)
    show ?thesis
    proof (cases "(of_char a :: nat) < 128")
      case True
      with Cons show ?thesis by (simp add: utf8_width.simps Let_def)
    next
      case nascii: False
      with Cons False have "utf8_tail (of_char a) r \<noteq> 0" by (simp add: utf8_width.simps Let_def)
      then show ?thesis
        by (cases rule: utf8_tail_cases) (use Cons nascii in \<open>auto simp: utf8_width.simps Let_def\<close>)
    qed
  qed simp
qed simp

lemma utf8_width_replacement [simp]: "utf8_width (replacement_rune @ ys) = 3"
  by (simp add: utf8_width.simps replacement_rune_def Let_def utf8_tail_def byte_in_def second_lo_def second_hi_def)

lemma to_valid_utf8_rune:
  assumes "utf8_width xs \<noteq> 0"
  shows "to_valid_utf8 (take (utf8_width xs) xs @ ys) = take (utf8_width xs) xs @ to_valid_utf8 ys"
proof (cases xs)
  case Nil
  with assms show ?thesis by simp
next
  case (Cons a r)
  obtain w where w: "utf8_width xs = Suc w"
    using assms not0_implies_Suc by blast
  then have len: "length (take w r) = w"
    using utf8_width_le_length [of xs] Cons by simp
  have "utf8_width (a # take w r @ ys) = Suc w"
    using utf8_width_take [OF assms, of ys] Cons w by simp
  then show ?thesis
    using Cons w len by (simp add: utf8_width.simps Let_def)
qed

text \<open>Coercion gives a well-formed string, so coercing twice changes nothing.\<close>

lemma utf8_valid_to_valid_utf8 [simp]: "utf8_valid (to_valid_utf8 s)"
  unfolding utf8_valid_def
proof (induction s rule: to_valid_utf8.induct)
  case (2 c cs)
  show ?case
  proof (cases "utf8_width (c # cs) = 0")
    case True
    with 2 show ?thesis
      using to_valid_utf8_rune [of replacement_rune "to_valid_utf8 cs"]
        utf8_width_replacement [of "[]"]
      by (simp add: Let_def replacement_rune_def)
  next
    case False
    with 2 show ?thesis
      using to_valid_utf8_rune [OF False, of "to_valid_utf8 (drop (utf8_width (c # cs) - 1) cs)"]
      by (simp add: utf8_width.simps Let_def)
  qed
qed simp

lemma ascii_utf8_valid:
  assumes "\<forall>c\<in>set s. (of_char c :: nat) < 128"
  shows "utf8_valid s"
  using assms unfolding utf8_valid_def
  by (induction s) (simp_all add: utf8_width.simps Let_def)

lemma utf8_valid_Nil [simp]: "utf8_valid []"
  by (simp add: utf8_valid_def)

lemma ascii_to_valid_utf8: "list_all (\<lambda>c. (of_char c :: nat) < 128) s \<Longrightarrow> to_valid_utf8 s = s"
  using ascii_utf8_valid [of s] by (simp add: utf8_valid_def list_all_iff)

declare to_valid_utf8.simps(2) [simp del]

end
