(* ===== verification/Json_String.thy ===== *)
theory Json_String
  imports Go_Utf8
begin

text \<open>
  String literals of \<open>encoding/json\<close>: the escaping done by \<open>json.Marshal\<close> (which escapes the
  HTML characters and replaces bytes that are not well-formed UTF-8), the unquoting done by
  \<open>json.Unmarshal\<close>, and the round trip: unquoting a quoted string gives the string coerced to
  well-formed UTF-8.
\<close>

section \<open>Quoting\<close>

abbreviation (input) dquote :: char where "dquote \<equiv> CHR 0x22"
abbreviation (input) bslash :: char where "bslash \<equiv> CHR 0x5C"

definition hex_char :: "nat \<Rightarrow> char" where
  "hex_char n = (if n < 10 then char_of (48 + n) else char_of (87 + n))"

definition hex_val :: "char \<Rightarrow> nat option" where
  "hex_val c =
     (let x = of_char c in
      if 48 \<le> x \<and> x \<le> 57 then Some (x - 48)
      else if 97 \<le> x \<and> x \<le> 102 then Some (x - 87)
      else if 65 \<le> x \<and> x \<le> 70 then Some (x - 55)
      else None)"

definition escape_ascii :: "char \<Rightarrow> string" where
  "escape_ascii c =
     (let x = of_char c :: nat in
      if c = dquote \<or> c = bslash then [bslash, c]
      else if x = 8 then [bslash, CHR ''b'']
      else if x = 12 then [bslash, CHR ''f'']
      else if x = 10 then [bslash, CHR ''n'']
      else if x = 13 then [bslash, CHR ''r'']
      else if x = 9 then [bslash, CHR ''t'']
      else if x < 32 \<or> c = CHR ''<'' \<or> c = CHR ''>'' \<or> c = CHR ''&'' then
        bslash # ''u00'' @ [hex_char (x div 16), hex_char (x mod 16)]
      else [c])"

definition line_sep :: string where "line_sep = [CHR 0xE2, CHR 0x80, CHR 0xA8]"
definition para_sep :: string where "para_sep = [CHR 0xE2, CHR 0x80, CHR 0xA9]"

definition escape_rune :: "string \<Rightarrow> string" where
  "escape_rune r =
     (if r = line_sep then bslash # ''u2028'' else if r = para_sep then bslash # ''u2029'' else r)"

fun escape :: "string \<Rightarrow> string" where
  "escape [] = []"
| "escape (c # cs) =
     (if (of_char c :: nat) < 128 then escape_ascii c @ escape cs
      else (let w = utf8_width (c # cs) in
        if w = 0 then (bslash # ''ufffd'') @ escape cs
        else escape_rune (take w (c # cs)) @ escape (drop (w - 1) cs)))"

definition json_quote :: "string \<Rightarrow> string" where
  "json_quote s = dquote # escape s @ [dquote]"

section \<open>Unquoting\<close>

text \<open>The UTF-8 encoding of a code point (\<open>utf8.EncodeRune\<close>); surrogates are replaced.\<close>

definition encode_rune :: "nat \<Rightarrow> string" where
  "encode_rune x =
     (if x < 0x80 then [char_of x]
      else if x < 0x800 then [char_of (0xC0 + x div 64), char_of (0x80 + x mod 64)]
      else if 0xD800 \<le> x \<and> x < 0xE000 \<or> 0x110000 \<le> x then replacement_rune
      else if x < 0x10000 then
        [char_of (0xE0 + x div 4096), char_of (0x80 + x div 64 mod 64), char_of (0x80 + x mod 64)]
      else [char_of (0xF0 + x div 262144), char_of (0x80 + x div 4096 mod 64),
            char_of (0x80 + x div 64 mod 64), char_of (0x80 + x mod 64)])"

text \<open>\<open>getu4\<close>: four hexadecimal digits and what follows them.\<close>

fun getu4 :: "string \<Rightarrow> (nat \<times> string) option" where
  "getu4 (a # b # c # d # r) =
     (case (hex_val a, hex_val b, hex_val c, hex_val d) of
        (Some p, Some q, Some u, Some v) \<Rightarrow> Some (((p * 16 + q) * 16 + u) * 16 + v, r)
      | _ \<Rightarrow> None)"
| "getu4 _ = None"

text \<open>
  A \<open>\u\<close> escape. A high surrogate followed by an escaped low surrogate is one code point; any
  other surrogate is replaced, and what follows it is read again.
\<close>

definition low_surrogate :: "nat \<Rightarrow> string \<Rightarrow> (nat \<times> string) option" where
  "low_surrogate hi r =
     (case r of b # u # r' \<Rightarrow>
        (if b = bslash \<and> u = CHR ''u'' then
           (case getu4 r' of
              Some (lo, r'') \<Rightarrow>
                (if 0xD800 \<le> hi \<and> hi < 0xDC00 \<and> 0xDC00 \<le> lo \<and> lo < 0xE000
                 then Some ((hi - 0xD800) * 1024 + (lo - 0xDC00) + 0x10000, r'') else None)
            | None \<Rightarrow> None)
         else None)
      | _ \<Rightarrow> None)"

definition unicode_escape :: "string \<Rightarrow> (string \<times> string) option" where
  "unicode_escape r =
     (case getu4 r of
        None \<Rightarrow> None
      | Some (x, r') \<Rightarrow>
          (if 0xD800 \<le> x \<and> x < 0xE000 then
             (case low_surrogate x r' of
                Some (y, r'') \<Rightarrow> Some (encode_rune y, r'')
              | None \<Rightarrow> Some (replacement_rune, r'))
           else Some (encode_rune x, r')))"

definition simple_escape :: "char \<Rightarrow> char option" where
  "simple_escape e =
     map_of [(dquote, dquote), (bslash, bslash), (CHR ''/'', CHR ''/''), (CHR ''b'', CHR 0x08),
       (CHR ''f'', CHR 0x0C), (CHR ''n'', CHR 0x0A), (CHR ''r'', CHR 0x0D), (CHR ''t'', CHR 0x09)] e"

definition read_escape :: "string \<Rightarrow> (string \<times> string) option" where
  "read_escape r =
     (case r of
        [] \<Rightarrow> None
      | e # r' \<Rightarrow> (if e = CHR ''u'' then unicode_escape r'
                 else map_option (\<lambda>d. ([d], r')) (simple_escape e)))"

lemma getu4_length: "getu4 r = Some (x, r') \<Longrightarrow> length r' < length r"
  by (induction r rule: getu4.induct) (auto split: option.splits)

lemma read_escape_length: "read_escape r = Some (s, r') \<Longrightarrow> length r' < length r"
  by (auto simp: read_escape_def unicode_escape_def low_surrogate_def
      split: list.splits if_splits option.splits prod.splits dest!: getu4_length)

text \<open>
  The contents of a literal whose opening quote has been read: the unquoted string and the input
  after the closing quote, or \<^const>\<open>None\<close> for a malformed literal.
\<close>

function unquote :: "string \<Rightarrow> (string \<times> string) option" where
  "unquote [] = None"
| "unquote (c # cs) =
     (if c = dquote then Some ([], cs)
      else if c = bslash then
        (case read_escape cs of
           None \<Rightarrow> None
         | Some (p, r) \<Rightarrow> map_option (apfst ((@) p)) (unquote r))
      else if (of_char c :: nat) < 32 then None
      else (let w = utf8_width (c # cs) in
        if w = 0 then map_option (apfst ((@) replacement_rune)) (unquote cs)
        else map_option (apfst ((@) (take w (c # cs)))) (unquote (drop (w - 1) cs))))"
  by pat_completeness auto
termination
proof (relation "measure length", goal_cases)
  case 1
  show ?case by simp
next
  case (2 c cs x p r)
  then show ?case
    using read_escape_length [of cs p r] by (simp only: in_measure list.size) simp
next
  case (3 c cs x)
  show ?case by simp
next
  case (4 c cs x)
  show ?case by simp
qed

section \<open>Round trip\<close>

lemma hex_val_hex_char: "n < 16 \<Longrightarrow> hex_val (hex_char n) = Some n"
  by (simp add: hex_val_def hex_char_def)

lemma char_of_control:
  "char_of (8::nat) = CHR 0x08" "char_of (9::nat) = CHR 0x09" "char_of (10::nat) = CHR 0x0A"
  "char_of (12::nat) = CHR 0x0C" "char_of (13::nat) = CHR 0x0D"
  by code_simp+

lemma unquote_escape_ascii:
  assumes "(of_char c :: nat) < 128"
  shows "unquote (escape_ascii c @ ys) = map_option (apfst ((@) [c])) (unquote ys)"
proof -
  have "c = dquote \<or> c = bslash \<or> of_char c \<in> {8, 9, 10, 12, 13 :: nat}
    \<or> escape_ascii c = bslash # ''u00'' @ [hex_char (of_char c div 16), hex_char (of_char c mod 16)]
    \<or> escape_ascii c = [c] \<and> c \<noteq> dquote \<and> c \<noteq> bslash \<and> 32 \<le> (of_char c :: nat)"
    by (auto simp: escape_ascii_def Let_def)
  then consider (quote) "c = dquote \<or> c = bslash"
    | (ctl) "of_char c \<in> {8, 9, 10, 12, 13 :: nat}"
    | (hex) "escape_ascii c =
        bslash # ''u00'' @ [hex_char (of_char c div 16), hex_char (of_char c mod 16)]"
    | (plain) "escape_ascii c = [c]" "c \<noteq> dquote" "c \<noteq> bslash" "32 \<le> (of_char c :: nat)"
    by blast
  then show ?thesis
  proof cases
    case quote
    then show ?thesis
      by (auto simp: escape_ascii_def Let_def read_escape_def simple_escape_def)
  next
    case ctl
    then have "c \<in> char_of ` {8, 9, 10, 12, 13 :: nat}"
      by (metis char_of_char image_eqI)
    then have "c \<in> {CHR 0x08, CHR 0x09, CHR 0x0A, CHR 0x0C, CHR 0x0D}"
      by (simp add: char_of_control)
    then show ?thesis
      by (elim insertE emptyE) (simp_all add: escape_ascii_def read_escape_def simple_escape_def)
  next
    case hex
    let ?x = "of_char c :: nat"
    have "hex_val CHR ''0'' = Some 0" by (simp add: hex_val_def)
    moreover have "hex_val (hex_char (?x div 16)) = Some (?x div 16)"
      "hex_val (hex_char (?x mod 16)) = Some (?x mod 16)"
      using assms by (auto intro!: hex_val_hex_char)
    ultimately have "getu4 (''00'' @ [hex_char (?x div 16), hex_char (?x mod 16)] @ ys) = Some (?x, ys)"
      by simp
    with hex assms show ?thesis
      by (simp add: read_escape_def unicode_escape_def encode_rune_def)
  next
    case plain
    with assms show ?thesis
      by (simp add: utf8_width_ascii)
  qed
qed

lemma char_of_rune_bytes:
  "char_of (239::nat) = CHR 0xEF" "char_of (191::nat) = CHR 0xBF" "char_of (189::nat) = CHR 0xBD"
  "char_of (226::nat) = CHR 0xE2" "char_of (128::nat) = CHR 0x80" "char_of (168::nat) = CHR 0xA8"
  "char_of (169::nat) = CHR 0xA9"
  by code_simp+

lemma unquote_ufffd:
  "unquote ((bslash # ''ufffd'') @ ys) = map_option (apfst ((@) replacement_rune)) (unquote ys)"
  by (simp add: read_escape_def unicode_escape_def hex_val_def Let_def encode_rune_def
      replacement_rune_def char_of_rune_bytes)

lemma unquote_escape_rune:
  assumes "utf8_width (c # cs) = w" "w \<noteq> 0" "\<not> (of_char c :: nat) < 128"
  shows "unquote (escape_rune (take w (c # cs)) @ ys)
    = map_option (apfst ((@) (take w (c # cs)))) (unquote ys)"
proof -
  obtain v where v: "w = Suc v" using assms(2) not0_implies_Suc by blast
  let ?r = "take w (c # cs)"
  consider (ls) "?r = line_sep" | (ps) "?r = para_sep" | (raw) "escape_rune ?r = ?r"
    unfolding escape_rune_def by argo
  then show ?thesis
  proof cases
    case ls
    then show ?thesis
      by (simp add: escape_rune_def read_escape_def unicode_escape_def hex_val_def Let_def
          encode_rune_def line_sep_def char_of_rune_bytes)
  next
    case ps
    then show ?thesis
      by (simp add: escape_rune_def read_escape_def unicode_escape_def hex_val_def Let_def
          encode_rune_def para_sep_def line_sep_def char_of_rune_bytes)
  next
    case raw
    have "c \<noteq> dquote" "c \<noteq> bslash" "\<not> (of_char c :: nat) < 32"
      using assms(3) by auto
    moreover have "utf8_width (c # take v cs @ ys) = w"
      using utf8_width_take [of "c # cs" ys] assms(1,2) v by (simp)
    moreover have "length (take v cs) = v"
      using utf8_width_le_length [of "c # cs"] assms(1) v by (simp)
    ultimately show ?thesis
      using raw v by (simp add: Let_def)
  qed
qed

lemma unquote_escape: "unquote (escape s @ dquote # ys) = Some (to_valid_utf8 s, ys)"
proof (induction s rule: escape.induct)
  case 1
  then show ?case by simp
next
  case (2 c cs)
  let ?w = "utf8_width (c # cs)"
  consider (ascii) "(of_char c :: nat) < 128" | (bad) "\<not> (of_char c :: nat) < 128" "?w = 0"
    | (rune) "\<not> (of_char c :: nat) < 128" "?w \<noteq> 0"
    by blast
  then show ?case
  proof cases
    case ascii
    with 2 show ?thesis
      by (simp add: unquote_escape_ascii utf8_width_ascii Let_def to_valid_utf8.simps
          del: unquote.simps)
  next
    case bad
    with 2 show ?thesis
      using unquote_ufffd [of "escape cs @ dquote # ys"]
      by (simp add: Let_def to_valid_utf8.simps del: unquote.simps)
  next
    case rune
    with 2 show ?thesis
      by (simp add: unquote_escape_rune [OF refl] Let_def to_valid_utf8.simps
          del: unquote.simps take_Suc_Cons)
  qed
qed

text \<open>A quoted string is at most six times as long as the string, plus its two quotes.\<close>

lemma length_escape: "length (escape s) \<le> 6 * length s"
proof (induction s rule: escape.induct)
  case (2 c cs)
  let ?w = "utf8_width (c # cs)"
  have "length (escape_ascii c) \<le> 6"
    by (auto simp: escape_ascii_def Let_def)
  moreover have "length (escape_rune (take ?w (c # cs))) \<le> 6 * ?w" if "?w \<noteq> 0"
    using that utf8_width_le_length [of "c # cs"]
    by (auto simp: escape_rune_def)
  moreover have "?w + length (drop (?w - 1) cs) = Suc (length cs)" if "?w \<noteq> 0"
    using that utf8_width_le_length [of "c # cs"] by (auto)
  ultimately show ?case
    using 2 by (cases "?w = 0") (auto simp: Let_def)
qed simp

lemma length_quote: "length (json_quote s) \<le> 6 * length s + 2"
  using length_escape [of s] by (simp add: json_quote_def del: escape.simps)

end
