(* ===== verification/Json_Base64.thy ===== *)
theory Json_Base64
  imports Prelude
begin

text \<open>
  The standard base64 encoding of \<open>encoding/base64\<close>, in which \<open>encoding/json\<close> writes every
  \<open>[]byte\<close> field (command values, snapshot data), with its decoder and the round trip.
\<close>

definition b64_char :: "nat \<Rightarrow> char" where
  "b64_char n =
     (if n < 26 then char_of (65 + n) else if n < 52 then char_of (71 + n)
      else if n < 62 then char_of (n - 4) else if n = 62 then CHR ''+'' else CHR ''/'')"

definition b64_val :: "char \<Rightarrow> nat option" where
  "b64_val c =
     (let x = of_char c in
      if 65 \<le> x \<and> x \<le> 90 then Some (x - 65)
      else if 97 \<le> x \<and> x \<le> 122 then Some (x - 71)
      else if 48 \<le> x \<and> x \<le> 57 then Some (x + 4)
      else if c = CHR ''+'' then Some 62 else if c = CHR ''/'' then Some 63 else None)"

abbreviation (input) b64_pad :: char where "b64_pad \<equiv> CHR ''=''"

fun b64_encode :: "string \<Rightarrow> string" where
  "b64_encode [] = []"
| "b64_encode [a] =
     [b64_char (of_char a div 4), b64_char (of_char a mod 4 * 16), b64_pad, b64_pad]"
| "b64_encode [a, b] =
     [b64_char (of_char a div 4), b64_char (of_char a mod 4 * 16 + of_char b div 16),
      b64_char (of_char b mod 16 * 4), b64_pad]"
| "b64_encode (a # b # c # r) =
     [b64_char (of_char a div 4), b64_char (of_char a mod 4 * 16 + of_char b div 16),
      b64_char (of_char b mod 16 * 4 + of_char c div 64), b64_char (of_char c mod 64)] @ b64_encode r"

definition b64_first :: "nat \<Rightarrow> nat \<Rightarrow> char" where
  "b64_first p q = char_of (p * 4 + q div 16)"
definition b64_second :: "nat \<Rightarrow> nat \<Rightarrow> char" where
  "b64_second q r = char_of (q mod 16 * 16 + r div 4)"
definition b64_third :: "nat \<Rightarrow> nat \<Rightarrow> char" where
  "b64_third r s = char_of (r mod 4 * 64 + s)"

text \<open>One group of four characters; a padded group is only accepted at the end of the input.\<close>

definition b64_group :: "char \<Rightarrow> char \<Rightarrow> char \<Rightarrow> char \<Rightarrow> bool \<Rightarrow> string option" where
  "b64_group a b c d final =
     (case (b64_val a, b64_val b) of
        (Some p, Some q) \<Rightarrow>
          (if c = b64_pad then (if d = b64_pad \<and> final then Some [b64_first p q] else None)
           else (case b64_val c of
              None \<Rightarrow> None
            | Some r \<Rightarrow>
                (if d = b64_pad then (if final then Some [b64_first p q, b64_second q r] else None)
                 else map_option (\<lambda>s. [b64_first p q, b64_second q r, b64_third r s]) (b64_val d))))
      | _ \<Rightarrow> None)"

fun b64_groups :: "string \<Rightarrow> string option" where
  "b64_groups [] = Some []"
| "b64_groups (a # b # c # d # r) =
     (case b64_group a b c d (r = []) of
        None \<Rightarrow> None
      | Some bs \<Rightarrow> map_option ((@) bs) (b64_groups r))"
| "b64_groups _ = None"

text \<open>The decoder skips line breaks wherever they occur.\<close>

definition b64_decode :: "string \<Rightarrow> string option" where
  "b64_decode s = b64_groups (filter (\<lambda>c. c \<noteq> CHR 0x0A \<and> c \<noteq> CHR 0x0D) s)"

lemma b64_val_char: "n < 64 \<Longrightarrow> b64_val (b64_char n) = Some n"
  by (cases "n < 26"; cases "n < 52"; cases "n < 62"; cases "n = 62";
      simp add: b64_val_def b64_char_def Let_def; linarith)

lemma b64_char_of_char_range:
  "n < 64 \<Longrightarrow> (of_char (b64_char n) :: nat) \<in> {43, 47} \<union> {48..57} \<union> {65..90} \<union> {97..122}"
  by (cases "n < 26"; cases "n < 52"; cases "n < 62"; cases "n = 62";
      simp add: b64_char_def; linarith)

lemma b64_char_neq:
  assumes "n < 64"
  shows "b64_char n \<noteq> CHR ''=''" "b64_char n \<noteq> CHR 0x0A" "b64_char n \<noteq> CHR 0x0D"
  using b64_char_of_char_range [OF assms] by (auto dest: arg_cong [where f = "of_char :: char \<Rightarrow> nat"])

lemma b64_bytes:
  fixes a b c :: char
  shows "b64_first (of_char a div 4) (of_char a mod 4 * 16) = a"
    and "b64_first (of_char a div 4) (of_char a mod 4 * 16 + of_char b div 16) = a"
    and "b64_second (of_char a mod 4 * 16 + of_char b div 16) (of_char b mod 16 * 4) = b"
    and "b64_second (of_char a mod 4 * 16 + of_char b div 16)
           (of_char b mod 16 * 4 + of_char c div 64) = b"
    and "b64_third (of_char b mod 16 * 4 + of_char c div 64) (of_char c mod 64) = c"
proof -
  let ?a = "of_char a :: nat" and ?b = "of_char b :: nat" and ?c = "of_char c :: nat"
  have lt: "?b div 16 < 16" "?c div 64 < 4"
    using nat_of_char_less_256 [of b] nat_of_char_less_256 [of c] by linarith+
  have "?a div 4 * 4 + (?a mod 4 * 16) div 16 = ?a" by simp
  then show "b64_first (?a div 4) (?a mod 4 * 16) = a" by (simp add: b64_first_def)
  have "?a div 4 * 4 + (?a mod 4 * 16 + ?b div 16) div 16 = ?a" using lt by simp
  then show "b64_first (?a div 4) (?a mod 4 * 16 + ?b div 16) = a" by (simp add: b64_first_def)
  have "(?a mod 4 * 16 + ?b div 16) mod 16 * 16 + (?b mod 16 * 4) div 4 = ?b" using lt by simp
  then show "b64_second (?a mod 4 * 16 + ?b div 16) (?b mod 16 * 4) = b"
    by (simp only: b64_second_def char_of_char)
  have "(?a mod 4 * 16 + ?b div 16) mod 16 * 16 + (?b mod 16 * 4 + ?c div 64) div 4 = ?b"
    using lt by simp
  then show "b64_second (?a mod 4 * 16 + ?b div 16) (?b mod 16 * 4 + ?c div 64) = b"
    by (simp only: b64_second_def char_of_char)
  have "(?b mod 16 * 4 + ?c div 64) mod 4 * 64 + ?c mod 64 = ?c" using lt by simp
  then show "b64_third (?b mod 16 * 4 + ?c div 64) (?c mod 64) = c"
    by (simp only: b64_third_def char_of_char)
qed

lemma b64_sextets:
  fixes a b c :: char
  shows "(of_char a div 4 :: nat) < 64" "(of_char a mod 4 * 16 :: nat) < 64"
    "(of_char a mod 4 * 16 + of_char b div 16 :: nat) < 64" "(of_char b mod 16 * 4 :: nat) < 64"
    "(of_char b mod 16 * 4 + of_char c div 64 :: nat) < 64" "(of_char c mod 64 :: nat) < 64"
  using nat_of_char_less_256 [of a] nat_of_char_less_256 [of b] nat_of_char_less_256 [of c] by linarith+

lemma b64_groups_encode: "b64_groups (b64_encode s) = Some s"
proof (induction s rule: b64_encode.induct)
  case (4 a b c r)
  then show ?case
    by (simp add: b64_group_def b64_val_char b64_char_neq b64_sextets b64_bytes)
qed (simp_all add: b64_group_def b64_val_char b64_char_neq b64_sextets b64_bytes)

lemma b64_encode_no_breaks:
  "filter (\<lambda>c. c \<noteq> CHR 0x0A \<and> c \<noteq> CHR 0x0D) (b64_encode s) = b64_encode s"
  by (induction s rule: b64_encode.induct) (simp_all add: b64_char_neq b64_sextets)

lemma b64_decode_encode [json_simps]: "b64_decode (b64_encode s) = Some s"
  by (simp add: b64_decode_def b64_encode_no_breaks b64_groups_encode)

text \<open>The encoding is pure ASCII, so quoting it as a JSON string loses nothing.\<close>

lemma b64_char_ascii: "n < 64 \<Longrightarrow> (of_char (b64_char n) :: nat) < 128"
  using b64_char_of_char_range [of n] by auto

lemma b64_encode_ascii: "\<forall>c\<in>set (b64_encode s). (of_char c :: nat) < 128"
  by (induction s rule: b64_encode.induct) (simp_all add: b64_char_ascii b64_sextets)

end
