(* ===== verification/Json.thy ===== *)
theory Json
  imports Json_String Json_Base64
begin

text \<open>
  JSON values and texts as \<open>encoding/json\<close> handles them: the compact text that \<open>json.Marshal\<close>
  writes, the reader behind \<open>json.Unmarshal\<close> and \<open>json.Decoder\<close>, and the round trip between
  the two. A number is kept as its literal, because Go decodes it according to the type of the
  variable it is stored in.
\<close>

datatype json =
    JNull
  | JBool bool
  | JNum string
  | JStr string
  | JArr "json list"
  | JObj "(string \<times> json) list"

section \<open>Writing\<close>

fun print_json :: "json \<Rightarrow> string"
  and print_elems :: "json list \<Rightarrow> string"
  and print_members :: "(string \<times> json) list \<Rightarrow> string" where
  "print_json JNull = ''null''"
| "print_json (JBool b) = (if b then ''true'' else ''false'')"
| "print_json (JNum lit) = lit"
| "print_json (JStr s) = json_quote s"
| "print_json (JArr js) = ''['' @ print_elems js @ '']''"
| "print_json (JObj ms) = CHR 0x7B # print_members ms @ [CHR 0x7D]"
| "print_elems [] = []"
| "print_elems [j] = print_json j"
| "print_elems (j # k # js) = print_json j @ '','' @ print_elems (k # js)"
| "print_members [] = []"
| "print_members [(n, j)] = json_quote n @ '':'' @ print_json j"
| "print_members ((n, j) # m # ms) =
     json_quote n @ '':'' @ print_json j @ '','' @ print_members (m # ms)"

section \<open>Numbers\<close>

definition is_digit :: "char \<Rightarrow> bool" where
  "is_digit c \<longleftrightarrow> byte_in 48 57 c"

definition digits_ok :: "string \<Rightarrow> bool" where
  "digits_ok s \<longleftrightarrow> s \<noteq> [] \<and> list_all is_digit s"

fun exp_ok :: "string \<Rightarrow> bool" where
  "exp_ok [] = True"
| "exp_ok (e # r) =
     ((e = CHR ''e'' \<or> e = CHR ''E'') \<and>
      digits_ok (case r of [] \<Rightarrow> [] | c # r' \<Rightarrow> if c = CHR ''+'' \<or> c = CHR ''-'' then r' else r))"

fun frac_ok :: "string \<Rightarrow> bool" where
  "frac_ok [] = True"
| "frac_ok (c # r) =
     (if c = CHR ''.'' then takeWhile is_digit r \<noteq> [] \<and> exp_ok (dropWhile is_digit r)
      else exp_ok (c # r))"

fun int_ok :: "string \<Rightarrow> bool" where
  "int_ok [] = False"
| "int_ok (c # r) =
     (if c = CHR ''0'' then frac_ok r else is_digit c \<and> frac_ok (dropWhile is_digit r))"

definition num_ok :: "string \<Rightarrow> bool" where
  "num_ok s = (case s of [] \<Rightarrow> False | c # r \<Rightarrow> if c = CHR ''-'' then int_ok r else int_ok s)"

definition num_char :: "char \<Rightarrow> bool" where
  "num_char c \<longleftrightarrow> is_digit c \<or> c \<in> set ''+-.eE''"

text \<open>Unsigned decimal numbers (\<open>strconv.AppendUint\<close>, \<open>strconv.ParseUint\<close>).\<close>

definition digit_char :: "nat \<Rightarrow> char" where
  "digit_char d = char_of (48 + d)"

fun show_nat :: "nat \<Rightarrow> string" where
  "show_nat n = (if n < 10 then [digit_char n] else show_nat (n div 10) @ [digit_char (n mod 10)])"

declare show_nat.simps [simp del]

definition read_nat :: "string \<Rightarrow> nat" where
  "read_nat s = foldl (\<lambda>a c. a * 10 + (of_char c - 48)) 0 s"

definition parse_uint :: "nat \<Rightarrow> string \<Rightarrow> nat option" where
  "parse_uint bound s =
     (if digits_ok s \<and> read_nat s < bound then Some (read_nat s) else None)"

section \<open>Reading\<close>

definition is_ws :: "char \<Rightarrow> bool" where
  "is_ws c \<longleftrightarrow> c = CHR 0x20 \<or> c = CHR 0x09 \<or> c = CHR 0x0A \<or> c = CHR 0x0D"

definition skip_ws :: "string \<Rightarrow> string" where
  "skip_ws s = dropWhile is_ws s"

definition strip_prefix :: "string \<Rightarrow> string \<Rightarrow> string option" where
  "strip_prefix p s = (if take (length p) s = p then Some (drop (length p) s) else None)"

text \<open>A value that is neither a string nor a composite.\<close>

definition read_scalar :: "string \<Rightarrow> (json \<times> string) option" where
  "read_scalar s =
     (case strip_prefix ''null'' s of Some r \<Rightarrow> Some (JNull, r)
      | None \<Rightarrow> (case strip_prefix ''true'' s of Some r \<Rightarrow> Some (JBool True, r)
      | None \<Rightarrow> (case strip_prefix ''false'' s of Some r \<Rightarrow> Some (JBool False, r)
      | None \<Rightarrow>
          (let lit = takeWhile num_char s in
           if num_ok lit then Some (JNum lit, dropWhile num_char s) else None))))"

text \<open>
  The recursive reader. The first argument bounds the number of nested calls; a text of length
  \<open>n\<close> never needs more than \<open>n + 1\<close> of them, which is what \<open>parse_json\<close> supplies.
\<close>

fun read_value :: "nat \<Rightarrow> string \<Rightarrow> (json \<times> string) option"
  and read_elems :: "nat \<Rightarrow> string \<Rightarrow> (json list \<times> string) option"
  and read_members :: "nat \<Rightarrow> string \<Rightarrow> ((string \<times> json) list \<times> string) option" where
  "read_value 0 s = None"
| "read_value (Suc n) s =
     (case skip_ws s of
        [] \<Rightarrow> None
      | c # r \<Rightarrow>
          (if c = dquote then map_option (apfst JStr) (unquote r)
           else if c = CHR ''['' then
             (case skip_ws r of
                [] \<Rightarrow> None
              | d # r' \<Rightarrow> (if d = CHR '']'' then Some (JArr [], r')
                         else map_option (apfst JArr) (read_elems n r)))
           else if c = CHR 0x7B then
             (case skip_ws r of
                [] \<Rightarrow> None
              | d # r' \<Rightarrow> (if d = CHR 0x7D then Some (JObj [], r')
                         else map_option (apfst JObj) (read_members n r)))
           else read_scalar (c # r)))"
| "read_elems 0 s = None"
| "read_elems (Suc n) s =
     (case read_value n s of
        None \<Rightarrow> None
      | Some (j, r) \<Rightarrow>
          (case skip_ws r of
             [] \<Rightarrow> None
           | c # r' \<Rightarrow>
               (if c = CHR '']'' then Some ([j], r')
                else if c = CHR '','' then map_option (apfst ((#) j)) (read_elems n r')
                else None)))"
| "read_members 0 s = None"
| "read_members (Suc n) s =
     (case skip_ws s of
        [] \<Rightarrow> None
      | q # r \<Rightarrow>
          (if q \<noteq> dquote then None
           else (case unquote r of
              None \<Rightarrow> None
            | Some (k, r1) \<Rightarrow>
                (case skip_ws r1 of
                   [] \<Rightarrow> None
                 | col # r2 \<Rightarrow>
                     (if col \<noteq> CHR '':'' then None
                      else (case read_value n r2 of
                         None \<Rightarrow> None
                       | Some (j, r3) \<Rightarrow>
                           (case skip_ws r3 of
                              [] \<Rightarrow> None
                            | c # r4 \<Rightarrow>
                                (if c = CHR 0x7D then Some ([(k, j)], r4)
                                 else if c = CHR '','' then
                                   map_option (apfst ((#) (k, j))) (read_members n r4)
                                 else None))))))))"

text \<open>
  \<open>json.Unmarshal\<close> wants white space only after the value; \<open>json.Decoder.Decode\<close> reads the
  first value of the stream and leaves the rest.
\<close>

definition decode_first :: "string \<Rightarrow> json option" where
  "decode_first s = map_option fst (read_value (Suc (length s)) s)"

definition parse_json :: "string \<Rightarrow> json option" where
  "parse_json s =
     (case read_value (Suc (length s)) s of
        Some (j, r) \<Rightarrow> (if skip_ws r = [] then Some j else None)
      | None \<Rightarrow> None)"

end
