(* ===== verification/Json_Roundtrip.thy ===== *)
theory Json_Roundtrip
  imports Json
begin

text \<open>
  Reading back what was written: for every value whose number literals are well formed the reader
  returns the value with its strings coerced to well-formed UTF-8, and consumes exactly the text
  that was written. The call bound used by \<^const>\<open>parse_json\<close> is always enough.
\<close>

section \<open>Numbers\<close>

definition num_wf :: "string \<Rightarrow> bool" where
  "num_wf lit \<longleftrightarrow> num_ok lit \<and> list_all num_char lit"

lemma digit_char_ok [simp]: "d < 10 \<Longrightarrow> is_digit (digit_char d)"
  by (simp add: is_digit_def byte_in_def digit_char_def)

lemma digit_char_val [simp]: "d < 10 \<Longrightarrow> (of_char (digit_char d) :: nat) = 48 + d"
  by (simp add: digit_char_def)

lemma digits_show_nat: "digits_ok (show_nat n)"
proof (induction n rule: show_nat.induct)
  case (1 n)
  then show ?case
    by (cases "n < 10") (auto simp: show_nat.simps [of n] digits_ok_def)
qed

lemma read_show_nat [simp]: "read_nat (show_nat n) = n"
proof (induction n rule: show_nat.induct)
  case (1 n)
  then show ?case
    by (cases "n < 10") (auto simp: show_nat.simps [of n] read_nat_def)
qed

lemma parse_uint_show_nat [json_simps]: "n < b \<Longrightarrow> parse_uint b (show_nat n) = Some n"
  by (simp add: parse_uint_def digits_show_nat)

lemma hd_show_nat: "0 < n \<Longrightarrow> hd (show_nat n) \<noteq> CHR ''0''"
proof (induction n rule: show_nat.induct)
  case (1 n)
  show ?case
  proof (cases "n < 10")
    case True
    with "1.prems" have "(of_char (digit_char n) :: nat) \<noteq> 48" by simp
    then have "digit_char n \<noteq> CHR ''0''" by auto
    with True show ?thesis by (simp add: show_nat.simps [of n])
  next
    case False
    then show ?thesis
      using 1 digits_show_nat [of "n div 10"]
      by (simp add: show_nat.simps [of n] digits_ok_def hd_append)
  qed
qed

lemma digits_num_chars: "list_all is_digit s \<Longrightarrow> list_all num_char s"
  by (simp add: list_all_iff num_char_def)

lemma dropWhile_digits: "list_all is_digit s \<Longrightarrow> dropWhile is_digit s = []"
  by (simp add: list_all_iff)

lemma num_wf_show_nat [simp]: "num_wf (show_nat n)"
proof (cases "n = 0")
  case True
  have "char_of (48::nat) = CHR ''0''" by code_simp
  then have "show_nat 0 = ''0''" by (simp add: show_nat.simps digit_char_def)
  with True show ?thesis
    by (simp add: num_wf_def num_ok_def num_char_def is_digit_def byte_in_def)
next
  case False
  obtain c r where cr: "show_nat n = c # r" and dig: "is_digit c" "list_all is_digit r"
    using digits_show_nat [of n] by (cases "show_nat n") (auto simp: digits_ok_def)
  have "c \<noteq> CHR ''0''" using hd_show_nat [of n] False cr by simp
  moreover have "c \<noteq> CHR ''-''" using dig(1) by (auto simp: is_digit_def byte_in_def)
  ultimately show ?thesis
    using cr dig digits_show_nat [of n]
    by (simp add: num_wf_def num_ok_def dropWhile_digits digits_num_chars num_char_def [of c])
qed

lemma show_nat_length: "n < 10 ^ k \<Longrightarrow> 0 < k \<Longrightarrow> length (show_nat n) \<le> k"
proof (induction k arbitrary: n)
  case (Suc k)
  show ?case
  proof (cases "n < 10")
    case True
    then show ?thesis by (simp add: show_nat.simps [of n])
  next
    case False
    have "n div 10 < 10 ^ k" using Suc.prems by (simp add: less_mult_imp_div_less)
    moreover have "0 < k" using False Suc.prems by (cases k) auto
    ultimately show ?thesis using False Suc.IH by (simp add: show_nat.simps [of n])
  qed
qed simp

section \<open>Values\<close>

fun json_wf :: "json \<Rightarrow> bool"
  and elems_wf :: "json list \<Rightarrow> bool"
  and members_wf :: "(string \<times> json) list \<Rightarrow> bool" where
  "json_wf (JNum lit) = num_wf lit"
| "json_wf (JArr js) = elems_wf js"
| "json_wf (JObj ms) = members_wf ms"
| "json_wf _ = True"
| "elems_wf [] = True"
| "elems_wf (j # js) = (json_wf j \<and> elems_wf js)"
| "members_wf [] = True"
| "members_wf ((n, j) # ms) = (json_wf j \<and> members_wf ms)"

fun json_clean :: "json \<Rightarrow> json"
  and elems_clean :: "json list \<Rightarrow> json list"
  and members_clean :: "(string \<times> json) list \<Rightarrow> (string \<times> json) list" where
  "json_clean (JStr s) = JStr (to_valid_utf8 s)"
| "json_clean (JArr js) = JArr (elems_clean js)"
| "json_clean (JObj ms) = JObj (members_clean ms)"
| "json_clean j = j"
| "elems_clean [] = []"
| "elems_clean (j # js) = json_clean j # elems_clean js"
| "members_clean [] = []"
| "members_clean ((n, j) # ms) = (to_valid_utf8 n, json_clean j) # members_clean ms"

fun json_cost :: "json \<Rightarrow> nat"
  and elems_cost :: "json list \<Rightarrow> nat"
  and members_cost :: "(string \<times> json) list \<Rightarrow> nat" where
  "json_cost (JArr js) = Suc (elems_cost js)"
| "json_cost (JObj ms) = Suc (members_cost ms)"
| "json_cost _ = 1"
| "elems_cost [] = 0"
| "elems_cost (j # js) = Suc (json_cost j + elems_cost js)"
| "members_cost [] = 0"
| "members_cost ((n, j) # ms) = Suc (json_cost j + members_cost ms)"

definition ends_value :: "string \<Rightarrow> bool" where
  "ends_value ys \<longleftrightarrow> (case ys of [] \<Rightarrow> True | c # _ \<Rightarrow> \<not> num_char c)"

lemma ends_value_simps [simp]:
  "ends_value []" "ends_value (CHR '','' # ys)" "ends_value (CHR '']'' # ys)"
  "ends_value (CHR 0x7D # ys)" "ends_value (CHR 0x0A # ys)"
  by (simp_all add: ends_value_def num_char_def is_digit_def byte_in_def)

lemma skip_ws_head [simp]:
  "\<not> is_ws c \<Longrightarrow> skip_ws (c # r) = c # r" "skip_ws [] = []"
  by (simp_all add: skip_ws_def)

lemma is_ws_simps [simp]:
  "\<not> is_ws CHR 0x22" "\<not> is_ws CHR '',''" "\<not> is_ws CHR '']''" "\<not> is_ws CHR ''[''"
  "\<not> is_ws CHR 0x7D" "\<not> is_ws CHR 0x7B" "\<not> is_ws CHR '':''"
  by (simp_all add: is_ws_def)

lemma num_wf_head:
  assumes "num_wf lit"
  obtains c r where "lit = c # r" "is_digit c \<or> c = CHR ''-''"
proof (cases lit)
  case Nil
  with assms show ?thesis by (simp add: num_wf_def num_ok_def)
next
  case (Cons c r)
  have "is_digit CHR ''0''" by (simp add: is_digit_def byte_in_def)
  with assms Cons have "is_digit c \<or> c = CHR ''-''"
    by (auto simp: num_wf_def num_ok_def split: if_splits)
  with Cons show ?thesis by (rule that)
qed

lemma num_head_neq:
  assumes "is_digit c \<or> c = CHR ''-''"
  shows "\<not> is_ws c" "c \<noteq> CHR 0x22" "c \<noteq> CHR ''[''" "c \<noteq> CHR 0x7B" "c \<noteq> CHR '']''" "c \<noteq> CHR 0x7D"
    "c \<noteq> CHR ''n''" "c \<noteq> CHR ''t''" "c \<noteq> CHR ''f''"
  using assms by (auto simp: is_digit_def byte_in_def is_ws_def)

lemma read_scalar_num:
  assumes "num_wf lit" "ends_value ys"
  shows "read_scalar (lit @ ys) = Some (JNum lit, ys)"
proof -
  obtain c r where cr: "lit = c # r" "is_digit c \<or> c = CHR ''-''"
    using assms(1) by (rule num_wf_head)
  have "takeWhile num_char (lit @ ys) = lit" "dropWhile num_char (lit @ ys) = ys"
    using assms by (cases ys; simp add: num_wf_def list_all_iff ends_value_def)+
  then show ?thesis
    using assms(1) cr num_head_neq [OF cr(2)]
    by (simp add: read_scalar_def strip_prefix_def num_wf_def Let_def)
qed

lemma print_json_head:
  assumes "json_wf j"
  obtains c r where "print_json j = c # r" "\<not> is_ws c" "c \<noteq> CHR '']''"
proof (cases j)
  case (JNum lit)
  with assms obtain c r where cr: "lit = c # r" "is_digit c \<or> c = CHR ''-''"
    using num_wf_head by auto
  then show ?thesis using JNum that num_head_neq [OF cr(2)] by simp
next
  case (JBool b)
  then show ?thesis by (cases b) (auto intro!: that simp: is_ws_def)
qed (auto intro!: that simp: json_quote_def is_ws_def)

lemma read_value_scalar:
  "read_value (Suc n) (''null'' @ ys) = Some (JNull, ys)"
  "read_value (Suc n) (''true'' @ ys) = Some (JBool True, ys)"
  "read_value (Suc n) (''false'' @ ys) = Some (JBool False, ys)"
  by (simp_all add: skip_ws_def is_ws_def read_scalar_def strip_prefix_def)

lemma read_value_num:
  assumes "num_wf lit" "ends_value ys"
  shows "read_value (Suc n) (lit @ ys) = Some (JNum lit, ys)"
proof -
  obtain c r where cr: "lit = c # r" "is_digit c \<or> c = CHR ''-''"
    using assms(1) by (rule num_wf_head)
  then show ?thesis
    using num_head_neq [OF cr(2)] read_scalar_num [OF assms] by simp
qed

lemma read_value_str: "read_value (Suc n) (json_quote s @ ys) = Some (JStr (to_valid_utf8 s), ys)"
  by (simp add: json_quote_def unquote_escape)

lemma read_members_head:
  "read_members (Suc n) (json_quote k @ '':'' @ ys) =
     (case read_value n ys of
        None \<Rightarrow> None
      | Some (j, r3) \<Rightarrow>
          (case skip_ws r3 of
             [] \<Rightarrow> None
           | c # r4 \<Rightarrow>
               (if c = CHR 0x7D then Some ([(to_valid_utf8 k, j)], r4)
                else if c = CHR '','' then
                  map_option (apfst ((#) (to_valid_utf8 k, j))) (read_members n r4)
                else None)))"
  by (simp add: json_quote_def unquote_escape)

lemma read_value_arr:
  assumes "elems_wf js" "js \<noteq> [] \<Longrightarrow> read_elems n (print_elems js @ CHR '']'' # ys) = Some (elems_clean js, ys)"
  shows "read_value (Suc n) (print_json (JArr js) @ ys) = Some (JArr (elems_clean js), ys)"
proof (cases js)
  case (Cons k ks)
  then obtain c r where "print_elems js = c # r" "\<not> is_ws c" "c \<noteq> CHR '']''"
    using assms(1) by (cases ks) (auto elim!: print_json_head)
  with Cons show ?thesis using assms(2) by simp
qed simp

lemma read_value_obj:
  assumes "ms \<noteq> [] \<Longrightarrow> read_members n (print_members ms @ CHR 0x7D # ys) = Some (members_clean ms, ys)"
  shows "read_value (Suc n) (print_json (JObj ms) @ ys) = Some (JObj (members_clean ms), ys)"
proof (cases ms)
  case (Cons k ks)
  then obtain r where "print_members ms = CHR 0x22 # r" by (cases k; cases ks) (auto simp: json_quote_def)
  with Cons show ?thesis using assms by simp
qed simp

lemma read_print:
  "json_wf j \<Longrightarrow> json_cost j \<le> n \<Longrightarrow> ends_value ys \<Longrightarrow>
     read_value n (print_json j @ ys) = Some (json_clean j, ys)"
  "js \<noteq> [] \<Longrightarrow> elems_wf js \<Longrightarrow> elems_cost js \<le> n \<Longrightarrow>
     read_elems n (print_elems js @ CHR '']'' # ys) = Some (elems_clean js, ys)"
  "ms \<noteq> [] \<Longrightarrow> members_wf ms \<Longrightarrow> members_cost ms \<le> n \<Longrightarrow>
     read_members n (print_members ms @ CHR 0x7D # ys) = Some (members_clean ms, ys)"
proof (induction j and js and ms arbitrary: n ys and n ys and n ys
    rule: print_json_print_elems_print_members.induct)
  case 1
  then show ?case by (cases n) (simp_all del: read_value.simps add: read_value_scalar [simplified])
next
  case (2 b)
  then show ?case by (cases n) (simp_all del: read_value.simps add: read_value_scalar [simplified])
next
  case (3 lit)
  then show ?case by (cases n) (simp_all del: read_value.simps add: read_value_num)
next
  case (4 s)
  then show ?case by (cases n) (simp_all del: read_value.simps add: read_value_str)
next
  case (5 js)
  then obtain m where m: "n = Suc m" by (cases n) auto
  with 5 show ?case unfolding m by (simp only: json_clean.simps json_wf.simps json_cost.simps) (rule read_value_arr, simp_all)
next
  case (6 ms)
  then obtain m where m: "n = Suc m" by (cases n) auto
  with 6 show ?case unfolding m by (simp only: json_clean.simps json_wf.simps json_cost.simps) (rule read_value_obj, simp_all)
next
  case 7
  then show ?case by simp
next
  case (8 j)
  then show ?case by (cases n) auto
next
  case (9 j k js)
  then show ?case by (cases n) auto
next
  case 10
  then show ?case by simp
next
  case (11 k j)
  then obtain m where m: "n = Suc m" by (cases n) auto
  with 11 show ?case
    using read_members_head [of m k "print_json j @ CHR 0x7D # ys"]
    by (simp del: read_members.simps)
next
  case (12 k j p ms)
  then obtain m where m: "n = Suc m" by (cases n) auto
  with 12 show ?case
    using read_members_head [of m k "print_json j @ '','' @ print_members (p # ms) @ CHR 0x7D # ys"]
    by (simp del: read_members.simps)
qed

lemma cost_le_length:
  "json_wf j \<Longrightarrow> json_cost j \<le> length (print_json j)"
  "elems_wf js \<Longrightarrow> elems_cost js \<le> Suc (length (print_elems js))"
  "members_wf ms \<Longrightarrow> members_cost ms \<le> Suc (length (print_members ms))"
proof (induction j and js and ms rule: print_json_print_elems_print_members.induct)
  case (3 lit)
  then show ?case using num_wf_head [of lit] by (cases lit) auto
qed (auto simp: json_quote_def)

text \<open>Decoding an encoded value, alone in its text or at the head of a stream.\<close>

theorem parse_print_json:
  assumes "json_wf j"
  shows "parse_json (print_json j) = Some (json_clean j)"
proof -
  have "read_value (Suc (length (print_json j))) (print_json j @ []) = Some (json_clean j, [])"
    using assms cost_le_length(1) [OF assms] by (intro read_print(1)) auto
  then show ?thesis by (simp add: parse_json_def del: read_value.simps)
qed

theorem decode_first_print_json:
  assumes "json_wf j" "ends_value ys"
  shows "decode_first (print_json j @ ys) = Some (json_clean j)"
proof -
  have "read_value (Suc (length (print_json j @ ys))) (print_json j @ ys) = Some (json_clean j, ys)"
    using assms cost_le_length(1) [OF assms(1)] by (intro read_print(1)) auto
  then show ?thesis by (simp add: decode_first_def del: read_value.simps)
qed

end
