(* ===== verification/Json_Codec.thy ===== *)
theory Json_Codec
  imports Json_Roundtrip
begin

text \<open>
  How \<open>encoding/json\<close> stores a JSON value into Go variables: one decoder per field type, the
  matching of member names to struct fields (exact first, then under case folding), and the
  top-level \<open>Unmarshal\<close> and \<open>Decode\<close> calls. A type mismatch makes the whole call fail; every
  caller in the program discards the partly filled variable in that case.
\<close>

section \<open>Member names\<close>

definition upper_ascii :: "char \<Rightarrow> char" where
  "upper_ascii c = (if byte_in 97 122 c then char_of (of_char c - 32 :: nat) else c)"

text \<open>
  \<open>foldName\<close>: ASCII letters fold to upper case, and the Kelvin sign and the long s are the only
  other runes that fold to an ASCII letter.
\<close>

fun fold_name :: "string \<Rightarrow> string" where
  "fold_name [] = []"
| "fold_name (a # r) =
     (if a = CHR 0xE2 \<and> take 2 r = [CHR 0x84, CHR 0xAA] then CHR ''K'' # fold_name (drop 2 r)
      else if a = CHR 0xC5 \<and> take 1 r = [CHR 0xBF] then CHR ''S'' # fold_name (drop 1 r)
      else upper_ascii a # fold_name r)"

type_synonym 'a decoder = "json \<Rightarrow> 'a \<Rightarrow> 'a go"
type_synonym 'a fields = "(string \<times> 'a decoder) list"

definition field_for :: "'a fields \<Rightarrow> string \<Rightarrow> 'a decoder option" where
  "field_for fs k =
     (case map_of fs k of
        Some d \<Rightarrow> Some d
      | None \<Rightarrow> map_option snd (find (\<lambda>f. fold_name (fst f) = fold_name k) fs))"

lemma field_for_exact [json_simps]: "map_of fs k = Some d \<Longrightarrow> field_for fs k = Some d"
  by (simp add: field_for_def)

section \<open>Decoders\<close>

fun decode_members :: "'a fields \<Rightarrow> (string \<times> json) list \<Rightarrow> 'a \<Rightarrow> 'a go" where
  "decode_members fs [] v = Inr v"
| "decode_members fs ((k, j) # ms) v =
     (case field_for fs k of
        None \<Rightarrow> decode_members fs ms v
      | Some d \<Rightarrow> (case d j v of Inl e \<Rightarrow> Inl e | Inr v' \<Rightarrow> decode_members fs ms v'))"

definition decode_struct :: "'a fields \<Rightarrow> 'a decoder" where
  "decode_struct fs j v =
     (case j of JNull \<Rightarrow> Inr v | JObj ms \<Rightarrow> decode_members fs ms v | _ \<Rightarrow> Inl JsonError)"

definition dec_u64 :: "((u64 \<Rightarrow> u64) \<Rightarrow> 'a \<Rightarrow> 'a) \<Rightarrow> 'a decoder" where
  "dec_u64 upd j v =
     (case j of
        JNull \<Rightarrow> Inr v
      | JNum lit \<Rightarrow> (case parse_uint (2 ^ 64) lit of
          Some n \<Rightarrow> Inr (upd (\<lambda>_. of_nat n) v) | None \<Rightarrow> Inl JsonError)
      | _ \<Rightarrow> Inl JsonError)"

definition dec_string :: "((string \<Rightarrow> string) \<Rightarrow> 'a \<Rightarrow> 'a) \<Rightarrow> 'a decoder" where
  "dec_string upd j v =
     (case j of JNull \<Rightarrow> Inr v | JStr s \<Rightarrow> Inr (upd (\<lambda>_. s) v) | _ \<Rightarrow> Inl JsonError)"

definition dec_bool :: "((bool \<Rightarrow> bool) \<Rightarrow> 'a \<Rightarrow> 'a) \<Rightarrow> 'a decoder" where
  "dec_bool upd j v =
     (case j of JNull \<Rightarrow> Inr v | JBool b \<Rightarrow> Inr (upd (\<lambda>_. b) v) | _ \<Rightarrow> Inl JsonError)"

fun sequence :: "'a go list \<Rightarrow> 'a list go" where
  "sequence [] = Inr []"
| "sequence (Inl e # xs) = Inl e"
| "sequence (Inr x # xs) =
     (case sequence xs of Inl e \<Rightarrow> Inl e | Inr ys \<Rightarrow> Inr (x # ys))"

definition byte_of_json :: "json \<Rightarrow> char go" where
  "byte_of_json j =
     (case j of
        JNull \<Rightarrow> Inr CHR 0x00
      | JNum lit \<Rightarrow> (case parse_uint 256 lit of Some n \<Rightarrow> Inr (char_of n) | None \<Rightarrow> Inl JsonError)
      | _ \<Rightarrow> Inl JsonError)"

text \<open>A \<open>[]byte\<close> is a base64 string, or an array of small numbers.\<close>

definition bytes_of_json :: "json \<Rightarrow> bytes go" where
  "bytes_of_json j =
     (case j of
        JNull \<Rightarrow> Inr []
      | JStr s \<Rightarrow> (case b64_decode s of Some b \<Rightarrow> Inr b | None \<Rightarrow> Inl JsonError)
      | JArr js \<Rightarrow> sequence (map byte_of_json js)
      | _ \<Rightarrow> Inl JsonError)"

definition dec_bytes :: "((bytes \<Rightarrow> bytes) \<Rightarrow> 'a \<Rightarrow> 'a) \<Rightarrow> 'a decoder" where
  "dec_bytes upd j v = (case bytes_of_json j of Inl e \<Rightarrow> Inl e | Inr b \<Rightarrow> Inr (upd (\<lambda>_. b) v))"

definition dec_list :: "'b decoder \<Rightarrow> 'b \<Rightarrow> (('b list \<Rightarrow> 'b list) \<Rightarrow> 'a \<Rightarrow> 'a) \<Rightarrow> 'a decoder" where
  "dec_list d zero upd j v =
     (case j of
        JNull \<Rightarrow> Inr (upd (\<lambda>_. []) v)
      | JArr js \<Rightarrow> (case sequence (map (\<lambda>e. d e zero) js) of
          Inl e \<Rightarrow> Inl e | Inr xs \<Rightarrow> Inr (upd (\<lambda>_. xs) v))
      | _ \<Rightarrow> Inl JsonError)"

definition dec_nested :: "'b decoder \<Rightarrow> ('a \<Rightarrow> 'b) \<Rightarrow> (('b \<Rightarrow> 'b) \<Rightarrow> 'a \<Rightarrow> 'a) \<Rightarrow> 'a decoder" where
  "dec_nested d get upd j v =
     (case d j (get v) of Inl e \<Rightarrow> Inl e | Inr b \<Rightarrow> Inr (upd (\<lambda>_. b) v))"

text \<open>A \<open>map[string][]byte\<close>: later members replace earlier ones with the same name.\<close>

fun decode_bytes_map :: "(string \<times> json) list \<Rightarrow> (string \<times> bytes) list \<Rightarrow> (string \<times> bytes) list go" where
  "decode_bytes_map [] m = Inr m"
| "decode_bytes_map ((k, j) # ms) m =
     (case bytes_of_json j of
        Inl e \<Rightarrow> Inl e
      | Inr b \<Rightarrow> decode_bytes_map ms (AList.update k b m))"

section \<open>Marshal, Unmarshal, Decode\<close>

definition unmarshal :: "'a decoder \<Rightarrow> 'a \<Rightarrow> bytes \<Rightarrow> 'a go" where
  "unmarshal d zero data =
     (case parse_json data of None \<Rightarrow> Inl JsonError | Some j \<Rightarrow> d j zero)"

definition decode :: "'a decoder \<Rightarrow> 'a \<Rightarrow> bytes \<Rightarrow> 'a go" where
  "decode d zero body =
     (case decode_first body of None \<Rightarrow> Inl JsonError | Some j \<Rightarrow> d j zero)"

definition json_u64 :: "u64 \<Rightarrow> json" where
  "json_u64 w = JNum (show_nat (unat w))"

definition json_bytes :: "bytes \<Rightarrow> json" where
  "json_bytes b = JStr (b64_encode b)"

lemma json_wf_u64 [simp]: "json_wf (json_u64 w)"
  by (simp add: json_u64_def)

lemma json_wf_bytes [simp]: "json_wf (json_bytes b)"
  by (simp add: json_bytes_def)

lemma json_clean_u64 [simp]: "json_clean (json_u64 w) = json_u64 w"
  by (simp add: json_u64_def)

lemma json_clean_bytes [simp]: "json_clean (json_bytes b) = json_bytes b"
  using ascii_utf8_valid [OF b64_encode_ascii, of b] by (simp add: json_bytes_def utf8_valid_def)

lemma dec_u64_json [json_simps]: "dec_u64 upd (json_u64 w) v = Inr (upd (\<lambda>_. w) v)"
proof -
  have "unat w < 2 ^ 64" using unsigned_less [of w, where ?'a = nat] by simp
  then have "parse_uint (2 ^ 64) (show_nat (unat w)) = Some (unat w)"
    by (rule parse_uint_show_nat)
  then show ?thesis by (simp add: dec_u64_def json_u64_def del: power_numeral)
qed

lemma bytes_of_json_bytes [json_simps]: "bytes_of_json (json_bytes b) = Inr b"
  by (simp add: bytes_of_json_def json_bytes_def b64_decode_encode)

lemma dec_bytes_json [json_simps]: "dec_bytes upd (json_bytes b) v = Inr (upd (\<lambda>_. b) v)"
  by (simp add: dec_bytes_def bytes_of_json_bytes)

lemma dec_bytes_null: "dec_bytes upd JNull v = Inr (upd (\<lambda>_. []) v)"
  by (simp add: dec_bytes_def bytes_of_json_def)

lemma dec_string_json [json_simps]: "dec_string upd (JStr s) v = Inr (upd (\<lambda>_. s) v)"
  by (simp add: dec_string_def)

lemma dec_bool_json [json_simps]: "dec_bool upd (JBool b) v = Inr (upd (\<lambda>_. b) v)"
  by (simp add: dec_bool_def)

lemma unmarshal_print [json_simps]:
  "json_wf j \<Longrightarrow> unmarshal d zero (print_json j) = d (json_clean j) zero"
  by (simp add: unmarshal_def parse_print_json)

lemma decode_print [json_simps]:
  "json_wf j \<Longrightarrow> ends_value ys \<Longrightarrow> decode d zero (print_json j @ ys) = d (json_clean j) zero"
  by (simp add: decode_def decode_first_print_json)

lemma sequence_map_Inr: "sequence (map (\<lambda>x. Inr (f x)) xs) = Inr (map f xs)"
  by (induction xs) auto

end
