(* ===== verification/Types.thy ===== *)
theory Types
  imports Json_Codec
begin

text \<open>
  The data types of \<open>pkg/types/types.go\<close>, with their JSON encodings. The encodings are the ones
  that the struct tags prescribe: member order, names, \<open>omitempty\<close>, base64 for \<open>[]byte\<close>.
  Every type has a zero value, the starting point of a decoder, and a round trip: decoding an
  encoded value gives the value back, its strings coerced to well-formed UTF-8.
\<close>

section \<open>Roles and operations\<close>

datatype node_state = Follower | Candidate | Leader

fun node_state_String :: "node_state \<Rightarrow> string" where
  "node_state_String Follower = ''Follower''"
| "node_state_String Candidate = ''Candidate''"
| "node_state_String Leader = ''Leader''"

definition OpPut :: string where "OpPut = ''PUT''"
definition OpDelete :: string where "OpDelete = ''DELETE''"
definition OpCAS :: string where "OpCAS = ''CAS''"
definition OpNoop :: string where "OpNoop = ''NOOP''"

lemmas op_defs = OpPut_def OpDelete_def OpCAS_def OpNoop_def

section \<open>Commands, entries, peers\<close>

record command =
  c_Op :: string
  c_Key :: string
  c_Value :: bytes
  c_PrevValue :: bytes

record log_entry =
  le_Index :: u64
  le_Term :: u64
  le_Command :: command

record peer =
  p_ID :: string
  p_Addr :: string

section \<open>RPC messages\<close>

record append_entries_request =
  aer_Term :: u64
  aer_LeaderID :: string
  aer_PrevLogIndex :: u64
  aer_PrevLogTerm :: u64
  aer_Entries :: "log_entry list"
  aer_LeaderCommit :: u64

record append_entries_response =
  aes_Term :: u64
  aes_Success :: bool
  aes_FollowerID :: string
  aes_MatchIndex :: u64
  aes_ConflictIndex :: u64
  aes_ConflictTerm :: u64

record request_vote_request =
  rvr_Term :: u64
  rvr_CandidateID :: string
  rvr_LastLogIndex :: u64
  rvr_LastLogTerm :: u64

record request_vote_response =
  rvs_Term :: u64
  rvs_VoteGranted :: bool
  rvs_VoterID :: string

record install_snapshot_request =
  isr_Term :: u64
  isr_LeaderID :: string
  isr_LastIncludedIndex :: u64
  isr_LastIncludedTerm :: u64
  isr_Data :: bytes

record install_snapshot_response =
  iss_Term :: u64
  iss_FollowerID :: string
  iss_Success :: bool

section \<open>Zero values\<close>

definition zero_command :: command where
  "zero_command = \<lparr>c_Op = [], c_Key = [], c_Value = [], c_PrevValue = []\<rparr>"

definition zero_entry :: log_entry where
  "zero_entry = \<lparr>le_Index = 0, le_Term = 0, le_Command = zero_command\<rparr>"

definition zero_aer :: append_entries_request where
  "zero_aer = \<lparr>aer_Term = 0, aer_LeaderID = [], aer_PrevLogIndex = 0, aer_PrevLogTerm = 0,
     aer_Entries = [], aer_LeaderCommit = 0\<rparr>"

definition zero_aes :: append_entries_response where
  "zero_aes = \<lparr>aes_Term = 0, aes_Success = False, aes_FollowerID = [], aes_MatchIndex = 0,
     aes_ConflictIndex = 0, aes_ConflictTerm = 0\<rparr>"

definition zero_rvr :: request_vote_request where
  "zero_rvr = \<lparr>rvr_Term = 0, rvr_CandidateID = [], rvr_LastLogIndex = 0, rvr_LastLogTerm = 0\<rparr>"

definition zero_rvs :: request_vote_response where
  "zero_rvs = \<lparr>rvs_Term = 0, rvs_VoteGranted = False, rvs_VoterID = []\<rparr>"

definition zero_isr :: install_snapshot_request where
  "zero_isr = \<lparr>isr_Term = 0, isr_LeaderID = [], isr_LastIncludedIndex = 0,
     isr_LastIncludedTerm = 0, isr_Data = []\<rparr>"

definition zero_iss :: install_snapshot_response where
  "zero_iss = \<lparr>iss_Term = 0, iss_FollowerID = [], iss_Success = False\<rparr>"

section \<open>Encoders\<close>

text \<open>An \<open>omitempty\<close> member is left out when its value is empty.\<close>

definition omit_if :: "bool \<Rightarrow> string \<Rightarrow> json \<Rightarrow> (string \<times> json) list" where
  "omit_if b n j = (if b then [] else [(n, j)])"

definition json_command :: "command \<Rightarrow> json" where
  "json_command c = JObj ([(''op'', JStr (c_Op c)), (''key'', JStr (c_Key c))]
     @ omit_if (c_Value c = []) ''value'' (json_bytes (c_Value c))
     @ omit_if (c_PrevValue c = []) ''prev_value'' (json_bytes (c_PrevValue c)))"

definition json_entry :: "log_entry \<Rightarrow> json" where
  "json_entry e = JObj [(''index'', json_u64 (le_Index e)), (''term'', json_u64 (le_Term e)),
     (''command'', json_command (le_Command e))]"

definition json_aer :: "append_entries_request \<Rightarrow> json" where
  "json_aer r = JObj [(''term'', json_u64 (aer_Term r)), (''leader_id'', JStr (aer_LeaderID r)),
     (''prev_log_index'', json_u64 (aer_PrevLogIndex r)),
     (''prev_log_term'', json_u64 (aer_PrevLogTerm r)),
     (''entries'', if aer_Entries r = [] then JNull else JArr (map json_entry (aer_Entries r))),
     (''leader_commit'', json_u64 (aer_LeaderCommit r))]"

definition json_aes :: "append_entries_response \<Rightarrow> json" where
  "json_aes r = JObj ([(''term'', json_u64 (aes_Term r)), (''success'', JBool (aes_Success r)),
     (''follower_id'', JStr (aes_FollowerID r)), (''match_index'', json_u64 (aes_MatchIndex r))]
     @ omit_if (aes_ConflictIndex r = 0) ''conflict_index'' (json_u64 (aes_ConflictIndex r))
     @ omit_if (aes_ConflictTerm r = 0) ''conflict_term'' (json_u64 (aes_ConflictTerm r)))"

definition json_rvr :: "request_vote_request \<Rightarrow> json" where
  "json_rvr r = JObj [(''term'', json_u64 (rvr_Term r)), (''candidate_id'', JStr (rvr_CandidateID r)),
     (''last_log_index'', json_u64 (rvr_LastLogIndex r)),
     (''last_log_term'', json_u64 (rvr_LastLogTerm r))]"

definition json_rvs :: "request_vote_response \<Rightarrow> json" where
  "json_rvs r = JObj [(''term'', json_u64 (rvs_Term r)), (''vote_granted'', JBool (rvs_VoteGranted r)),
     (''voter_id'', JStr (rvs_VoterID r))]"

definition json_isr :: "install_snapshot_request \<Rightarrow> json" where
  "json_isr r = JObj [(''term'', json_u64 (isr_Term r)), (''leader_id'', JStr (isr_LeaderID r)),
     (''last_included_index'', json_u64 (isr_LastIncludedIndex r)),
     (''last_included_term'', json_u64 (isr_LastIncludedTerm r)),
     (''data'', if isr_Data r = [] then JNull else json_bytes (isr_Data r))]"

definition json_iss :: "install_snapshot_response \<Rightarrow> json" where
  "json_iss r = JObj [(''term'', json_u64 (iss_Term r)), (''follower_id'', JStr (iss_FollowerID r)),
     (''success'', JBool (iss_Success r))]"

section \<open>Decoders\<close>

definition dec_command :: "command decoder" where
  "dec_command = decode_struct [(''op'', dec_string c_Op_update), (''key'', dec_string c_Key_update),
     (''value'', dec_bytes c_Value_update), (''prev_value'', dec_bytes c_PrevValue_update)]"

definition dec_entry :: "log_entry decoder" where
  "dec_entry = decode_struct [(''index'', dec_u64 le_Index_update), (''term'', dec_u64 le_Term_update),
     (''command'', dec_nested dec_command le_Command le_Command_update)]"

definition dec_aer :: "append_entries_request decoder" where
  "dec_aer = decode_struct [(''term'', dec_u64 aer_Term_update),
     (''leader_id'', dec_string aer_LeaderID_update),
     (''prev_log_index'', dec_u64 aer_PrevLogIndex_update),
     (''prev_log_term'', dec_u64 aer_PrevLogTerm_update),
     (''entries'', dec_list dec_entry zero_entry aer_Entries_update),
     (''leader_commit'', dec_u64 aer_LeaderCommit_update)]"

definition dec_aes :: "append_entries_response decoder" where
  "dec_aes = decode_struct [(''term'', dec_u64 aes_Term_update),
     (''success'', dec_bool aes_Success_update), (''follower_id'', dec_string aes_FollowerID_update),
     (''match_index'', dec_u64 aes_MatchIndex_update),
     (''conflict_index'', dec_u64 aes_ConflictIndex_update),
     (''conflict_term'', dec_u64 aes_ConflictTerm_update)]"

definition dec_rvr :: "request_vote_request decoder" where
  "dec_rvr = decode_struct [(''term'', dec_u64 rvr_Term_update),
     (''candidate_id'', dec_string rvr_CandidateID_update),
     (''last_log_index'', dec_u64 rvr_LastLogIndex_update),
     (''last_log_term'', dec_u64 rvr_LastLogTerm_update)]"

definition dec_rvs :: "request_vote_response decoder" where
  "dec_rvs = decode_struct [(''term'', dec_u64 rvs_Term_update),
     (''vote_granted'', dec_bool rvs_VoteGranted_update), (''voter_id'', dec_string rvs_VoterID_update)]"

definition dec_isr :: "install_snapshot_request decoder" where
  "dec_isr = decode_struct [(''term'', dec_u64 isr_Term_update),
     (''leader_id'', dec_string isr_LeaderID_update),
     (''last_included_index'', dec_u64 isr_LastIncludedIndex_update),
     (''last_included_term'', dec_u64 isr_LastIncludedTerm_update),
     (''data'', dec_bytes isr_Data_update)]"

definition dec_iss :: "install_snapshot_response decoder" where
  "dec_iss = decode_struct [(''term'', dec_u64 iss_Term_update),
     (''follower_id'', dec_string iss_FollowerID_update), (''success'', dec_bool iss_Success_update)]"

section \<open>Round trips\<close>

text \<open>What a value looks like after a trip through JSON.\<close>

definition clean_command :: "command \<Rightarrow> command" where
  "clean_command c = c\<lparr>c_Op := to_valid_utf8 (c_Op c), c_Key := to_valid_utf8 (c_Key c)\<rparr>"

definition clean_entry :: "log_entry \<Rightarrow> log_entry" where
  "clean_entry e = e\<lparr>le_Command := clean_command (le_Command e)\<rparr>"

lemma clean_entry_simps [simp]:
  "le_Index (clean_entry e) = le_Index e" "le_Term (clean_entry e) = le_Term e"
  "le_Command (clean_entry e) = clean_command (le_Command e)"
  by (simp_all add: clean_entry_def)

lemma json_wf_command [simp]: "json_wf (json_command c)"
  by (simp add: json_command_def omit_if_def)

lemma json_wf_entry [simp]: "json_wf (json_entry e)"
  by (simp add: json_entry_def)

lemma dec_command_json [json_simps]:
  "dec_command (json_clean (json_command c)) zero_command = Inr (clean_command c)"
  by (cases c) (simp add: json_command_def omit_if_def dec_command_def decode_struct_def field_for_def
      json_simps ascii_to_valid_utf8 clean_command_def zero_command_def)

lemma dec_entry_json [json_simps]:
  "dec_entry (json_clean (json_entry e)) zero_entry = Inr (clean_entry e)"
  by (cases e) (simp add: json_entry_def dec_entry_def decode_struct_def field_for_def dec_nested_def
      json_simps ascii_to_valid_utf8 clean_entry_def zero_entry_def)

lemma elems_wf_map: "elems_wf (map f xs) \<longleftrightarrow> (\<forall>x\<in>set xs. json_wf (f x))"
  by (induction xs) auto

lemma elems_clean_map: "elems_clean (map f xs) = map (\<lambda>x. json_clean (f x)) xs"
  by (induction xs) auto

text \<open>The messages.\<close>

definition clean_aer :: "append_entries_request \<Rightarrow> append_entries_request" where
  "clean_aer r = r\<lparr>aer_LeaderID := to_valid_utf8 (aer_LeaderID r),
     aer_Entries := map clean_entry (aer_Entries r)\<rparr>"

definition clean_aes :: "append_entries_response \<Rightarrow> append_entries_response" where
  "clean_aes r = r\<lparr>aes_FollowerID := to_valid_utf8 (aes_FollowerID r)\<rparr>"

definition clean_rvr :: "request_vote_request \<Rightarrow> request_vote_request" where
  "clean_rvr r = r\<lparr>rvr_CandidateID := to_valid_utf8 (rvr_CandidateID r)\<rparr>"

definition clean_rvs :: "request_vote_response \<Rightarrow> request_vote_response" where
  "clean_rvs r = r\<lparr>rvs_VoterID := to_valid_utf8 (rvs_VoterID r)\<rparr>"

definition clean_isr :: "install_snapshot_request \<Rightarrow> install_snapshot_request" where
  "clean_isr r = r\<lparr>isr_LeaderID := to_valid_utf8 (isr_LeaderID r)\<rparr>"

definition clean_iss :: "install_snapshot_response \<Rightarrow> install_snapshot_response" where
  "clean_iss r = r\<lparr>iss_FollowerID := to_valid_utf8 (iss_FollowerID r)\<rparr>"

lemmas codec_simps = decode_struct_def field_for_def ascii_to_valid_utf8 omit_if_def

lemma json_wf_messages [simp]:
  "json_wf (json_aer a)" "json_wf (json_aes b)" "json_wf (json_rvr c)" "json_wf (json_rvs d)"
  "json_wf (json_isr e)" "json_wf (json_iss f)"
  by (simp_all add: json_aer_def json_aes_def json_rvr_def json_rvs_def json_isr_def json_iss_def
      omit_if_def elems_wf_map)

lemma dec_aer_json [json_simps]: "dec_aer (json_clean (json_aer r)) zero_aer = Inr (clean_aer r)"
  by (cases r) (simp add: json_aer_def dec_aer_def codec_simps json_simps zero_aer_def clean_aer_def
      dec_list_def elems_clean_map comp_def sequence_map_Inr)

lemma dec_aes_json [json_simps]: "dec_aes (json_clean (json_aes r)) zero_aes = Inr (clean_aes r)"
  by (cases r) (simp add: json_aes_def dec_aes_def codec_simps json_simps zero_aes_def clean_aes_def)

lemma dec_rvr_json [json_simps]: "dec_rvr (json_clean (json_rvr r)) zero_rvr = Inr (clean_rvr r)"
  by (cases r) (simp add: json_rvr_def dec_rvr_def codec_simps json_simps zero_rvr_def clean_rvr_def)

lemma dec_rvs_json [json_simps]: "dec_rvs (json_clean (json_rvs r)) zero_rvs = Inr (clean_rvs r)"
  by (cases r) (simp add: json_rvs_def dec_rvs_def codec_simps json_simps zero_rvs_def clean_rvs_def)

lemma dec_isr_json [json_simps]: "dec_isr (json_clean (json_isr r)) zero_isr = Inr (clean_isr r)"
  by (cases r) (simp add: json_isr_def dec_isr_def codec_simps json_simps zero_isr_def clean_isr_def
      dec_bytes_null)

lemma dec_iss_json [json_simps]: "dec_iss (json_clean (json_iss r)) zero_iss = Inr (clean_iss r)"
  by (cases r) (simp add: json_iss_def dec_iss_def codec_simps json_simps zero_iss_def clean_iss_def)

end
