(* ===== verification/Bolt.thy ===== *)
theory Bolt
  imports Prelude
begin

text \<open>
  The interface of bbolt (\<open>go.etcd.io/bbolt\<close>), the key-value file that holds the Raft log and the
  persistent store. bbolt is not part of the repository, so its operations are a record of
  functions that every definition using the database takes as an argument. \<open>bolt_spec\<close>
  collects what bbolt documents about them and \<open>bolt_writes_ok\<close> that writes within the documented
  size limits succeed; theorems that need either name it as a hypothesis.

  A value of type \<open>'db\<close> is the contents of the file as a transaction sees them. \<open>cur_Seek\<close>,
  \<open>cur_First\<close> and \<open>cur_Last\<close> place a cursor on a key. bbolt documents that changing a bucket while a
  cursor traverses it may invalidate the cursor, which can then return unexpected keys; \<open>TruncateFrom\<close>
  and \<open>Compact\<close> delete under a cursor and go on with \<open>Next\<close>. \<open>cur_Rest\<close> stands for what they get:
  the keys that \<open>Next\<close> returns, up to the first nil, to a caller that placed the cursor on a key and
  deletes every key it is given. \<open>bolt_spec\<close> says nothing about these keys; they may be any byte
  strings in any order. The list is finite, so all that is assumed is that the traversal ends.
\<close>

section \<open>Operations\<close>

record 'db bolt =
  tx_HasBucket :: "'db \<Rightarrow> string \<Rightarrow> bool"
  tx_CreateBucketIfNotExists :: "'db \<Rightarrow> string \<Rightarrow> 'db go"
  tx_CreateBucket :: "'db \<Rightarrow> string \<Rightarrow> 'db go"
  tx_DeleteBucket :: "'db \<Rightarrow> string \<Rightarrow> 'db go"
  bk_Get :: "'db \<Rightarrow> string \<Rightarrow> bytes \<Rightarrow> bytes option"
  bk_Put :: "'db \<Rightarrow> string \<Rightarrow> bytes \<Rightarrow> bytes \<Rightarrow> 'db go"
  bk_Delete :: "'db \<Rightarrow> string \<Rightarrow> bytes \<Rightarrow> 'db go"
  bk_Items :: "'db \<Rightarrow> string \<Rightarrow> (bytes \<times> bytes) list"
  cur_First :: "'db \<Rightarrow> string \<Rightarrow> bytes option"
  cur_Last :: "'db \<Rightarrow> string \<Rightarrow> bytes option"
  cur_Seek :: "'db \<Rightarrow> string \<Rightarrow> bytes \<Rightarrow> bytes option"
  cur_Rest :: "'db \<Rightarrow> string \<Rightarrow> bytes \<Rightarrow> bytes list"
  tx_Commit :: "'db \<Rightarrow> go_error option"

text \<open>
  \<open>db.Update\<close>: the closure runs in a read-write transaction; its error rolls the transaction back,
  and so does a failing commit.
\<close>

definition db_Update :: "'db bolt \<Rightarrow> ('db \<Rightarrow> 'db go) \<Rightarrow> 'db \<Rightarrow> 'db \<times> go_error option" where
  "db_Update B f db =
     (case f db of
        Inl e \<Rightarrow> (db, Some e)
      | Inr db' \<Rightarrow> (case tx_Commit B db' of None \<Rightarrow> (db', None) | Some e \<Rightarrow> (db, Some e)))"

section \<open>Documented behaviour\<close>

definition max_key_size :: nat where "max_key_size = 32768"
definition max_value_size :: nat where "max_value_size = 2147483646"

definition is_least :: "(bytes \<Rightarrow> bool) \<Rightarrow> bytes option \<Rightarrow> bool" where
  "is_least P r = (case r of None \<Rightarrow> (\<forall>k. \<not> P k) | Some k \<Rightarrow> P k \<and> (\<forall>k'. P k' \<longrightarrow> k \<le> k'))"

definition is_greatest :: "(bytes \<Rightarrow> bool) \<Rightarrow> bytes option \<Rightarrow> bool" where
  "is_greatest P r = (case r of None \<Rightarrow> (\<forall>k. \<not> P k) | Some k \<Rightarrow> P k \<and> (\<forall>k'. P k' \<longrightarrow> k' \<le> k))"

definition has_key :: "'db bolt \<Rightarrow> 'db \<Rightarrow> string \<Rightarrow> bytes \<Rightarrow> bool" where
  "has_key B db b k \<longleftrightarrow> bk_Get B db b k \<noteq> None"

definition bolt_create_spec :: "'db bolt \<Rightarrow> bool" where
  "bolt_create_spec B \<longleftrightarrow>
     (\<forall>db b db'. tx_CreateBucketIfNotExists B db b = Inr db' \<longrightarrow>
        (\<forall>c. tx_HasBucket B db' c = (c = b \<or> tx_HasBucket B db c)) \<and>
        (\<forall>c k. bk_Get B db' c k =
           (if c = b \<and> \<not> tx_HasBucket B db b then None else bk_Get B db c k)))"

definition bolt_recreate_spec :: "'db bolt \<Rightarrow> bool" where
  "bolt_recreate_spec B \<longleftrightarrow>
     (\<forall>db b db'. tx_CreateBucket B db b = Inr db' \<longrightarrow>
        (\<forall>c. tx_HasBucket B db' c = (c = b \<or> tx_HasBucket B db c)) \<and>
        (\<forall>c k. bk_Get B db' c k = (if c = b then None else bk_Get B db c k)))"

definition bolt_drop_spec :: "'db bolt \<Rightarrow> bool" where
  "bolt_drop_spec B \<longleftrightarrow>
     (\<forall>db b db'. tx_DeleteBucket B db b = Inr db' \<longrightarrow>
        (\<forall>c. tx_HasBucket B db' c = (c \<noteq> b \<and> tx_HasBucket B db c)) \<and>
        (\<forall>c k. c \<noteq> b \<longrightarrow> bk_Get B db' c k = bk_Get B db c k))"

definition bolt_put_spec :: "'db bolt \<Rightarrow> bool" where
  "bolt_put_spec B \<longleftrightarrow>
     (\<forall>db b k v db'. tx_HasBucket B db b \<longrightarrow> bk_Put B db b k v = Inr db' \<longrightarrow>
        (\<forall>c. tx_HasBucket B db' c = tx_HasBucket B db c) \<and>
        (\<forall>c k'. bk_Get B db' c k' = (if c = b \<and> k' = k then Some v else bk_Get B db c k')))"

definition bolt_delete_spec :: "'db bolt \<Rightarrow> bool" where
  "bolt_delete_spec B \<longleftrightarrow>
     (\<forall>db b k db'. tx_HasBucket B db b \<longrightarrow> bk_Delete B db b k = Inr db' \<longrightarrow>
        (\<forall>c. tx_HasBucket B db' c = tx_HasBucket B db c) \<and>
        (\<forall>c k'. bk_Get B db' c k' = (if c = b \<and> k' = k then None else bk_Get B db c k')))"

definition bolt_read_spec :: "'db bolt \<Rightarrow> bool" where
  "bolt_read_spec B \<longleftrightarrow>
     (\<forall>db b. tx_HasBucket B db b \<longrightarrow>
        map_of (bk_Items B db b) = bk_Get B db b \<and>
        distinct (map fst (bk_Items B db b)) \<and>
        is_least (has_key B db b) (cur_First B db b) \<and>
        is_greatest (has_key B db b) (cur_Last B db b) \<and>
        (\<forall>k. is_least (\<lambda>k'. has_key B db b k' \<and> k \<le> k') (cur_Seek B db b k)))"

definition bolt_spec :: "'db bolt \<Rightarrow> bool" where
  "bolt_spec B \<longleftrightarrow> bolt_create_spec B \<and> bolt_recreate_spec B \<and> bolt_drop_spec B \<and>
     bolt_put_spec B \<and> bolt_delete_spec B \<and> bolt_read_spec B"

text \<open>
  A healthy disk: writes of admissible size to an existing bucket and deletions succeed, buckets can
  be created and dropped, and commits do not fail. \<open>Put\<close> documents its only size errors: a blank key, a key above 32768 bytes,
  a value above 2147483646 bytes.
\<close>

definition bolt_writes_ok :: "'db bolt \<Rightarrow> bool" where
  "bolt_writes_ok B \<longleftrightarrow>
     (\<forall>db b k v. tx_HasBucket B db b \<longrightarrow> k \<noteq> [] \<longrightarrow> length k \<le> max_key_size \<longrightarrow>
        length v \<le> max_value_size \<longrightarrow> (\<exists>db'. bk_Put B db b k v = Inr db')) \<and>
     (\<forall>db b k. tx_HasBucket B db b \<longrightarrow> (\<exists>db'. bk_Delete B db b k = Inr db')) \<and>
     (\<forall>db b. b \<noteq> [] \<longrightarrow> (\<exists>db'. tx_CreateBucketIfNotExists B db b = Inr db')) \<and>
     (\<forall>db b. b \<noteq> [] \<longrightarrow> \<not> tx_HasBucket B db b \<longrightarrow> (\<exists>db'. tx_CreateBucket B db b = Inr db')) \<and>
     (\<forall>db b. tx_HasBucket B db b \<longrightarrow> (\<exists>db'. tx_DeleteBucket B db b = Inr db')) \<and>
     (\<forall>db. tx_Commit B db = None)"

section \<open>Consequences\<close>

lemma create_if_not_exists_get:
  assumes "bolt_spec B" "tx_CreateBucketIfNotExists B db b = Inr db'"
  shows "bk_Get B db' c k = (if c = b \<and> \<not> tx_HasBucket B db b then None else bk_Get B db c k)"
proof -
  from assms(1) have "bolt_create_spec B" by (simp add: bolt_spec_def)
  then show ?thesis
    using assms(2) unfolding bolt_create_spec_def by blast
qed

lemma create_if_not_exists_has:
  assumes "bolt_spec B" "tx_CreateBucketIfNotExists B db b = Inr db'"
  shows "tx_HasBucket B db' c = (c = b \<or> tx_HasBucket B db c)"
proof -
  from assms(1) have "bolt_create_spec B" by (simp add: bolt_spec_def)
  then show ?thesis
    using assms(2) unfolding bolt_create_spec_def by blast
qed

lemma create_get:
  assumes "bolt_spec B" "tx_CreateBucket B db b = Inr db'"
  shows "bk_Get B db' c k = (if c = b then None else bk_Get B db c k)"
proof -
  from assms(1) have "bolt_recreate_spec B" by (simp add: bolt_spec_def)
  then show ?thesis
    using assms(2) unfolding bolt_recreate_spec_def by blast
qed

lemma create_has:
  assumes "bolt_spec B" "tx_CreateBucket B db b = Inr db'"
  shows "tx_HasBucket B db' c = (c = b \<or> tx_HasBucket B db c)"
proof -
  from assms(1) have "bolt_recreate_spec B" by (simp add: bolt_spec_def)
  then show ?thesis
    using assms(2) unfolding bolt_recreate_spec_def by blast
qed

lemma drop_has:
  assumes "bolt_spec B" "tx_DeleteBucket B db b = Inr db'"
  shows "tx_HasBucket B db' c = (c \<noteq> b \<and> tx_HasBucket B db c)"
proof -
  from assms(1) have "bolt_drop_spec B" by (simp add: bolt_spec_def)
  then show ?thesis
    using assms(2) unfolding bolt_drop_spec_def by blast
qed

lemma put_get:
  assumes "bolt_spec B" "tx_HasBucket B db b" "bk_Put B db b k v = Inr db'"
  shows "bk_Get B db' c k' = (if c = b \<and> k' = k then Some v else bk_Get B db c k')"
proof -
  from assms(1) have "bolt_put_spec B" by (simp add: bolt_spec_def)
  then show ?thesis
    using assms(2,3) unfolding bolt_put_spec_def by blast
qed

lemma put_has:
  assumes "bolt_spec B" "tx_HasBucket B db b" "bk_Put B db b k v = Inr db'"
  shows "tx_HasBucket B db' c = tx_HasBucket B db c"
proof -
  from assms(1) have "bolt_put_spec B" by (simp add: bolt_spec_def)
  then show ?thesis
    using assms(2,3) unfolding bolt_put_spec_def by blast
qed

lemma delete_get:
  assumes "bolt_spec B" "tx_HasBucket B db b" "bk_Delete B db b k = Inr db'"
  shows "bk_Get B db' c k' = (if c = b \<and> k' = k then None else bk_Get B db c k')"
proof -
  from assms(1) have "bolt_delete_spec B" by (simp add: bolt_spec_def)
  then show ?thesis
    using assms(2,3) unfolding bolt_delete_spec_def by blast
qed

lemma delete_has:
  assumes "bolt_spec B" "tx_HasBucket B db b" "bk_Delete B db b k = Inr db'"
  shows "tx_HasBucket B db' c = tx_HasBucket B db c"
proof -
  from assms(1) have "bolt_delete_spec B" by (simp add: bolt_spec_def)
  then show ?thesis
    using assms(2,3) unfolding bolt_delete_spec_def by blast
qed

lemma items_map_of:
  assumes "bolt_spec B" "tx_HasBucket B db b"
  shows "map_of (bk_Items B db b) = bk_Get B db b"
  using assms by (simp add: bolt_spec_def bolt_read_spec_def)

lemma items_distinct:
  assumes "bolt_spec B" "tx_HasBucket B db b"
  shows "distinct (map fst (bk_Items B db b))"
  using assms by (simp add: bolt_spec_def bolt_read_spec_def)

lemma first_least:
  assumes "bolt_spec B" "tx_HasBucket B db b"
  shows "is_least (has_key B db b) (cur_First B db b)"
  using assms by (simp add: bolt_spec_def bolt_read_spec_def)

lemma last_greatest:
  assumes "bolt_spec B" "tx_HasBucket B db b"
  shows "is_greatest (has_key B db b) (cur_Last B db b)"
  using assms by (simp add: bolt_spec_def bolt_read_spec_def)

lemma seek_least:
  assumes "bolt_spec B" "tx_HasBucket B db b"
  shows "is_least (\<lambda>k'. has_key B db b k' \<and> k \<le> k') (cur_Seek B db b k)"
  using assms by (simp add: bolt_spec_def bolt_read_spec_def)

lemma has_key_finite:
  assumes "bolt_spec B" "tx_HasBucket B db b"
  shows "finite {k. has_key B db b k}"
proof -
  have "{k. has_key B db b k} = dom (map_of (bk_Items B db b))"
    by (auto simp: has_key_def items_map_of [OF assms])
  then show ?thesis by (simp add: finite_dom_map_of)
qed

lemma card_has_key:
  assumes "bolt_spec B" "tx_HasBucket B db b"
  shows "card {k. has_key B db b k} = length (bk_Items B db b)"
proof -
  have "{k. has_key B db b k} = set (map fst (bk_Items B db b))"
    by (auto simp: has_key_def items_map_of [OF assms, symmetric] map_of_eq_None_iff)
  then show ?thesis
    using items_distinct [OF assms] by (metis distinct_card length_map)
qed

lemma put_ok:
  assumes "bolt_writes_ok B" "tx_HasBucket B db b" "k \<noteq> []" "length k \<le> max_key_size"
    "length v \<le> max_value_size"
  obtains db' where "bk_Put B db b k v = Inr db'"
  using assms unfolding bolt_writes_ok_def by metis

lemma delete_ok:
  assumes "bolt_writes_ok B" "tx_HasBucket B db b"
  obtains db' where "bk_Delete B db b k = Inr db'"
  using assms unfolding bolt_writes_ok_def by metis

lemma bucket_ok:
  "bolt_writes_ok B \<Longrightarrow> b \<noteq> [] \<Longrightarrow> \<not> tx_HasBucket B db b \<Longrightarrow> \<exists>db'. tx_CreateBucket B db b = Inr db'"
  "bolt_writes_ok B \<Longrightarrow> tx_HasBucket B db b \<Longrightarrow> \<exists>db'. tx_DeleteBucket B db b = Inr db'"
  "bolt_writes_ok B \<Longrightarrow> b \<noteq> [] \<Longrightarrow> \<exists>db'. tx_CreateBucketIfNotExists B db b = Inr db'"
  unfolding bolt_writes_ok_def by blast+

lemma commit_ok: "bolt_writes_ok B \<Longrightarrow> tx_Commit B db = None"
  unfolding bolt_writes_ok_def by blast

text \<open>An update either changes nothing and reports an error, or commits what its closure built.\<close>

lemma db_Update_cases:
  obtains (fail) e where "db_Update B f db = (db, Some e)"
  | (commit) db' where "db_Update B f db = (db', None)" "f db = Inr db'"
proof (cases "f db")
  case (Inl e)
  then show ?thesis by (intro fail [of e]) (simp add: db_Update_def)
next
  case (Inr db')
  show ?thesis
  proof (cases "tx_Commit B db'")
    case None
    with Inr show ?thesis by (intro commit [of db']) (simp_all add: db_Update_def)
  next
    case (Some e)
    with Inr show ?thesis by (intro fail [of e]) (simp add: db_Update_def)
  qed
qed

lemma db_Update_ok: "bolt_writes_ok B \<Longrightarrow> f db = Inr db' \<Longrightarrow> db_Update B f db = (db', None)"
  by (simp add: db_Update_def commit_ok)

end
