(* ===== verification/Index_Key.thy ===== *)
theory Index_Key
  imports Prelude
begin

text \<open>
  The binary keys of the Raft log bucket (\<open>indexKey\<close> and \<open>bytesToIndex\<close> of
  \<open>internal/consensus/log.go\<close>): an index is stored as eight bytes, most significant first, so that
  the byte order in which bbolt keeps its keys is the numeric order of the indices.
\<close>

definition indexKey :: "u64 \<Rightarrow> bytes" where
  "indexKey idx = map (\<lambda>i. char_of (unat (drop_bit (8 * i) idx))) [7, 6, 5, 4, 3, 2, 1, 0]"

definition be_val :: "bytes \<Rightarrow> nat" where
  "be_val b = foldl (\<lambda>a c. a * 256 + of_char c) 0 b"

definition bytesToIndex :: "bytes \<Rightarrow> u64" where
  "bytesToIndex b = of_nat (be_val (take 8 b))"

section \<open>Positional values\<close>

lemma foldl_be: "foldl (\<lambda>a c. a * 256 + of_char c) (n::nat) b = n * 256 ^ length b + be_val b"
proof (induction b arbitrary: n)
  case (Cons c b)
  show ?case
    using Cons [of "n * 256 + of_char c"] Cons [of "of_char c"]
    by (simp add: be_val_def algebra_simps)
qed (simp add: be_val_def)

lemma be_val_Cons: "be_val (c # b) = of_char c * 256 ^ length b + be_val b"
  using foldl_be [of "of_char c" b] by (simp add: be_val_def)

lemma be_val_less: "be_val b < 256 ^ length b"
proof (induction b)
  case (Cons c b)
  have "of_char c * 256 ^ length b + be_val b < of_char c * 256 ^ length b + 256 ^ length b"
    using Cons by simp
  also have "\<dots> = (of_char c + 1) * 256 ^ length b" by (simp add: algebra_simps)
  also have "\<dots> \<le> 256 * 256 ^ length b"
    using nat_of_char_less_256 [of c] by (intro mult_right_mono) linarith+
  finally show ?case by (simp add: be_val_Cons)
qed (simp add: be_val_def)

lemma be_val_mono_iff:
  "length x = length y \<Longrightarrow> be_val x < be_val y \<longleftrightarrow> x < y"
proof (induction x y rule: list_induct2)
  case (Cons a x b y)
  let ?p = "256 ^ length x :: nat"
  have bx: "be_val x < ?p" and by': "be_val y < ?p"
    using be_val_less [of x] be_val_less [of y] Cons.hyps by simp_all
  have step: "c * ?p + u < d * ?p + v" if "c < d" "u < ?p" for c d u v :: nat
  proof -
    have "c * ?p + u < (c + 1) * ?p" using that by simp
    also have "\<dots> \<le> d * ?p" using that by (intro mult_right_mono) auto
    finally show ?thesis by simp
  qed
  consider "of_char a < (of_char b :: nat)" | "a = b" | "of_char b < (of_char a :: nat)"
    using of_char_eq_iff [where ?'a = nat, of a b] by linarith
  then show ?case
  proof cases
    case 1
    then show ?thesis
      using step [OF 1 bx, of "be_val y"] Cons.hyps
      by (simp add: be_val_Cons less_char_def)
  next
    case 2
    then show ?thesis using Cons by (simp add: be_val_Cons)
  next
    case 3
    then show ?thesis
      using step [OF 3 by', of "be_val x"] Cons.hyps
      by (auto simp add: be_val_Cons less_char_def)
  qed
qed (simp add: be_val_def)

lemma be_val_digits: "be_val (map (\<lambda>i. char_of (n div 256 ^ i)) (rev [0..<k])) = n mod 256 ^ k"
proof (induction k)
  case (Suc k)
  have "n mod 256 ^ Suc k = n mod (256 ^ k * 256)" by (simp add: mult.commute)
  also have "\<dots> = 256 ^ k * (n div 256 ^ k mod 256) + n mod 256 ^ k" by (rule mod_mult2_eq)
  finally show ?case using Suc by (simp add: be_val_Cons)
qed (simp add: be_val_def)

section \<open>Index keys\<close>

lemma length_indexKey [simp]: "length (indexKey i) = 8"
  by (simp add: indexKey_def)

lemma indexKey_not_Nil [simp]: "indexKey i \<noteq> []"
  using length_indexKey [of i] by force

lemma indexKey_digits:
  "indexKey idx = map (\<lambda>i. char_of (unat idx div 256 ^ i)) (rev [0..<8])"
proof -
  have "rev [0..<8] = [7, 6, 5, 4, 3, 2, 1, 0 :: nat]" by code_simp
  moreover have "unat (drop_bit (8 * i) idx) = unat idx div 256 ^ i" for i
  proof -
    have "unat (drop_bit (8 * i) idx) = drop_bit (8 * i) (unat idx)" by (rule unat_drop_bit_eq)
    also have "\<dots> = unat idx div 2 ^ (8 * i)" by (rule drop_bit_eq_div)
    finally show ?thesis by (simp add: power_mult)
  qed
  ultimately show ?thesis unfolding indexKey_def by (metis (no_types, lifting) map_eq_conv)
qed

lemma be_val_indexKey [simp]: "be_val (indexKey i) = unat i"
proof -
  have "unat i < 256 ^ 8" using unsigned_less [of i, where ?'a = nat] by simp
  then show ?thesis by (simp add: indexKey_digits be_val_digits del: power_numeral)
qed

theorem bytesToIndex_indexKey [simp]: "bytesToIndex (indexKey i) = i"
  by (simp add: bytesToIndex_def)

lemma indexKey_inject [simp]: "indexKey i = indexKey j \<longleftrightarrow> i = j"
  by (metis bytesToIndex_indexKey)

theorem indexKey_less_iff: "indexKey i < indexKey j \<longleftrightarrow> i < j"
  using be_val_mono_iff [of "indexKey i" "indexKey j"] by (simp add: word_less_nat_alt)

lemma indexKey_le_iff: "indexKey i \<le> indexKey j \<longleftrightarrow> i \<le> j"
  by (metis indexKey_less_iff not_less)

end
