(* ===== verification/Raft_Log.thy ===== *)
theory Raft_Log
  imports Types Bolt Index_Key
begin

text \<open>
  \<open>internal/consensus/log.go\<close>: the persistent Raft log and the durable metadata
  (\<open>currentTerm\<close>, \<open>votedFor\<close>, snapshot boundary), on top of a bbolt database. Every operation of
  \<open>RaftLog\<close> is a definition here, over the database operations \<open>B\<close>; \<open>log_at\<close> is the abstract
  contents of the log, \<open>rl_ok\<close> the invariant of a log file, and the lemmas of the second half
  describe every operation through them.
\<close>

section \<open>State\<close>

definition logBucket :: string where "logBucket = ''raft_log''"
definition metaBucket :: string where "metaBucket = ''raft_meta''"
definition metaKey :: string where "metaKey = ''state''"
definition snapshotKey :: string where "snapshotKey = ''snapshot''"

record 'db raft_log =
  rl_db :: 'db
  rl_snapshotIndex :: u64
  rl_snapshotTerm :: u64
  rl_closed :: bool

record raft_meta =
  rm_Term :: u64
  rm_VotedFor :: string

record snapshot_meta =
  sm_Index :: u64
  sm_Term :: u64

definition json_meta :: "u64 \<Rightarrow> string \<Rightarrow> json" where
  "json_meta t v = JObj [(''term'', json_u64 t), (''voted_for'', JStr v)]"

definition dec_meta :: "raft_meta decoder" where
  "dec_meta = decode_struct [(''term'', dec_u64 rm_Term_update),
     (''voted_for'', dec_string rm_VotedFor_update)]"

definition zero_meta :: raft_meta where
  "zero_meta = \<lparr>rm_Term = 0, rm_VotedFor = []\<rparr>"

definition json_snapshot_meta :: "u64 \<Rightarrow> u64 \<Rightarrow> json" where
  "json_snapshot_meta i t = JObj [(''index'', json_u64 i), (''term'', json_u64 t)]"

definition dec_snapshot_meta :: "snapshot_meta decoder" where
  "dec_snapshot_meta = decode_struct [(''index'', dec_u64 sm_Index_update),
     (''term'', dec_u64 sm_Term_update)]"

definition zero_snapshot_meta :: snapshot_meta where
  "zero_snapshot_meta = \<lparr>sm_Index = 0, sm_Term = 0\<rparr>"

section \<open>Opening\<close>

text \<open>
  \<open>extractDir\<close>: everything before the last separator, and the current directory when there is
  none. The loop runs from the end of the path.
\<close>

fun extractDir_loop :: "string \<Rightarrow> nat \<Rightarrow> string" where
  "extractDir_loop path 0 = ''.''"
| "extractDir_loop path (Suc i) =
     (if path ! i = CHR ''/'' \<or> path ! i = CHR 0x5C then take i path else extractDir_loop path i)"

definition extractDir :: "string \<Rightarrow> string" where
  "extractDir path = extractDir_loop path (length path)"

definition load_snapshot_meta :: "'db bolt \<Rightarrow> 'db \<Rightarrow> snapshot_meta" where
  "load_snapshot_meta B db =
     (case bk_Get B db metaBucket snapshotKey of
        None \<Rightarrow> zero_snapshot_meta
      | Some data \<Rightarrow>
          (case unmarshal dec_snapshot_meta zero_snapshot_meta data of
             Inr s \<Rightarrow> s
           | Inl _ \<Rightarrow> zero_snapshot_meta))"

text \<open>
  The outcomes of \<open>os.MkdirAll\<close> (on \<^const>\<open>extractDir\<close> of the path) and of \<open>bolt.Open\<close> are
  arguments: they depend on the file system.
\<close>

definition newRaftLog ::
  "'db bolt \<Rightarrow> (string \<Rightarrow> go_error option) \<Rightarrow> (string \<Rightarrow> 'db go) \<Rightarrow> string \<Rightarrow> 'db raft_log go" where
  "newRaftLog B mkdirAll bolt_Open path =
     (case mkdirAll (extractDir path) of
        Some e \<Rightarrow> Inl (Wrapped ''creating log dir'' e)
      | None \<Rightarrow>
          (case bolt_Open path of
             Inl e \<Rightarrow> Inl (Wrapped ''opening raft log'' e)
           | Inr db \<Rightarrow>
               (case db_Update B (\<lambda>tx.
                    case tx_CreateBucketIfNotExists B tx logBucket of
                      Inl e \<Rightarrow> Inl e
                    | Inr tx' \<Rightarrow> tx_CreateBucketIfNotExists B tx' metaBucket) db of
                  (_, Some e) \<Rightarrow> Inl e
                | (db', None) \<Rightarrow>
                    (let s = load_snapshot_meta B db' in
                     Inr \<lparr>rl_db = db', rl_snapshotIndex = sm_Index s, rl_snapshotTerm = sm_Term s,
                          rl_closed = False\<rparr>))))"

section \<open>Operations\<close>

text \<open>
  Every transaction on a closed database fails before its closure runs: a failed \<open>Update\<close> or \<open>View\<close>
  leaves the results of the operation as they were initialised.
\<close>

definition ErrDatabaseNotOpen :: go_error where
  "ErrDatabaseNotOpen = BoltError ''database not open''"

definition rl_Update ::
  "'db bolt \<Rightarrow> ('db \<Rightarrow> 'db go) \<Rightarrow> 'db raft_log \<Rightarrow> 'db raft_log \<times> go_error option" where
  "rl_Update B f rl =
     (if rl_closed rl then (rl, Some ErrDatabaseNotOpen)
      else apfst (\<lambda>db. rl\<lparr>rl_db := db\<rparr>) (db_Update B f (rl_db rl)))"

definition log_Close :: "'db raft_log \<Rightarrow> 'db raft_log" where
  "log_Close rl = rl\<lparr>rl_closed := True\<rparr>"

definition SaveMeta ::
  "'db bolt \<Rightarrow> u64 \<Rightarrow> string \<Rightarrow> 'db raft_log \<Rightarrow> 'db raft_log \<times> go_error option" where
  "SaveMeta B t votedFor =
     rl_Update B (\<lambda>tx. bk_Put B tx metaBucket metaKey (print_json (json_meta t votedFor)))"

definition LoadMeta :: "'db bolt \<Rightarrow> 'db raft_log \<Rightarrow> (u64 \<times> string) go" where
  "LoadMeta B rl =
     (if rl_closed rl then Inl ErrDatabaseNotOpen
      else case bk_Get B (rl_db rl) metaBucket metaKey of
        None \<Rightarrow> Inr (0, [])
      | Some data \<Rightarrow>
          (case unmarshal dec_meta zero_meta data of
             Inl e \<Rightarrow> Inl e
           | Inr s \<Rightarrow> Inr (rm_Term s, rm_VotedFor s)))"

definition put_entry :: "'db bolt \<Rightarrow> log_entry \<Rightarrow> 'db \<Rightarrow> 'db go" where
  "put_entry B e tx = bk_Put B tx logBucket (indexKey (le_Index e)) (print_json (json_entry e))"

definition Append :: "'db bolt \<Rightarrow> log_entry \<Rightarrow> 'db raft_log \<Rightarrow> 'db raft_log \<times> go_error option" where
  "Append B entry = rl_Update B (put_entry B entry)"

fun put_entries :: "'db bolt \<Rightarrow> log_entry list \<Rightarrow> 'db \<Rightarrow> 'db go" where
  "put_entries B [] tx = Inr tx"
| "put_entries B (e # es) tx =
     (case put_entry B e tx of Inl err \<Rightarrow> Inl err | Inr tx' \<Rightarrow> put_entries B es tx')"

definition AppendBatch ::
  "'db bolt \<Rightarrow> log_entry list \<Rightarrow> 'db raft_log \<Rightarrow> 'db raft_log \<times> go_error option" where
  "AppendBatch B entries rl =
     (if entries = [] then (rl, None) else rl_Update B (put_entries B entries) rl)"

definition Get :: "'db bolt \<Rightarrow> u64 \<Rightarrow> 'db raft_log \<Rightarrow> log_entry go" where
  "Get B index rl =
     (if rl_closed rl then Inl ErrDatabaseNotOpen
      else case bk_Get B (rl_db rl) logBucket (indexKey index) of
        None \<Rightarrow> Inl ErrLogEntryNotFound
      | Some data \<Rightarrow> unmarshal dec_entry zero_entry data)"

text \<open>
  \<open>GetRange\<close> stops at the first missing index. With \<open>to = 2^64 - 1\<close> and an entry stored there the
  loop variable wraps around to index 0, where the loop of the code stops as well, because indices
  start at 1; the model returns at the end of the range.
\<close>

function GetRange :: "'db bolt \<Rightarrow> u64 \<Rightarrow> u64 \<Rightarrow> 'db raft_log \<Rightarrow> log_entry list go" where
  "GetRange B i to rl =
     (if rl_closed rl then Inl ErrDatabaseNotOpen
      else if i \<le> to then
        (case bk_Get B (rl_db rl) logBucket (indexKey i) of
           None \<Rightarrow> Inr []
         | Some data \<Rightarrow>
             (case unmarshal dec_entry zero_entry data of
                Inl e \<Rightarrow> Inl e
              | Inr entry \<Rightarrow>
                  (if i = to then Inr [entry]
                   else (case GetRange B (i + 1) to rl of
                      Inl e \<Rightarrow> Inl e
                    | Inr rest \<Rightarrow> Inr (entry # rest)))))
      else Inr [])"
  by pat_completeness auto
termination
proof (relation "measure (\<lambda>(B, i, to, rl). unat to - unat i)", goal_cases)
  case 1
  show ?case by simp
next
  case (2 B i to rl data entry)
  then have "i < to" by simp
  moreover from this have "i \<noteq> - 1" by (rule less_not_max)
  ultimately show ?case by (simp add: word_arith word_less_nat_alt)
qed

declare GetRange.simps [simp del]

text \<open>
  The deletion loops of \<open>TruncateFrom\<close> and \<open>Compact\<close>, over the keys that their cursor returns: the one
  it is placed on, and those of \<^const>\<open>cur_Rest\<close>. \<open>go_on\<close> is the test at the head of the body.
\<close>

definition cursor_keys :: "'db bolt \<Rightarrow> 'db \<Rightarrow> string \<Rightarrow> bytes option \<Rightarrow> bytes list" where
  "cursor_keys B tx b r = (case r of None \<Rightarrow> [] | Some k \<Rightarrow> k # cur_Rest B tx b k)"

fun delete_loop ::
  "'db bolt \<Rightarrow> string \<Rightarrow> (bytes \<Rightarrow> bool go) \<Rightarrow> bytes list \<Rightarrow> 'db \<Rightarrow> 'db go" where
  "delete_loop B b go_on [] tx = Inr tx"
| "delete_loop B b go_on (k # ks) tx =
     (case go_on k of
        Inl e \<Rightarrow> Inl e
      | Inr False \<Rightarrow> Inr tx
      | Inr True \<Rightarrow>
          (case bk_Delete B tx b k of
             Inl e \<Rightarrow> Inl e
           | Inr tx' \<Rightarrow> delete_loop B b go_on ks tx'))"

definition TruncateFrom ::
  "'db bolt \<Rightarrow> u64 \<Rightarrow> 'db raft_log \<Rightarrow> 'db raft_log \<times> go_error option" where
  "TruncateFrom B from =
     rl_Update B (\<lambda>tx. delete_loop B logBucket (\<lambda>k. Inr True)
       (cursor_keys B tx logBucket (cur_Seek B tx logBucket (indexKey from))) tx)"

definition LastIndex :: "'db bolt \<Rightarrow> 'db raft_log \<Rightarrow> u64" where
  "LastIndex B rl =
     (if rl_closed rl then rl_snapshotIndex rl
      else case cur_Last B (rl_db rl) logBucket of
        None \<Rightarrow> rl_snapshotIndex rl
      | Some k \<Rightarrow> bytesToIndex k)"

definition LastTerm :: "'db bolt \<Rightarrow> 'db raft_log \<Rightarrow> u64" where
  "LastTerm B rl =
     (let lastIdx = LastIndex B rl in
      if lastIdx = 0 then 0
      else if lastIdx = rl_snapshotIndex rl then rl_snapshotTerm rl
      else (case Get B lastIdx rl of Inl _ \<Rightarrow> rl_snapshotTerm rl | Inr e \<Rightarrow> le_Term e))"

definition TermAt :: "'db bolt \<Rightarrow> 'db raft_log \<Rightarrow> u64 \<Rightarrow> u64" where
  "TermAt B rl index =
     (if index = 0 then 0
      else if index = rl_snapshotIndex rl then rl_snapshotTerm rl
      else (case Get B index rl of Inl _ \<Rightarrow> 0 | Inr e \<Rightarrow> le_Term e))"

text \<open>
  \<open>Compact\<close> records the boundary in the database only; the in-memory fields keep their values. Reading
  an index from a key of fewer than eight bytes panics; the transaction is then rolled back.
\<close>

definition compact_test :: "u64 \<Rightarrow> bytes \<Rightarrow> bool go" where
  "compact_test snapIndex k =
     (if length k < 8 then Inl (GoPanic ''index out of range'') else Inr (bytesToIndex k \<le> snapIndex))"

definition Compact ::
  "'db bolt \<Rightarrow> u64 \<Rightarrow> u64 \<Rightarrow> 'db raft_log \<Rightarrow> 'db raft_log \<times> go_error option" where
  "Compact B snapIndex snapTerm =
     rl_Update B (\<lambda>tx.
       case delete_loop B logBucket (compact_test snapIndex)
              (cursor_keys B tx logBucket (cur_First B tx logBucket)) tx of
         Inl e \<Rightarrow> Inl e
       | Inr tx' \<Rightarrow> bk_Put B tx' metaBucket snapshotKey (print_json (json_snapshot_meta snapIndex snapTerm)))"

definition SnapshotIndex :: "'db raft_log \<Rightarrow> u64" where
  "SnapshotIndex rl = rl_snapshotIndex rl"

definition SnapshotTerm :: "'db raft_log \<Rightarrow> u64" where
  "SnapshotTerm rl = rl_snapshotTerm rl"

end
