(* ===== verification/Raft_Log_Spec.thy ===== *)
theory Raft_Log_Spec
  imports Raft_Log
begin

text \<open>
  What the operations of the persistent log do, in terms of its abstract contents: \<open>log_at\<close> is the
  entry stored at an index, \<open>meta_of\<close> the durable term and vote, \<open>rl_ok\<close> the invariant of a log
  file (it is open, both buckets exist and every key of the log bucket is the key of the entry stored
  there).
  The locale \<open>replicated_log\<close> states the contract the Raft node relies on, and is interpreted on
  the bbolt-backed log for every database that satisfies \<^const>\<open>bolt_spec\<close>.
\<close>

section \<open>Abstract contents and invariant\<close>

definition log_at :: "'db bolt \<Rightarrow> 'db raft_log \<Rightarrow> u64 \<Rightarrow> log_entry option" where
  "log_at B rl i = (case Get B i rl of Inr e \<Rightarrow> Some e | Inl _ \<Rightarrow> None)"

definition stored_entry :: "bytes \<Rightarrow> bytes \<Rightarrow> bool" where
  "stored_entry k data \<longleftrightarrow>
     (\<exists>e. unmarshal dec_entry zero_entry data = Inr e \<and> k = indexKey (le_Index e))"

definition db_ok :: "'db bolt \<Rightarrow> 'db \<Rightarrow> bool" where
  "db_ok B db \<longleftrightarrow> tx_HasBucket B db logBucket \<and> tx_HasBucket B db metaBucket \<and>
     (\<forall>k data. bk_Get B db logBucket k = Some data \<longrightarrow> stored_entry k data)"

definition rl_ok :: "'db bolt \<Rightarrow> 'db raft_log \<Rightarrow> bool" where
  "rl_ok B rl \<longleftrightarrow> bolt_spec B \<and> db_ok B (rl_db rl) \<and> \<not> rl_closed rl"

lemma bucket_neq [simp]: "logBucket \<noteq> metaBucket" "metaBucket \<noteq> logBucket"
  by (simp_all add: logBucket_def metaBucket_def)

lemma meta_key_neq [simp]: "metaKey \<noteq> snapshotKey" "snapshotKey \<noteq> metaKey"
  by (simp_all add: metaKey_def snapshotKey_def)

lemma rl_okD:
  assumes "rl_ok B rl"
  shows "bolt_spec B" "tx_HasBucket B (rl_db rl) logBucket" "tx_HasBucket B (rl_db rl) metaBucket"
    "\<not> rl_closed rl"
  using assms by (simp_all add: rl_ok_def db_ok_def)

lemma rl_ok_entry:
  assumes "rl_ok B rl" "bk_Get B (rl_db rl) logBucket k = Some data"
  obtains e where "unmarshal dec_entry zero_entry data = Inr e" "k = indexKey (le_Index e)"
    "log_at B rl (le_Index e) = Some e"
proof -
  from assms obtain e where e: "unmarshal dec_entry zero_entry data = Inr e"
      "k = indexKey (le_Index e)"
    by (auto simp: rl_ok_def db_ok_def stored_entry_def)
  with assms have "log_at B rl (le_Index e) = Some e" by (simp add: log_at_def Get_def rl_okD(4))
  with e show thesis by (rule that)
qed

lemma log_at_index: "rl_ok B rl \<Longrightarrow> log_at B rl i = Some e \<Longrightarrow> le_Index e = i"
  by (auto simp: log_at_def Get_def rl_okD(4) split: option.splits sum.splits elim: rl_ok_entry)

lemma log_at_None_iff:
  "rl_ok B rl \<Longrightarrow> log_at B rl i = None \<longleftrightarrow> bk_Get B (rl_db rl) logBucket (indexKey i) = None"
  by (auto simp: log_at_def Get_def rl_okD(4) split: option.splits sum.splits elim: rl_ok_entry)

lemma Get_log_at:
  "rl_ok B rl \<Longrightarrow>
     Get B i rl = (case log_at B rl i of None \<Rightarrow> Inl ErrLogEntryNotFound | Some e \<Rightarrow> Inr e)"
  by (auto simp: log_at_def Get_def rl_okD(4) split: option.splits sum.splits elim: rl_ok_entry)

lemma TermAt_log_at:
  "TermAt B rl i = (if i = 0 then 0 else if i = rl_snapshotIndex rl then rl_snapshotTerm rl
     else (case log_at B rl i of None \<Rightarrow> 0 | Some e \<Rightarrow> le_Term e))"
  by (simp add: TermAt_def log_at_def split: sum.splits)

section \<open>Deletion loops\<close>

text \<open>A loop that ends normally has deleted the keys it was given up to the first that fails the test.\<close>

lemma delete_loop_get:
  assumes "bolt_spec B" "tx_HasBucket B tx b" "delete_loop B b go_on ks tx = Inr tx'"
  shows "tx_HasBucket B tx' c = tx_HasBucket B tx c"
    "bk_Get B tx' c x =
       (if c = b \<and> x \<in> set (takeWhile (\<lambda>k. go_on k = Inr True) ks) then None else bk_Get B tx c x)"
proof -
  have "tx_HasBucket B tx' c = tx_HasBucket B tx c \<and> bk_Get B tx' c x =
      (if c = b \<and> x \<in> set (takeWhile (\<lambda>k. go_on k = Inr True) ks) then None else bk_Get B tx c x)"
    using assms(2,3)
  proof (induction ks arbitrary: tx)
    case (Cons k ks)
    show ?case
    proof (cases "go_on k = Inr True")
      case True
      then obtain t where t: "bk_Delete B tx b k = Inr t" "delete_loop B b go_on ks t = Inr tx'"
        using Cons.prems(2) by (auto split: sum.splits)
      note get = delete_get [OF assms(1) Cons.prems(1) t(1)] and hst = delete_has [OF assms(1) Cons.prems(1) t(1)]
      show ?thesis using Cons.IH [OF _ t(2)] Cons.prems(1) True by (auto simp: get hst)
    qed (use Cons.prems(2) in \<open>auto split: sum.splits bool.splits\<close>)
  qed simp
  then show "tx_HasBucket B tx' c = tx_HasBucket B tx c" "bk_Get B tx' c x =
      (if c = b \<and> x \<in> set (takeWhile (\<lambda>k. go_on k = Inr True) ks) then None else bk_Get B tx c x)" by blast+
qed

lemma delete_loop_ok:
  assumes "bolt_spec B" "bolt_writes_ok B" "tx_HasBucket B tx b" "\<forall>k\<in>set ks. \<exists>r. go_on k = Inr r"
  shows "\<exists>tx'. delete_loop B b go_on ks tx = Inr tx'"
  using assms(3,4)
proof (induction ks arbitrary: tx)
  case (Cons k ks)
  obtain t where t: "bk_Delete B tx b k = Inr t" using assms(2) Cons.prems(1) by (rule delete_ok)
  then have "tx_HasBucket B t b" using delete_has [OF assms(1) Cons.prems(1) t] Cons.prems(1) by simp
  then show ?case using Cons t by (auto split: bool.split)
qed simp

section \<open>Operations on the abstract contents\<close>

lemma rl_Update_cases:
  assumes "rl_Update B f rl = (rl', err)"
  obtains (fail) e where "rl' = rl" "err = Some e"
  | (commit) db' where "rl' = rl\<lparr>rl_db := db'\<rparr>" "err = None" "f (rl_db rl) = Inr db'"
proof (cases rule: db_Update_cases [of B f "rl_db rl"])
  case (fail e)
  with assms that show ?thesis by (auto simp: rl_Update_def split: if_splits)
next
  case (commit db')
  with assms that show ?thesis by (auto simp: rl_Update_def split: if_splits)
qed

lemma rl_Update_ok:
  "bolt_writes_ok B \<Longrightarrow> \<not> rl_closed rl \<Longrightarrow> f (rl_db rl) = Inr db' \<Longrightarrow> rl_Update B f rl = (rl\<lparr>rl_db := db'\<rparr>, None)"
  by (simp add: rl_Update_def db_Update_ok)

lemma unmarshal_entry: "unmarshal dec_entry zero_entry (print_json (json_entry e)) = Inr (clean_entry e)"
  by (simp add: json_simps)

subsection \<open>Append\<close>

lemma put_entry_ok:
  assumes "bolt_spec B" "db_ok B db" "put_entry B e db = Inr db'"
  shows "db_ok B db'"
proof -
  have has: "tx_HasBucket B db logBucket" using assms(2) by (simp add: db_ok_def)
  note get = put_get [OF assms(1) has assms(3) [unfolded put_entry_def]]
    and hst = put_has [OF assms(1) has assms(3) [unfolded put_entry_def]]
  have "stored_entry (indexKey (le_Index e)) (print_json (json_entry e))"
    unfolding stored_entry_def using unmarshal_entry [of e] by auto
  then show ?thesis using assms(2) by (auto simp: db_ok_def get hst)
qed

lemma Append_fail: "Append B e rl = (rl', Some err) \<Longrightarrow> rl' = rl"
  unfolding Append_def by (erule rl_Update_cases) auto

lemma Append_commit:
  assumes "rl_ok B rl" "Append B e rl = (rl', None)"
  shows "rl_ok B rl'"
    and "log_at B rl' i = (if i = le_Index e then Some (clean_entry e) else log_at B rl i)"
    and "bk_Get B (rl_db rl') metaBucket k = bk_Get B (rl_db rl) metaBucket k"
    and "rl_snapshotIndex rl' = rl_snapshotIndex rl" "rl_snapshotTerm rl' = rl_snapshotTerm rl"
proof -
  obtain db' where rl': "rl' = rl\<lparr>rl_db := db'\<rparr>" and put: "put_entry B e (rl_db rl) = Inr db'"
    using assms(2) unfolding Append_def by (auto elim: rl_Update_cases)
  note get = put_get [OF rl_okD(1,2) [OF assms(1)] put [unfolded put_entry_def]]
  show "rl_ok B rl'"
    using put_entry_ok [OF _ _ put] assms(1) by (simp add: rl_ok_def rl')
  show "log_at B rl' i = (if i = le_Index e then Some (clean_entry e) else log_at B rl i)"
    using assms(1) by (simp add: log_at_def Get_def rl' get unmarshal_entry rl_okD(4))
  show "bk_Get B (rl_db rl') metaBucket k = bk_Get B (rl_db rl) metaBucket k"
    by (simp add: rl' get)
  show "rl_snapshotIndex rl' = rl_snapshotIndex rl" "rl_snapshotTerm rl' = rl_snapshotTerm rl"
    by (simp_all add: rl')
qed

lemma rl_ok_Append: "rl_ok B rl \<Longrightarrow> Append B e rl = (rl', err) \<Longrightarrow> rl_ok B rl'"
  by (cases err) (auto dest: Append_fail Append_commit(1))

text \<open>A batch is one transaction: all entries are stored, or none.\<close>

lemma put_entries_ok:
  assumes "bolt_spec B" "db_ok B db" "put_entries B es db = Inr db'"
  shows "db_ok B db'"
  using assms(2,3)
  by (induction es arbitrary: db) (auto split: sum.splits dest: put_entry_ok [OF assms(1)])

lemma put_entries_get:
  assumes "bolt_spec B" "tx_HasBucket B db logBucket" "put_entries B es db = Inr db'"
  shows "bk_Get B db' logBucket (indexKey i) =
    (case find (\<lambda>e. le_Index e = i) (rev es) of
       Some e \<Rightarrow> Some (print_json (json_entry e))
     | None \<Rightarrow> bk_Get B db logBucket (indexKey i))"
  using assms(2,3)
proof (induction es arbitrary: db)
  case (Cons e es)
  then obtain t where put: "bk_Put B db logBucket (indexKey (le_Index e)) (print_json (json_entry e)) = Inr t"
    and rest: "put_entries B es t = Inr db'"
    by (auto simp: put_entry_def split: sum.splits)
  note get = put_get [OF assms(1) Cons.prems(1) put] and hst = put_has [OF assms(1) Cons.prems(1) put]
  have "bk_Get B db' logBucket (indexKey i) =
      (case find (\<lambda>e. le_Index e = i) (rev es) of
         Some e \<Rightarrow> Some (print_json (json_entry e)) | None \<Rightarrow> bk_Get B t logBucket (indexKey i))"
    using Cons.IH [OF _ rest] hst Cons.prems(1) by simp
  then show ?case by (auto simp: get find_append split: option.splits)
qed simp

lemma AppendBatch_commit:
  assumes "rl_ok B rl" "AppendBatch B es rl = (rl', None)"
  shows "rl_ok B rl'"
    and "log_at B rl' i =
      (case find (\<lambda>e. le_Index e = i) (rev es) of Some e \<Rightarrow> Some (clean_entry e) | None \<Rightarrow> log_at B rl i)"
proof -
  consider "es = []" "rl' = rl"
    | db' where "rl' = rl\<lparr>rl_db := db'\<rparr>" "put_entries B es (rl_db rl) = Inr db'"
    using assms(2) by (cases "es = []") (auto simp: AppendBatch_def elim: rl_Update_cases)
  then have "rl_ok B rl' \<and> log_at B rl' i =
      (case find (\<lambda>e. le_Index e = i) (rev es) of Some e \<Rightarrow> Some (clean_entry e) | None \<Rightarrow> log_at B rl i)"
  proof cases
    case 1
    with assms(1) show ?thesis by simp
  next
    case (2 db')
    have "rl_ok B rl'"
      using put_entries_ok [OF _ _ 2(2)] assms(1) by (simp add: rl_ok_def 2(1))
    moreover note put_entries_get [OF rl_okD(1,2) [OF assms(1)] 2(2), of i]
    ultimately show ?thesis
      using assms(1) by (simp add: log_at_def Get_def 2(1) unmarshal_entry rl_okD(4) split: option.split)
  qed
  then show "rl_ok B rl'" and "log_at B rl' i =
      (case find (\<lambda>e. le_Index e = i) (rev es) of Some e \<Rightarrow> Some (clean_entry e) | None \<Rightarrow> log_at B rl i)"
    by blast+
qed

lemma AppendBatch_fail: "AppendBatch B es rl = (rl', Some err) \<Longrightarrow> rl' = rl"
  unfolding AppendBatch_def by (auto split: if_splits elim: rl_Update_cases)

subsection \<open>Truncation\<close>

lemma db_ok_subset:
  assumes "db_ok B db" "\<forall>c. tx_HasBucket B db' c = tx_HasBucket B db c"
    "\<forall>k data. bk_Get B db' logBucket k = Some data \<longrightarrow> bk_Get B db logBucket k = Some data"
  shows "db_ok B db'"
  using assms unfolding db_ok_def by blast

text \<open>The keys that the cursors of \<open>TruncateFrom\<close> and \<open>Compact\<close> return.\<close>

definition truncate_keys :: "'db bolt \<Rightarrow> 'db raft_log \<Rightarrow> u64 \<Rightarrow> bytes list" where
  "truncate_keys B rl i =
     cursor_keys B (rl_db rl) logBucket (cur_Seek B (rl_db rl) logBucket (indexKey i))"

definition compact_keys :: "'db bolt \<Rightarrow> 'db raft_log \<Rightarrow> bytes list" where
  "compact_keys B rl = cursor_keys B (rl_db rl) logBucket (cur_First B (rl_db rl) logBucket)"

text \<open>The entry at the given index, when there is one, is the first that the cursor finds.\<close>

lemma truncate_keys_at:
  assumes "rl_ok B rl" "log_at B rl i \<noteq> None"
  shows "truncate_keys B rl i = indexKey i # cur_Rest B (rl_db rl) logBucket (indexKey i)"
proof -
  have "has_key B (rl_db rl) logBucket (indexKey i)"
    using assms log_at_None_iff [OF assms(1), of i] by (simp add: has_key_def)
  then have "cur_Seek B (rl_db rl) logBucket (indexKey i) = Some (indexKey i)"
    using seek_least [OF rl_okD(1,2) [OF assms(1)], of "indexKey i"]
    by (cases "cur_Seek B (rl_db rl) logBucket (indexKey i)") (auto simp: is_least_def intro: antisym)
  then show ?thesis by (simp add: truncate_keys_def cursor_keys_def)
qed

lemma TruncateFrom_fail: "TruncateFrom B i rl = (rl', Some err) \<Longrightarrow> rl' = rl"
  unfolding TruncateFrom_def by (erule rl_Update_cases) auto

lemma TruncateFrom_commit:
  assumes "rl_ok B rl" "TruncateFrom B i rl = (rl', None)"
  shows "rl_ok B rl'"
    and "log_at B rl' j = (if indexKey j \<in> set (truncate_keys B rl i) then None else log_at B rl j)"
    and "bk_Get B (rl_db rl') metaBucket k = bk_Get B (rl_db rl) metaBucket k"
    and "rl_snapshotIndex rl' = rl_snapshotIndex rl" "rl_snapshotTerm rl' = rl_snapshotTerm rl"
proof -
  obtain db' where rl': "rl' = rl\<lparr>rl_db := db'\<rparr>"
    and del: "delete_loop B logBucket (\<lambda>k. Inr True) (truncate_keys B rl i) (rl_db rl) = Inr db'"
    using assms(2) unfolding TruncateFrom_def truncate_keys_def by (auto elim: rl_Update_cases)
  note spec = delete_loop_get [OF rl_okD(1,2) [OF assms(1)] del]
  have get: "bk_Get B db' c k =
      (if c = logBucket \<and> k \<in> set (truncate_keys B rl i) then None else bk_Get B (rl_db rl) c k)" for c k
  proof -
    have "takeWhile (\<lambda>_. True) (truncate_keys B rl i) = truncate_keys B rl i" by (simp add: takeWhile_eq_all_conv)
    then show ?thesis using spec(2) [of c k] by (simp only: simp_thms sum.inject)
  qed
  have "db_ok B db'"
    using assms(1) by - (rule db_ok_subset [of B "rl_db rl"], simp_all add: rl_ok_def get spec(1))
  then show "rl_ok B rl'" using assms(1) by (simp add: rl_ok_def rl')
  show "log_at B rl' j = (if indexKey j \<in> set (truncate_keys B rl i) then None else log_at B rl j)"
    by (simp add: log_at_def Get_def rl' get)
  show "bk_Get B (rl_db rl') metaBucket k = bk_Get B (rl_db rl) metaBucket k"
    by (simp add: rl' get)
  show "rl_snapshotIndex rl' = rl_snapshotIndex rl" "rl_snapshotTerm rl' = rl_snapshotTerm rl"
    by (simp_all add: rl')
qed

lemma rl_ok_TruncateFrom: "rl_ok B rl \<Longrightarrow> TruncateFrom B i rl = (rl', err) \<Longrightarrow> rl_ok B rl'"
  by (cases err) (auto dest: TruncateFrom_fail TruncateFrom_commit(1))

subsection \<open>Compaction\<close>

lemma Compact_fail: "Compact B i t rl = (rl', Some err) \<Longrightarrow> rl' = rl"
  unfolding Compact_def by (erule rl_Update_cases) auto

lemma Compact_commit:
  assumes "rl_ok B rl" "Compact B i t rl = (rl', None)"
  shows "rl_ok B rl'"
    and "log_at B rl' j =
      (if indexKey j \<in> set (takeWhile (\<lambda>k. compact_test i k = Inr True) (compact_keys B rl)) then None
       else log_at B rl j)"
    and "bk_Get B (rl_db rl') metaBucket k =
      (if k = snapshotKey then Some (print_json (json_snapshot_meta i t)) else bk_Get B (rl_db rl) metaBucket k)"
    and "rl_snapshotIndex rl' = rl_snapshotIndex rl" "rl_snapshotTerm rl' = rl_snapshotTerm rl"
proof -
  let ?gone = "set (takeWhile (\<lambda>k. compact_test i k = Inr True) (compact_keys B rl))"
  obtain db1 db' where rl': "rl' = rl\<lparr>rl_db := db'\<rparr>"
    and del: "delete_loop B logBucket (compact_test i) (compact_keys B rl) (rl_db rl) = Inr db1"
    and put: "bk_Put B db1 metaBucket snapshotKey (print_json (json_snapshot_meta i t)) = Inr db'"
    using assms(2) unfolding Compact_def compact_keys_def by (auto split: sum.splits elim: rl_Update_cases)
  have ok: "db_ok B (rl_db rl)" using assms(1) by (simp add: rl_ok_def)
  note spec = delete_loop_get [OF rl_okD(1,2) [OF assms(1)] del]
  have has: "tx_HasBucket B db1 metaBucket" using spec(1) ok by (simp add: db_ok_def)
  note get' = put_get [OF rl_okD(1) [OF assms(1)] has put]
    and hst' = put_has [OF rl_okD(1) [OF assms(1)] has put]
  have get: "bk_Get B db' c k = (if c = metaBucket \<and> k = snapshotKey then Some (print_json (json_snapshot_meta i t))
      else if c = logBucket \<and> k \<in> ?gone then None else bk_Get B (rl_db rl) c k)" for c k
    by (simp add: get' spec(2))
  have "db_ok B db'"
    using ok by - (rule db_ok_subset [of B "rl_db rl"], simp_all add: get hst' spec(1))
  then show "rl_ok B rl'" using assms(1) by (simp add: rl_ok_def rl')
  show "log_at B rl' j = (if indexKey j \<in> ?gone then None else log_at B rl j)"
    by (simp add: log_at_def Get_def rl' get)
  show "bk_Get B (rl_db rl') metaBucket k =
      (if k = snapshotKey then Some (print_json (json_snapshot_meta i t)) else bk_Get B (rl_db rl) metaBucket k)"
    by (simp add: rl' get)
  show "rl_snapshotIndex rl' = rl_snapshotIndex rl" "rl_snapshotTerm rl' = rl_snapshotTerm rl"
    by (simp_all add: rl')
qed

text \<open>Whatever the cursor returns, entries above the boundary stay.\<close>

lemma compact_keys_low:
  "indexKey j \<in> set (takeWhile (\<lambda>k. compact_test i k = Inr True) ks) \<Longrightarrow> j \<le> i"
  by (auto simp: compact_test_def dest!: set_takeWhileD)

text \<open>
  The decoding of keys in \<open>Compact\<close> panics on a key of fewer than eight bytes. All keys of the log
  bucket have eight; that \<open>Next\<close> returns no shorter ones after a deletion is a hypothesis where it is
  needed.
\<close>

definition whole_keys :: "'db bolt \<Rightarrow> bool" where
  "whole_keys B \<longleftrightarrow>
     (\<forall>db k k'. db_ok B db \<longrightarrow> k' \<in> set (cur_Rest B db logBucket k) \<longrightarrow> 8 \<le> length k')"

lemma compact_keys_whole:
  assumes "rl_ok B rl" "whole_keys B" "k \<in> set (compact_keys B rl)"
  shows "8 \<le> length k"
proof (cases "cur_First B (rl_db rl) logBucket")
  case (Some f)
  then have "has_key B (rl_db rl) logBucket f"
    using first_least [OF rl_okD(1,2) [OF assms(1)]] by (simp add: is_least_def)
  then obtain i where "f = indexKey i"
    using assms(1) by (auto simp: has_key_def rl_ok_def db_ok_def stored_entry_def)
  moreover have "db_ok B (rl_db rl)" using assms(1) by (simp add: rl_ok_def)
  ultimately show ?thesis using assms(2,3) Some by (auto simp: compact_keys_def cursor_keys_def whole_keys_def)
qed (use assms(3) in \<open>simp add: compact_keys_def cursor_keys_def\<close>)

lemma compact_keys_first:
  assumes "rl_ok B rl" "log_at B rl j \<noteq> None" "\<And>i. i < j \<Longrightarrow> log_at B rl i = None"
  shows "compact_keys B rl = indexKey j # cur_Rest B (rl_db rl) logBucket (indexKey j)"
proof -
  have j: "has_key B (rl_db rl) logBucket (indexKey j)"
    using assms(1,2) by (simp add: has_key_def log_at_None_iff)
  then obtain f where f: "cur_First B (rl_db rl) logBucket = Some f" "has_key B (rl_db rl) logBucket f" "f \<le> indexKey j"
    using first_least [OF rl_okD(1,2) [OF assms(1)]]
    by (cases "cur_First B (rl_db rl) logBucket") (auto simp: is_least_def)
  then obtain i where i: "f = indexKey i"
    using assms(1) by (auto simp: has_key_def rl_ok_def db_ok_def stored_entry_def)
  then have "log_at B rl i \<noteq> None" using f(2) assms(1) by (simp add: has_key_def log_at_None_iff)
  then have "\<not> i < j" using assms(3) [of i] by auto
  then have "i = j" using f(3) i by (simp add: indexKey_le_iff)
  then show ?thesis using f(1) i by (simp add: compact_keys_def cursor_keys_def)
qed

text \<open>Only entries up to the boundary go, and the first entry of the log is one of them.\<close>

lemma Compact_effect:
  assumes "rl_ok B rl" "Compact B i t rl = (rl', None)"
  shows "i < j \<Longrightarrow> log_at B rl' j = log_at B rl j"
    and "log_at B rl' j \<noteq> None \<Longrightarrow> log_at B rl' j = log_at B rl j"
    and "j \<le> i \<Longrightarrow> (\<And>i. i < j \<Longrightarrow> log_at B rl i = None) \<Longrightarrow> log_at B rl' j = None"
proof -
  note c = Compact_commit(2) [OF assms, of j]
  show "i < j \<Longrightarrow> log_at B rl' j = log_at B rl j" using c compact_keys_low [of j i] by (auto dest: leD)
  show "log_at B rl' j \<noteq> None \<Longrightarrow> log_at B rl' j = log_at B rl j" using c by (auto split: if_splits)
  assume "j \<le> i" "\<And>i. i < j \<Longrightarrow> log_at B rl i = None"
  then show "log_at B rl' j = None"
    using c compact_keys_first [OF assms(1), of j] by (cases "log_at B rl j = None") (auto simp: compact_test_def)
qed

lemma rl_ok_Compact: "rl_ok B rl \<Longrightarrow> Compact B i t rl = (rl', err) \<Longrightarrow> rl_ok B rl'"
  by (cases err) (auto dest: Compact_fail Compact_commit(1))

subsection \<open>Metadata\<close>

lemma LoadMeta_cong:
  "rl_ok B rl \<Longrightarrow> rl_ok B rl' \<Longrightarrow>
     bk_Get B (rl_db rl') metaBucket metaKey = bk_Get B (rl_db rl) metaBucket metaKey \<Longrightarrow>
     LoadMeta B rl' = LoadMeta B rl"
  by (simp add: LoadMeta_def rl_okD(4))

lemma unmarshal_meta:
  "unmarshal dec_meta zero_meta (print_json (json_meta t v)) =
     Inr \<lparr>rm_Term = t, rm_VotedFor = to_valid_utf8 v\<rparr>"
proof -
  have "json_wf (json_meta t v)" by (simp add: json_meta_def)
  then have "unmarshal dec_meta zero_meta (print_json (json_meta t v)) =
      dec_meta (json_clean (json_meta t v)) zero_meta"
    by (rule unmarshal_print)
  then show ?thesis
    by (simp add: json_meta_def dec_meta_def codec_simps json_simps zero_meta_def)
qed

lemma unmarshal_snapshot_meta:
  "unmarshal dec_snapshot_meta zero_snapshot_meta (print_json (json_snapshot_meta i t)) =
     Inr \<lparr>sm_Index = i, sm_Term = t\<rparr>"
proof -
  have "json_wf (json_snapshot_meta i t)" by (simp add: json_snapshot_meta_def)
  then have "unmarshal dec_snapshot_meta zero_snapshot_meta (print_json (json_snapshot_meta i t)) =
      dec_snapshot_meta (json_clean (json_snapshot_meta i t)) zero_snapshot_meta"
    by (rule unmarshal_print)
  then show ?thesis
    by (simp add: json_snapshot_meta_def dec_snapshot_meta_def codec_simps json_simps
        zero_snapshot_meta_def)
qed

lemma SaveMeta_fail: "SaveMeta B t v rl = (rl', Some err) \<Longrightarrow> rl' = rl"
  unfolding SaveMeta_def by (erule rl_Update_cases) auto

lemma SaveMeta_commit:
  assumes "rl_ok B rl" "SaveMeta B t v rl = (rl', None)"
  shows "rl_ok B rl'"
    and "LoadMeta B rl' = Inr (t, to_valid_utf8 v)"
    and "log_at B rl' = log_at B rl"
    and "rl_snapshotIndex rl' = rl_snapshotIndex rl" "rl_snapshotTerm rl' = rl_snapshotTerm rl"
proof -
  obtain db' where rl': "rl' = rl\<lparr>rl_db := db'\<rparr>"
    and put: "bk_Put B (rl_db rl) metaBucket metaKey (print_json (json_meta t v)) = Inr db'"
    using assms(2) unfolding SaveMeta_def by (auto elim: rl_Update_cases)
  note get = put_get [OF rl_okD(1,3) [OF assms(1)] put] and hst = put_has [OF rl_okD(1,3) [OF assms(1)] put]
  have "db_ok B db'"
    using assms(1) by - (rule db_ok_subset [of B "rl_db rl"], simp_all add: rl_ok_def get hst)
  then show "rl_ok B rl'" using assms(1) by (simp add: rl_ok_def rl')
  show "LoadMeta B rl' = Inr (t, to_valid_utf8 v)"
    using assms(1) by (simp add: LoadMeta_def rl' get unmarshal_meta rl_okD(4))
  show "log_at B rl' = log_at B rl" by (rule ext) (simp add: log_at_def Get_def rl' get)
  show "rl_snapshotIndex rl' = rl_snapshotIndex rl" "rl_snapshotTerm rl' = rl_snapshotTerm rl"
    by (simp_all add: rl')
qed

lemma rl_ok_SaveMeta: "rl_ok B rl \<Longrightarrow> SaveMeta B t v rl = (rl', err) \<Longrightarrow> rl_ok B rl'"
  by (cases err) (auto dest: SaveMeta_fail SaveMeta_commit(1))

text \<open>On a healthy disk a vote for an identifier of reasonable length is always saved.\<close>

lemma length_show_u64: "length (show_nat (unat (w :: u64))) \<le> 20"
proof (rule show_nat_length)
  have "unat w < 2 ^ 64" using unsigned_less [of w, where ?'a = nat] by simp
  also have "(2::nat) ^ 64 < 10 ^ 20" by simp
  finally show "unat w < 10 ^ 20" .
qed simp

lemma length_meta: "length (print_json (json_meta t v)) \<le> 6 * length v + 200"
  using length_show_u64 [of t] length_escape [of v] length_escape [of "''term''"]
    length_escape [of "''voted_for''"]
  by (simp add: json_meta_def json_u64_def json_quote_def del: escape.simps)

lemma SaveMeta_ok:
  assumes "rl_ok B rl" "bolt_writes_ok B" "length v \<le> 300000000"
  obtains rl' where "SaveMeta B t v rl = (rl', None)"
proof -
  have "length (print_json (json_meta t v)) \<le> max_value_size"
    using length_meta [of t v] assms(3) by (simp add: max_value_size_def)
  then obtain db' where "bk_Put B (rl_db rl) metaBucket metaKey (print_json (json_meta t v)) = Inr db'"
    using put_ok [OF assms(2) rl_okD(3) [OF assms(1)], of metaKey]
    by (auto simp: metaKey_def max_key_size_def)
  then have "SaveMeta B t v rl = (rl\<lparr>rl_db := db'\<rparr>, None)"
    unfolding SaveMeta_def by (intro rl_Update_ok assms(2) rl_okD(4) [OF assms(1)])
  then show ?thesis by (rule that)
qed

subsection \<open>Last index\<close>

lemma LastIndex_empty:
  assumes "rl_ok B rl" "\<forall>i. log_at B rl i = None"
  shows "LastIndex B rl = rl_snapshotIndex rl"
proof -
  have "\<not> has_key B (rl_db rl) logBucket k" for k
    using assms rl_ok_entry [OF assms(1), of k] unfolding has_key_def by fastforce
  then have "cur_Last B (rl_db rl) logBucket = None"
    using last_greatest [OF rl_okD(1,2) [OF assms(1)]]
    by (cases "cur_Last B (rl_db rl) logBucket") (auto simp: is_greatest_def)
  then show ?thesis by (simp add: LastIndex_def)
qed

lemma LastIndex_greatest:
  assumes "rl_ok B rl" "log_at B rl i = Some e"
  shows "i \<le> LastIndex B rl" "\<exists>e'. log_at B rl (LastIndex B rl) = Some e'"
proof -
  have hk: "has_key B (rl_db rl) logBucket (indexKey i)"
    using assms log_at_None_iff [OF assms(1), of i] by (simp add: has_key_def)
  then obtain k where k: "cur_Last B (rl_db rl) logBucket = Some k"
      "has_key B (rl_db rl) logBucket k" "indexKey i \<le> k"
    using last_greatest [OF rl_okD(1,2) [OF assms(1)]]
    by (cases "cur_Last B (rl_db rl) logBucket") (auto simp: is_greatest_def)
  then obtain d where "bk_Get B (rl_db rl) logBucket k = Some d" unfolding has_key_def by blast
  with assms(1) obtain e' where e': "k = indexKey (le_Index e')" "log_at B rl (le_Index e') = Some e'"
    by (rule rl_ok_entry)
  with k have "LastIndex B rl = le_Index e'" by (simp add: LastIndex_def rl_okD(4) [OF assms(1)])
  with e' k(3) show "i \<le> LastIndex B rl" "\<exists>e'. log_at B rl (LastIndex B rl) = Some e'"
    by (auto simp: indexKey_le_iff)
qed

subsection \<open>Success on a healthy disk\<close>

definition entry_fits :: "log_entry \<Rightarrow> bool" where
  "entry_fits e \<longleftrightarrow> length (print_json (json_entry e)) \<le> max_value_size"

lemma Append_ok:
  assumes "rl_ok B rl" "bolt_writes_ok B" "entry_fits e"
  obtains rl' where "Append B e rl = (rl', None)"
proof -
  obtain db' where "put_entry B e (rl_db rl) = Inr db'"
    using put_ok [OF assms(2) rl_okD(2) [OF assms(1)], of "indexKey (le_Index e)"] assms(3)
    by (auto simp: put_entry_def entry_fits_def max_key_size_def)
  then have "Append B e rl = (rl\<lparr>rl_db := db'\<rparr>, None)"
    unfolding Append_def by (intro rl_Update_ok assms(2) rl_okD(4) [OF assms(1)])
  then show ?thesis by (rule that)
qed

lemma TruncateFrom_ok:
  assumes "rl_ok B rl" "bolt_writes_ok B"
  obtains rl' where "TruncateFrom B i rl = (rl', None)"
proof -
  have "\<exists>db'. delete_loop B logBucket (\<lambda>k. Inr True) (truncate_keys B rl i) (rl_db rl) = Inr db'"
    by (rule delete_loop_ok [OF rl_okD(1) [OF assms(1)] assms(2) rl_okD(2) [OF assms(1)]]) auto
  then obtain db' where "TruncateFrom B i rl = (rl\<lparr>rl_db := db'\<rparr>, None)"
    unfolding TruncateFrom_def truncate_keys_def using rl_Update_ok [OF assms(2) rl_okD(4) [OF assms(1)]] by fastforce
  then show ?thesis by (rule that)
qed

lemma length_snapshot_meta: "length (print_json (json_snapshot_meta i t)) \<le> 200"
  using length_show_u64 [of t] length_show_u64 [of i] length_escape [of "''term''"]
    length_escape [of "''index''"]
  by (simp add: json_snapshot_meta_def json_u64_def json_quote_def del: escape.simps)

lemma Compact_ok:
  assumes "rl_ok B rl" "bolt_writes_ok B" "whole_keys B"
  obtains rl' where "Compact B i t rl = (rl', None)"
proof -
  note spec = rl_okD(1) [OF assms(1)] and has = rl_okD(2,3) [OF assms(1)]
  have "\<exists>tx'. delete_loop B logBucket (compact_test i) (compact_keys B rl) (rl_db rl) = Inr tx'"
    using compact_keys_whole [OF assms(1,3)]
    by (intro delete_loop_ok [OF spec assms(2) has(1)]) (auto simp: compact_test_def dest: leD)
  then obtain t1 where t1: "delete_loop B logBucket (compact_test i) (compact_keys B rl) (rl_db rl) = Inr t1" ..
  have "tx_HasBucket B t1 metaBucket" using delete_loop_get(1) [OF spec has(1) t1] has(2) by simp
  then obtain db' where "bk_Put B t1 metaBucket snapshotKey (print_json (json_snapshot_meta i t)) = Inr db'"
    using put_ok [OF assms(2), of t1 metaBucket snapshotKey "print_json (json_snapshot_meta i t)"]
      length_snapshot_meta [of i t]
    by (auto simp: snapshotKey_def max_key_size_def max_value_size_def)
  with t1 have "Compact B i t rl = (rl\<lparr>rl_db := db'\<rparr>, None)"
    unfolding Compact_def compact_keys_def by (intro rl_Update_ok assms(2) rl_okD(4) [OF assms(1)]) simp
  then show ?thesis by (rule that)
qed

subsection \<open>Opening\<close>

lemma newRaftLog_reopen:
  assumes "bolt_spec B" "db_ok B db" "bolt_Open path = Inr db"
    and "newRaftLog B mkdirAll bolt_Open path = Inr rl"
  shows "rl_ok B rl" "log_at B rl i = log_at B (rl\<lparr>rl_db := db\<rparr>) i"
    "LoadMeta B rl = LoadMeta B (rl\<lparr>rl_db := db\<rparr>)"
    "rl_snapshotIndex rl = sm_Index (load_snapshot_meta B db)"
    "rl_snapshotTerm rl = sm_Term (load_snapshot_meta B db)"
proof -
  obtain t db' where c1: "tx_CreateBucketIfNotExists B db logBucket = Inr t"
    and c2: "tx_CreateBucketIfNotExists B t metaBucket = Inr db'"
    and rl: "rl = \<lparr>rl_db = db', rl_snapshotIndex = sm_Index (load_snapshot_meta B db'),
      rl_snapshotTerm = sm_Term (load_snapshot_meta B db'), rl_closed = False\<rparr>"
    using assms(3,4)
    by (auto simp: newRaftLog_def db_Update_def Let_def split: option.splits sum.splits prod.splits)
  have has: "tx_HasBucket B db logBucket" "tx_HasBucket B db metaBucket"
    using assms(2) by (simp_all add: db_ok_def)
  note h1 = create_if_not_exists_has [OF assms(1) c1] and h2 = create_if_not_exists_has [OF assms(1) c2]
  have hst: "tx_HasBucket B db' c = tx_HasBucket B db c" for c
    using has by (auto simp: h1 h2)
  have get: "bk_Get B db' c k = bk_Get B db c k" for c k
    using has by (simp add: create_if_not_exists_get [OF assms(1) c1]
        create_if_not_exists_get [OF assms(1) c2] h1)
  have "db_ok B db'"
    using assms(2) by - (rule db_ok_subset [of B db], simp_all add: get hst)
  then show "rl_ok B rl" using assms(1) by (simp add: rl_ok_def rl)
  show "log_at B rl i = log_at B (rl\<lparr>rl_db := db\<rparr>) i"
    "LoadMeta B rl = LoadMeta B (rl\<lparr>rl_db := db\<rparr>)"
    by (simp_all add: log_at_def Get_def LoadMeta_def rl get)
  show "rl_snapshotIndex rl = sm_Index (load_snapshot_meta B db)"
    "rl_snapshotTerm rl = sm_Term (load_snapshot_meta B db)"
    by (simp_all add: rl load_snapshot_meta_def get)
qed

lemma newRaftLog_ok:
  assumes "bolt_writes_ok B" "mkdirAll (extractDir path) = None" "bolt_Open path = Inr db"
  obtains rl where "newRaftLog B mkdirAll bolt_Open path = Inr rl"
proof -
  have create: "\<exists>db'. tx_CreateBucketIfNotExists B db b = Inr db'" if "b \<noteq> []" for db b
    using assms(1) that unfolding bolt_writes_ok_def by blast
  obtain t where c1: "tx_CreateBucketIfNotExists B db logBucket = Inr t"
    using create [of logBucket db] by (auto simp: logBucket_def)
  obtain db' where c2: "tx_CreateBucketIfNotExists B t metaBucket = Inr db'"
    using create [of metaBucket t] by (auto simp: metaBucket_def)
  show ?thesis
    using that assms c1 c2 by (simp add: newRaftLog_def db_Update_def commit_ok Let_def)
qed

text \<open>A log that is opened for the first time is empty.\<close>

lemma newRaftLog_fresh:
  assumes "bolt_spec B" "\<not> tx_HasBucket B db logBucket" "\<not> tx_HasBucket B db metaBucket"
    "bolt_Open path = Inr db" "newRaftLog B mkdirAll bolt_Open path = Inr rl"
  shows "rl_ok B rl" "log_at B rl i = None" "LoadMeta B rl = Inr (0, [])"
    "rl_snapshotIndex rl = 0" "rl_snapshotTerm rl = 0"
proof -
  obtain t db' where c1: "tx_CreateBucketIfNotExists B db logBucket = Inr t"
    and c2: "tx_CreateBucketIfNotExists B t metaBucket = Inr db'"
    and rl: "rl = \<lparr>rl_db = db', rl_snapshotIndex = sm_Index (load_snapshot_meta B db'),
      rl_snapshotTerm = sm_Term (load_snapshot_meta B db'), rl_closed = False\<rparr>"
    using assms(4,5)
    by (auto simp: newRaftLog_def db_Update_def Let_def split: option.splits sum.splits prod.splits)
  note h1 = create_if_not_exists_has [OF assms(1) c1] and h2 = create_if_not_exists_has [OF assms(1) c2]
  have get: "bk_Get B db' logBucket k = None" "bk_Get B db' metaBucket k = None" for k
    using assms(2,3) by (simp_all add: create_if_not_exists_get [OF assms(1) c1]
        create_if_not_exists_get [OF assms(1) c2] h1)
  show "rl_ok B rl" using assms(1) by (simp add: rl_ok_def db_ok_def rl get h1 h2)
  show "log_at B rl i = None" "LoadMeta B rl = Inr (0, [])" "rl_snapshotIndex rl = 0"
    "rl_snapshotTerm rl = 0"
    by (simp_all add: log_at_def Get_def LoadMeta_def rl get load_snapshot_meta_def
        zero_snapshot_meta_def)
qed

section \<open>The contract of a replicated log\<close>

text \<open>
  What \<open>raft.go\<close> relies on: entries are found where they were appended, truncation removes the entry
  at the given index and never adds or changes one, \<open>LastIndex\<close> is the greatest index in use, or the
  snapshot boundary of an empty log.
\<close>

locale replicated_log =
  fixes ok :: "'l \<Rightarrow> bool"
    and at :: "'l \<Rightarrow> u64 \<Rightarrow> log_entry option"
    and append :: "log_entry \<Rightarrow> 'l \<Rightarrow> 'l \<times> go_error option"
    and truncate :: "u64 \<Rightarrow> 'l \<Rightarrow> 'l \<times> go_error option"
    and last_index :: "'l \<Rightarrow> u64"
    and base :: "'l \<Rightarrow> u64"
  assumes append_ok: "ok l \<Longrightarrow> append e l = (l', err) \<Longrightarrow> ok l'"
    and append_at: "ok l \<Longrightarrow> append e l = (l', None) \<Longrightarrow>
      at l' i = (if i = le_Index e then Some (clean_entry e) else at l i)"
    and append_base: "ok l \<Longrightarrow> append e l = (l', None) \<Longrightarrow> base l' = base l"
    and truncate_ok: "ok l \<Longrightarrow> truncate i l = (l', err) \<Longrightarrow> ok l'"
    and truncate_at: "ok l \<Longrightarrow> truncate j l = (l', None) \<Longrightarrow> at l' i \<noteq> None \<Longrightarrow> i \<noteq> j \<and> at l' i = at l i"
    and truncate_base: "ok l \<Longrightarrow> truncate i l = (l', None) \<Longrightarrow> base l' = base l"
    and last_empty: "ok l \<Longrightarrow> \<forall>i. at l i = None \<Longrightarrow> last_index l = base l"
    and last_upper: "ok l \<Longrightarrow> at l i = Some e \<Longrightarrow> i \<le> last_index l"
    and last_used: "ok l \<Longrightarrow> at l i = Some e \<Longrightarrow> at l (last_index l) \<noteq> None"
begin

definition contiguous :: "'l \<Rightarrow> bool" where
  "contiguous l \<longleftrightarrow> ok l \<and> base l \<le> last_index l \<and>
     (\<forall>i. at l i \<noteq> None \<longleftrightarrow> base l < i \<and> i \<le> last_index l)"

text \<open>The greatest index in use determines \<open>LastIndex\<close>.\<close>

lemma last_index_eqI:
  assumes "ok l" "at l m \<noteq> None" "\<And>i. at l i \<noteq> None \<Longrightarrow> i \<le> m"
  shows "last_index l = m"
  using assms last_upper [of l m] last_used [of l m] by (metis antisym not_None_eq)

lemma last_index_append:
  assumes "ok l" "append e l = (l', None)" "\<And>i. at l i \<noteq> None \<Longrightarrow> i \<le> le_Index e"
  shows "last_index l' = le_Index e"
  using assms append_ok [OF assms(1,2)] append_at [OF assms(1,2)]
  by (intro last_index_eqI) (auto split: if_splits)

lemma contiguous_append:
  assumes "contiguous l" "append e l = (l', None)" "le_Index e = last_index l + 1" "last_index l \<noteq> - 1"
  shows "contiguous l'" "last_index l' = last_index l + 1"
proof -
  have ok: "ok l" and at: "at l i \<noteq> None \<longleftrightarrow> base l < i \<and> i \<le> last_index l" for i
    using assms(1) by (auto simp: contiguous_def)
  have lt: "last_index l < last_index l + 1"
    using assms(4) by (simp add: word_less_nat_alt unat_inc)
  show last: "last_index l' = last_index l + 1"
    using last_index_append [OF ok assms(2)] assms(3) at lt by (metis less_imp_le order_trans)
  have "at l' i \<noteq> None \<longleftrightarrow> base l < i \<and> i \<le> last_index l + 1" for i
  proof -
    have "i \<le> last_index l + 1 \<longleftrightarrow> i = last_index l + 1 \<or> i \<le> last_index l"
      using assms(4) by (rule word_le_inc_iff)
    moreover have "base l < last_index l + 1"
      using assms(1) lt by (auto simp: contiguous_def)
    ultimately show ?thesis
      using at [of i] append_at [OF ok assms(2), of i] assms(3) by auto
  qed
  then show "contiguous l'"
    using assms(1) append_ok [OF ok assms(2)] append_base [OF ok assms(2)] last lt
    by (auto simp: contiguous_def)
qed

text \<open>A gapless log is gapless after a truncation exactly when everything from the cut on is gone, and only that.\<close>

lemma contiguous_truncate:
  assumes "contiguous l" "truncate i l = (l', None)" "base l < i" "i \<le> last_index l"
  shows "contiguous l' \<and> last_index l' = i - 1 \<longleftrightarrow>
    (\<forall>j. base l < j \<and> j \<le> last_index l \<longrightarrow> (at l' j = None \<longleftrightarrow> i \<le> j))" (is "?L \<longleftrightarrow> ?R")
proof -
  have ok: "ok l" and at: "at l j \<noteq> None \<longleftrightarrow> base l < j \<and> j \<le> last_index l" for j
    using assms(1) by (auto simp: contiguous_def)
  note ok' = truncate_ok [OF ok assms(2)] and base' = truncate_base [OF ok assms(2)]
  have pred: "j < i \<longleftrightarrow> j \<le> i - 1" for j
    using assms(3) by (intro word_less_iff_le_dec) (auto dest: le_less_trans [OF word_zero_le])
  have le: "base l \<le> i - 1" using assms(3) by (rule word_dec_less)
  show ?thesis
  proof
    assume ?L
    then have "at l' j \<noteq> None \<longleftrightarrow> base l < j \<and> j \<le> i - 1" for j
      using base' unfolding contiguous_def by metis
    then have "at l' j = None \<longleftrightarrow> \<not> (base l < j \<and> j < i)" for j using pred by blast
    then show ?R by (auto simp: not_less dest: leD)
  next
    assume R: ?R
    have at': "at l' j \<noteq> None \<longleftrightarrow> base l < j \<and> j \<le> i - 1" for j
    proof (cases "at l j = None")
      case True
      then have "at l' j = None" using truncate_at [OF ok assms(2), of j] by fastforce
      moreover have "\<not> (base l < j \<and> j < i)" using at [of j] True assms(4) by auto
      ultimately show ?thesis using pred [of j] by simp
    next
      case False
      then show ?thesis using at [of j] R pred [of j] by (auto simp: not_less [symmetric] simp del: not_less)
    qed
    have last: "last_index l' = i - 1"
    proof (cases "base l = i - 1")
      case True
      then have "\<forall>j. at l' j = None" using at' by fastforce
      then show ?thesis using last_empty [OF ok'] base' True by simp
    next
      case False
      then show ?thesis using at' le by (intro last_index_eqI [OF ok']) auto
    qed
    then show ?L using ok' base' at' le by (auto simp: contiguous_def)
  qed
qed

end

interpretation rlog: replicated_log
  "rl_ok B" "log_at B" "Append B" "TruncateFrom B" "LastIndex B" rl_snapshotIndex
  for B :: "'db bolt"
  by unfold_locales
    (auto intro: rl_ok_Append rl_ok_TruncateFrom LastIndex_empty LastIndex_greatest(1)
      dest: LastIndex_greatest(2) truncate_keys_at
      simp: Append_commit(2,4) TruncateFrom_commit(2,4) split: if_splits)

end
