(* ===== verification/Leader_State.thy ===== *)
theory Leader_State
  imports Types
begin

text \<open>
  \<open>internal/consensus/state.go\<close>: the volatile state of a leader and the rule that advances the
  commit index. A Go map from node ids to indices is an association list with distinct keys; a
  missing key reads as the zero index.
\<close>

section \<open>Model\<close>

type_synonym index_map = "(string \<times> u64) list"

definition index_get :: "index_map \<Rightarrow> string \<Rightarrow> u64" where
  "index_get m k = (case map_of m k of None \<Rightarrow> 0 | Some i \<Rightarrow> i)"

record leader_state =
  nextIndex :: index_map
  matchIndex :: index_map

definition newLeaderState :: "peer list \<Rightarrow> u64 \<Rightarrow> leader_state" where
  "newLeaderState peers lastIndex =
     foldl (\<lambda>ls p. \<lparr>nextIndex = AList.update (p_ID p) (lastIndex + 1) (nextIndex ls),
                    matchIndex = AList.update (p_ID p) 0 (matchIndex ls)\<rparr>)
       \<lparr>nextIndex = [], matchIndex = []\<rparr> peers"

definition replica_count :: "index_map \<Rightarrow> u64 \<Rightarrow> nat" where
  "replica_count ms n = 1 + length (filter (\<lambda>p. n \<le> snd p) ms)"

definition commit_majority :: "index_map \<Rightarrow> nat" where
  "commit_majority ms = (length ms + 1) div 2 + 1"

function commit_loop :: "index_map \<Rightarrow> u64 \<Rightarrow> u64 \<Rightarrow> (u64 \<Rightarrow> u64) \<Rightarrow> u64 \<Rightarrow> u64" where
  "commit_loop ms currentCommit currentTerm termAt n =
     (if currentCommit < n then
        (if termAt n \<noteq> currentTerm then commit_loop ms currentCommit currentTerm termAt (n - 1)
         else if commit_majority ms \<le> replica_count ms n then n
         else commit_loop ms currentCommit currentTerm termAt (n - 1))
      else 0)"
  by pat_completeness auto
termination
proof (relation "measure (\<lambda>(ms, c, t, f, n). unat n)", goal_cases)
  case (2 ms c t f n)
  then have "0 < n" using le_less_trans [OF word_zero_le] by blast
  then show ?case by (simp add: unat_dec word_less_nat_alt)
next
  case (3 ms c t f n)
  then have "0 < n" using le_less_trans [OF word_zero_le] by blast
  then show ?case by (simp add: unat_dec word_less_nat_alt)
qed simp

declare commit_loop.simps [simp del]

definition commitCandidate :: "leader_state \<Rightarrow> u64 \<Rightarrow> u64 \<Rightarrow> u64 \<Rightarrow> (u64 \<Rightarrow> u64) \<Rightarrow> u64" where
  "commitCandidate ls currentCommit lastIndex currentTerm termAt =
     commit_loop (matchIndex ls) currentCommit currentTerm termAt lastIndex"

section \<open>The fresh leader state\<close>

lemma newLeaderState_snoc:
  "newLeaderState (ps @ [p]) i =
     \<lparr>nextIndex = AList.update (p_ID p) (i + 1) (nextIndex (newLeaderState ps i)),
      matchIndex = AList.update (p_ID p) 0 (matchIndex (newLeaderState ps i))\<rparr>"
  by (simp add: newLeaderState_def)

lemma newLeaderState_maps:
  "map_of (nextIndex (newLeaderState ps i)) k = (if k \<in> p_ID ` set ps then Some (i + 1) else None)"
  "map_of (matchIndex (newLeaderState ps i)) k = (if k \<in> p_ID ` set ps then Some 0 else None)"
  by (induction ps rule: rev_induct)
    (auto simp: newLeaderState_snoc update_conv newLeaderState_def [of "[]"])

lemma newLeaderState_distinct:
  "distinct (map fst (matchIndex (newLeaderState ps i)))"
  by (induction ps rule: rev_induct)
    (simp_all add: newLeaderState_snoc distinct_update newLeaderState_def [of "[]"])

section \<open>The commit rule\<close>

text \<open>
  The reference: an index may be committed when it lies above the current commit index, its entry is
  of the current term, and a strict majority of the cluster (the leader and the peers listed in
  \<open>matchIndex\<close>) holds it.
\<close>

definition committable :: "index_map \<Rightarrow> u64 \<Rightarrow> u64 \<Rightarrow> (u64 \<Rightarrow> u64) \<Rightarrow> u64 \<Rightarrow> u64 \<Rightarrow> bool" where
  "committable ms c t termAt hi n \<longleftrightarrow> c < n \<and> n \<le> hi \<and> termAt n = t \<and>
     length ms + 1 < 2 * (1 + card {p. \<exists>i. map_of ms p = Some i \<and> n \<le> i})"

lemma replica_count_card:
  assumes "distinct (map fst ms)"
  shows "replica_count ms n = 1 + card {p. \<exists>i. map_of ms p = Some i \<and> n \<le> i}"
proof -
  let ?f = "filter (\<lambda>p. n \<le> snd p) ms"
  have "{p. \<exists>i. map_of ms p = Some i \<and> n \<le> i} = set (map fst ?f)"
    using assms by (force simp: map_of_eq_Some_iff)
  moreover have "card (set (map fst ?f)) = length (map fst ?f)"
    using assms by (intro distinct_card distinct_map_filter)
  ultimately show ?thesis
    by (simp only: replica_count_def length_map)
qed

lemma majority_strict: "commit_majority ms \<le> k \<longleftrightarrow> length ms + 1 < 2 * k"
  unfolding commit_majority_def by linarith

lemma committable_iff:
  "distinct (map fst ms) \<Longrightarrow> committable ms c t termAt hi n \<longleftrightarrow>
     c < n \<and> n \<le> hi \<and> termAt n = t \<and> commit_majority ms \<le> replica_count ms n"
  by (simp add: committable_def majority_strict replica_count_card)

lemma committable_mono:
  assumes "0 < hi"
  shows "committable ms c t termAt hi n \<longleftrightarrow>
    committable ms c t termAt (hi - 1) n \<or> n = hi \<and> committable ms c t termAt hi hi"
  using word_less_iff_le_dec [OF assms, of n] by (auto simp: committable_def)

lemma commit_loop_spec:
  assumes "distinct (map fst ms)"
  shows "(if commit_loop ms c t termAt hi = 0 then \<forall>n. \<not> committable ms c t termAt hi n
     else committable ms c t termAt hi (commit_loop ms c t termAt hi) \<and>
       (\<forall>n. committable ms c t termAt hi n \<longrightarrow> n \<le> commit_loop ms c t termAt hi))"
  using assms
proof (induction ms c t termAt hi rule: commit_loop.induct)
  case (1 ms c t termAt n)
  show ?case
  proof (cases "c < n")
    case False
    then have "commit_loop ms c t termAt n = 0" by (simp add: commit_loop.simps)
    moreover have "\<not> committable ms c t termAt n m" for m
      using False by (auto simp: committable_def)
    ultimately show ?thesis by simp
  next
    case True
    then have pos: "0 < n" using le_less_trans [OF word_zero_le] by blast
    show ?thesis
    proof (cases "termAt n = t \<and> commit_majority ms \<le> replica_count ms n")
      case hit: True
      then have "commit_loop ms c t termAt n = n" using True by (simp add: commit_loop.simps)
      moreover have "committable ms c t termAt n n"
        using hit True 1(3) by (simp add: committable_iff)
      ultimately show ?thesis using pos by (auto simp: committable_def)
    next
      case miss: False
      then have eq: "commit_loop ms c t termAt n = commit_loop ms c t termAt (n - 1)"
        using True by (auto simp: commit_loop.simps [of _ _ _ _ n])
      have "\<not> committable ms c t termAt n n" using miss 1(3) by (simp add: committable_iff)
      then have "committable ms c t termAt n m \<longleftrightarrow> committable ms c t termAt (n - 1) m" for m
        using committable_mono [OF pos, of ms c t termAt m] by blast
      then show ?thesis using 1 True miss eq by (cases "termAt n = t") simp_all
    qed
  qed
qed

end
