(* ===== verification/Config.thy ===== *)
theory Config
  imports Prelude
begin

text \<open>
  \<open>config/config.go\<close>: the configuration of a node, its defaults and its validation. Reading the
  file (\<open>os.ReadFile\<close>) and parsing YAML (\<open>yaml.Unmarshal\<close>, a third-party package) are arguments
  of \<open>Load\<close>. Go's \<open>int\<close> has 64 bits; \<open>int64\<close> writes the wrap-around out where the code computes
  with such values.
\<close>

section \<open>Model\<close>

definition int64 :: "int \<Rightarrow> int" where
  "int64 x = sint (word_of_int x :: 64 word)"

record node_config =
  nc_ID :: string
  nc_Addr :: string

record raft_config =
  ElectionTimeoutMinMs :: int
  ElectionTimeoutMaxMs :: int
  HeartbeatIntervalMs :: int
  SnapshotThreshold :: int

record storage_config =
  sc_Type :: string
  sc_DataDir :: string

record server_config =
  srv_Addr :: string

record config =
  cfg_Node :: node_config
  cfg_Peers :: "node_config list"
  cfg_Raft :: raft_config
  cfg_Storage :: storage_config
  cfg_Server :: server_config

definition default_int :: "int \<Rightarrow> int \<Rightarrow> int" where
  "default_int d x = (if x = 0 then d else x)"

definition default_string :: "string \<Rightarrow> string \<Rightarrow> string" where
  "default_string d s = (if s = [] then d else s)"

definition applyDefaults :: "config \<Rightarrow> config" where
  "applyDefaults cfg = cfg
     \<lparr>cfg_Raft := (cfg_Raft cfg)
        \<lparr>ElectionTimeoutMinMs := default_int 150 (ElectionTimeoutMinMs (cfg_Raft cfg)),
         ElectionTimeoutMaxMs := default_int 300 (ElectionTimeoutMaxMs (cfg_Raft cfg)),
         HeartbeatIntervalMs := default_int 50 (HeartbeatIntervalMs (cfg_Raft cfg)),
         SnapshotThreshold := default_int 10000 (SnapshotThreshold (cfg_Raft cfg))\<rparr>,
      cfg_Storage := (cfg_Storage cfg)
        \<lparr>sc_Type := default_string ''persistent'' (sc_Type (cfg_Storage cfg)),
         sc_DataDir := default_string ''./data'' (sc_DataDir (cfg_Storage cfg))\<rparr>,
      cfg_Server := (cfg_Server cfg)
        \<lparr>srv_Addr := default_string '':8080'' (srv_Addr (cfg_Server cfg))\<rparr>\<rparr>"

definition validate :: "config \<Rightarrow> go_error option" where
  "validate cfg =
     (if nc_ID (cfg_Node cfg) = [] then Some (ErrMsg ''node.id is required'')
      else if nc_Addr (cfg_Node cfg) = [] then Some (ErrMsg ''node.addr is required'')
      else if ElectionTimeoutMaxMs (cfg_Raft cfg) \<le> ElectionTimeoutMinMs (cfg_Raft cfg) then
        Some (ErrMsg ''election_timeout_min_ms must be < election_timeout_max_ms'')
      else if ElectionTimeoutMinMs (cfg_Raft cfg) \<le> HeartbeatIntervalMs (cfg_Raft cfg) then
        Some (ErrMsg ''heartbeat_interval_ms must be < election_timeout_min_ms'')
      else None)"

definition Load :: "(string \<Rightarrow> bytes go) \<Rightarrow> (bytes \<Rightarrow> config go) \<Rightarrow> string \<Rightarrow> config go" where
  "Load readFile yaml_Unmarshal path =
     (case readFile path of
        Inl e \<Rightarrow> Inl (Wrapped ''reading config'' e)
      | Inr data \<Rightarrow>
          (case yaml_Unmarshal data of
             Inl e \<Rightarrow> Inl (Wrapped ''parsing config'' e)
           | Inr cfg \<Rightarrow>
               (let cfg' = applyDefaults cfg in
                case validate cfg' of Some e \<Rightarrow> Inl e | None \<Rightarrow> Inr cfg')))"

section \<open>Facts\<close>

lemma applyDefaults_idem [simp]: "applyDefaults (applyDefaults cfg) = applyDefaults cfg"
  by (simp add: applyDefaults_def default_int_def default_string_def)

lemma validate_None_iff:
  "validate cfg = None \<longleftrightarrow> nc_ID (cfg_Node cfg) \<noteq> [] \<and> nc_Addr (cfg_Node cfg) \<noteq> [] \<and>
     HeartbeatIntervalMs (cfg_Raft cfg) < ElectionTimeoutMinMs (cfg_Raft cfg) \<and>
     ElectionTimeoutMinMs (cfg_Raft cfg) < ElectionTimeoutMaxMs (cfg_Raft cfg)"
  by (auto simp: validate_def)

lemma Load_Inr:
  assumes "Load readFile yaml path = Inr cfg"
  obtains cfg0 where "cfg = applyDefaults cfg0" "validate cfg = None"
  using assms by (auto simp: Load_def Let_def split: sum.splits option.splits)

lemma int64_id: "- (2 ^ 63) \<le> x \<Longrightarrow> x < 2 ^ 63 \<Longrightarrow> int64 x = x"
  unfolding int64_def by (simp add: sint_sbintrunc' signed_take_bit_int_eq_self)

end
