(* ===== verification/Storage_Spec.thy ===== *)
theory Storage_Spec
  imports Storage
begin

text \<open>
  The contract of the \<open>Engine\<close> interface as a locale, and the proof that both engines honour it.
  The abstract state of an engine is the finite map from keys to values that it holds. A snapshot
  denotes such a map; since both engines write the same JSON text, a snapshot taken by one kind of
  engine can be restored into the other.
\<close>

section \<open>Snapshots as texts\<close>

definition snapshot_denotes :: "bytes \<Rightarrow> (string \<rightharpoonup> bytes) \<Rightarrow> bool" where
  "snapshot_denotes data m \<longleftrightarrow>
     (\<exists>d. unmarshal_bytes_map data = Inr (Some d) \<and> distinct (map fst d) \<and> map_of d = m)"

abbreviation insert_all :: "(string \<times> bytes) list \<Rightarrow> (string \<times> bytes) list \<Rightarrow> (string \<times> bytes) list" where
  "insert_all xs m \<equiv> fold (\<lambda>kv r. AList.update (fst kv) (snd kv) r) xs m"

lemma map_of_insert_all:
  "map_of (insert_all xs m) k = (case map_of (rev xs) k of Some v \<Rightarrow> Some v | None \<Rightarrow> map_of m k)"
  by (induction xs arbitrary: m) (auto simp: update_conv map_of_append map_add_def split: option.splits)

lemma distinct_insert_all: "distinct (map fst m) \<Longrightarrow> distinct (map fst (insert_all xs m))"
  by (induction xs arbitrary: m) (auto simp: distinct_update)

lemma map_of_insert_all_distinct:
  assumes "distinct (map fst xs)"
  shows "map_of (insert_all xs []) = map_of xs"
proof
  have "map_of (rev xs) = map_of xs"
    using assms by (simp add: map_of_inject_set rev_map [symmetric])
  then show "map_of (insert_all xs []) k = map_of xs k" for k
    by (simp add: map_of_insert_all split: option.split)
qed

lemma decode_bytes_map_json:
  "decode_bytes_map (map (\<lambda>kv. (fst kv, json_bytes (snd kv))) xs) m = Inr (insert_all xs m)"
  by (induction xs arbitrary: m) (auto simp: bytes_of_json_bytes)

lemma members_clean_map:
  "members_clean (map (\<lambda>kv. (fst kv, json_bytes (snd kv))) xs) =
     map (\<lambda>kv. (to_valid_utf8 (fst kv), json_bytes (snd kv))) xs"
  by (induction xs) auto

lemma members_wf_map: "members_wf (map (\<lambda>kv. (fst kv, json_bytes (snd kv))) xs)"
  by (induction xs) auto

lemma snapshot_text:
  assumes "distinct (map fst d)" "\<forall>k\<in>fst ` set d. utf8_valid k"
  shows "snapshot_denotes (print_json (json_bytes_map d)) (map_of d)"
proof -
  let ?s = "sort_key fst d"
  have "json_wf (json_bytes_map d)" by (simp add: json_bytes_map_def members_wf_map)
  then have "parse_json (print_json (json_bytes_map d)) = Some (json_clean (json_bytes_map d))"
    by (rule parse_print_json)
  moreover have "map (\<lambda>kv. (to_valid_utf8 (fst kv), json_bytes (snd kv))) ?s =
      map (\<lambda>kv. (fst kv, json_bytes (snd kv))) ?s"
    using assms(2) by (auto simp: utf8_valid_def)
  ultimately have "unmarshal_bytes_map (print_json (json_bytes_map d)) = Inr (Some (insert_all ?s []))"
    by (simp add: unmarshal_bytes_map_def json_bytes_map_def members_clean_map decode_bytes_map_json)
  moreover have "distinct (map fst ?s)" using assms(1) by (simp add: distinct_map)
  ultimately show ?thesis
    unfolding snapshot_denotes_def
    by (auto simp: distinct_insert_all map_of_insert_all_distinct map_of_sort_key_fst assms(1))
qed

section \<open>The contract\<close>

locale storage_engine =
  fixes E :: "'st engine"
    and ok :: "'st \<Rightarrow> bool"
    and contents :: "'st \<Rightarrow> string \<rightharpoonup> bytes"
  assumes get_contents: "ok s \<Longrightarrow>
      eng_Get E k s = (case contents s k of None \<Rightarrow> Inl ErrKeyNotFound | Some v \<Rightarrow> Inr v)"
    and put_fail: "ok s \<Longrightarrow> eng_Put E k v s = (s', Some e) \<Longrightarrow> s' = s"
    and put_commit: "ok s \<Longrightarrow> eng_Put E k v s = (s', None) \<Longrightarrow>
      ok s' \<and> contents s' = (contents s)(k \<mapsto> v)"
    and delete_fail: "ok s \<Longrightarrow> eng_Delete E k s = (s', Some e) \<Longrightarrow> s' = s"
    and delete_commit: "ok s \<Longrightarrow> eng_Delete E k s = (s', None) \<Longrightarrow>
      ok s' \<and> contents s' = (contents s)(k := None)"
    and scan_contents: "ok s \<Longrightarrow> \<exists>m. eng_Scan E p s = Inr m \<and>
      map_of m = (\<lambda>k. if has_prefix k p then contents s k else None)"
    and snapshot_contents: "ok s \<Longrightarrow> \<forall>k. contents s k \<noteq> None \<longrightarrow> utf8_valid k \<Longrightarrow>
      \<exists>d. eng_Snapshot E s = Inr d \<and> snapshot_denotes d (contents s)"
    and restore_fail: "ok s \<Longrightarrow> eng_RestoreSnapshot E d s = (s', Some e) \<Longrightarrow> s' = s"
    and restore_commit: "ok s \<Longrightarrow> snapshot_denotes d m \<Longrightarrow> eng_RestoreSnapshot E d s = (s', None) \<Longrightarrow>
      ok s' \<and> contents s' = m"
begin

lemma put_ok_state: "ok s \<Longrightarrow> eng_Put E k v s = (s', err) \<Longrightarrow> ok s'"
  by (cases err) (auto dest: put_fail put_commit)

lemma delete_ok_state: "ok s \<Longrightarrow> eng_Delete E k s = (s', err) \<Longrightarrow> ok s'"
  by (cases err) (auto dest: delete_fail delete_commit)

text \<open>Restoring a snapshot of an engine gives an engine with the same contents.\<close>

lemma snapshot_restore:
  assumes "ok s" "\<forall>k. contents s k \<noteq> None \<longrightarrow> utf8_valid k" "ok t"
    "eng_Snapshot E s = Inr d" "eng_RestoreSnapshot E d t = (t', None)"
  shows "contents t' = contents s"
  using snapshot_contents [OF assms(1,2)] restore_commit [OF assms(3) _ assms(5)] assms(4) by auto

end

section \<open>The in-memory engine\<close>

definition mem_ok :: "memory_engine \<Rightarrow> bool" where
  "mem_ok m \<longleftrightarrow> (\<exists>d. me_data m = Some d \<and> distinct (map fst d))"

definition mem_contents :: "memory_engine \<Rightarrow> string \<rightharpoonup> bytes" where
  "mem_contents m = map_of (me_items m)"

lemma mem_ok_new [simp]: "mem_ok NewMemoryEngine" "mem_contents NewMemoryEngine = Map.empty"
  by (simp_all add: mem_ok_def mem_contents_def NewMemoryEngine_def me_items_def)

lemma mem_snapshot_ok:
  assumes "mem_ok m" "\<forall>k. mem_contents m k \<noteq> None \<longrightarrow> utf8_valid k"
  shows "\<exists>d. mem_Snapshot m = Inr d \<and> snapshot_denotes d (mem_contents m)"
proof -
  obtain d where d: "me_data m = Some d" "distinct (map fst d)" using assms(1) by (auto simp: mem_ok_def)
  then have "\<forall>k\<in>fst ` set d. utf8_valid k"
    using assms(2) by (auto simp: mem_contents_def me_items_def map_of_eq_None_iff image_iff)
  with d show ?thesis
    by (simp add: mem_Snapshot_def mem_contents_def me_items_def snapshot_text)
qed

interpretation mem: storage_engine memory_ops mem_ok mem_contents
proof unfold_locales
  show "mem_ok s \<Longrightarrow> \<exists>m. eng_Scan memory_ops p s = Inr m \<and>
      map_of m = (\<lambda>k. if has_prefix k p then mem_contents s k else None)" for s p
    by (simp add: memory_ops_def mem_Scan_def mem_contents_def fun_eq_iff
        map_of_filter_fst [where P = "\<lambda>k. has_prefix k p"])
  show "mem_ok s \<Longrightarrow> \<forall>k. mem_contents s k \<noteq> None \<longrightarrow> utf8_valid k \<Longrightarrow>
      \<exists>d. eng_Snapshot memory_ops s = Inr d \<and> snapshot_denotes d (mem_contents s)" for s
    using mem_snapshot_ok by (simp add: memory_ops_def)
  show "mem_ok s \<Longrightarrow> snapshot_denotes d m \<Longrightarrow> eng_RestoreSnapshot memory_ops d s = (s', None) \<Longrightarrow>
      mem_ok s' \<and> mem_contents s' = m" for s d m s'
    by (auto simp: memory_ops_def mem_RestoreSnapshot_def snapshot_denotes_def mem_ok_def
        mem_contents_def me_items_def)
qed (auto simp: memory_ops_def mem_Get_def mem_Put_def mem_Delete_def mem_RestoreSnapshot_def
    mem_ok_def mem_contents_def me_items_def update_conv' delete_conv' distinct_update distinct_delete
    split: option.splits sum.splits)

section \<open>The bbolt engine\<close>

definition bolt_ok :: "'db bolt \<Rightarrow> 'db \<Rightarrow> bool" where
  "bolt_ok B db \<longleftrightarrow> bolt_spec B \<and> tx_HasBucket B db kvBucket"

definition bolt_contents :: "'db bolt \<Rightarrow> 'db \<Rightarrow> string \<rightharpoonup> bytes" where
  "bolt_contents B db = bk_Get B db kvBucket"

lemma bolt_Put_commit:
  assumes "bolt_ok B db" "bolt_Put B k v db = (db', None)"
  shows "bolt_ok B db'" "bolt_contents B db' = (bolt_contents B db)(k \<mapsto> v)"
proof -
  have spec: "bolt_spec B" and has: "tx_HasBucket B db kvBucket" using assms(1) by (auto simp: bolt_ok_def)
  have put: "bk_Put B db kvBucket k v = Inr db'"
    using assms(2) unfolding bolt_Put_def by (metis db_Update_cases option.distinct(1) prod.inject)
  show "bolt_ok B db'" using spec has put_has [OF spec has put] by (simp add: bolt_ok_def)
  show "bolt_contents B db' = (bolt_contents B db)(k \<mapsto> v)"
    by (rule ext) (simp add: bolt_contents_def put_get [OF spec has put])
qed

lemma bolt_Delete_commit:
  assumes "bolt_ok B db" "bolt_Delete B k db = (db', None)"
  shows "bolt_ok B db'" "bolt_contents B db' = (bolt_contents B db)(k := None)"
proof -
  have spec: "bolt_spec B" and has: "tx_HasBucket B db kvBucket" using assms(1) by (auto simp: bolt_ok_def)
  have del: "bk_Delete B db kvBucket k = Inr db'"
    using assms(2) unfolding bolt_Delete_def by (metis db_Update_cases option.distinct(1) prod.inject)
  show "bolt_ok B db'" using spec has delete_has [OF spec has del] by (simp add: bolt_ok_def)
  show "bolt_contents B db' = (bolt_contents B db)(k := None)"
    by (rule ext) (simp add: bolt_contents_def delete_get [OF spec has del])
qed

lemma db_Update_fail: "db_Update B f db = (db', Some e) \<Longrightarrow> db' = db"
  by (metis db_Update_cases option.distinct(1) prod.inject)

lemma bolt_Snapshot_contents:
  assumes "bolt_ok B db" "\<forall>k. bolt_contents B db k \<noteq> None \<longrightarrow> utf8_valid k"
  shows "\<exists>d. bolt_Snapshot B db = Inr d \<and> snapshot_denotes d (bolt_contents B db)"
proof -
  let ?xs = "bk_Items B db kvBucket"
  have spec: "bolt_spec B" "tx_HasBucket B db kvBucket" using assms(1) by (auto simp: bolt_ok_def)
  note dist = items_distinct [OF spec] and items = items_map_of [OF spec]
  have m: "map_of (insert_all ?xs []) = bolt_contents B db"
    by (simp add: map_of_insert_all_distinct [OF dist] items bolt_contents_def)
  have "utf8_valid k" if "k \<in> fst ` set (insert_all ?xs [])" for k
    using that assms(2) m by (metis map_of_eq_None_iff)
  then have "snapshot_denotes (print_json (json_bytes_map (insert_all ?xs []))) (bolt_contents B db)"
    using snapshot_text [of "insert_all ?xs []"] distinct_insert_all [of "[]" ?xs] m by simp
  then show ?thesis by (simp add: bolt_Snapshot_def)
qed

lemma put_all_get:
  assumes "bolt_spec B" "tx_HasBucket B tx kvBucket" "put_all B m tx = Inr tx'" "distinct (map fst m)"
  shows "tx_HasBucket B tx' kvBucket"
    "bk_Get B tx' kvBucket k = (case map_of m k of Some v \<Rightarrow> Some v | None \<Rightarrow> bk_Get B tx kvBucket k)"
proof -
  have "tx_HasBucket B tx' kvBucket \<and>
    bk_Get B tx' kvBucket k = (case map_of m k of Some v \<Rightarrow> Some v | None \<Rightarrow> bk_Get B tx kvBucket k)"
    using assms(2-4)
  proof (induction m arbitrary: tx)
    case (Cons p m)
    obtain a v where p: "p = (a, v)" by fastforce
    with Cons.prems(2) obtain t where put: "bk_Put B tx kvBucket a v = Inr t"
      and rest: "put_all B m t = Inr tx'"
      by (auto split: sum.splits)
    note get = put_get [OF assms(1) Cons.prems(1) put] and hst = put_has [OF assms(1) Cons.prems(1) put]
    have "tx_HasBucket B tx' kvBucket \<and> bk_Get B tx' kvBucket k =
        (case map_of m k of Some v \<Rightarrow> Some v | None \<Rightarrow> bk_Get B t kvBucket k)"
      using Cons.IH [OF _ rest] hst Cons.prems(1,3) by simp
    moreover have "map_of m a = None" using Cons.prems(3) p by (simp add: map_of_eq_None_iff)
    ultimately show ?case by (auto simp: p get split: option.splits)
  qed simp
  then show "tx_HasBucket B tx' kvBucket"
    "bk_Get B tx' kvBucket k = (case map_of m k of Some v \<Rightarrow> Some v | None \<Rightarrow> bk_Get B tx kvBucket k)"
    by blast+
qed

lemma bolt_Restore_commit:
  assumes "bolt_ok B db" "snapshot_denotes d m" "bolt_RestoreSnapshot B d db = (db', None)"
  shows "bolt_ok B db' \<and> bolt_contents B db' = m"
proof -
  have spec: "bolt_spec B" using assms(1) by (simp add: bolt_ok_def)
  obtain al where al: "unmarshal_bytes_map d = Inr (Some al)" "distinct (map fst al)" "map_of al = m"
    using assms(2) by (auto simp: snapshot_denotes_def)
  obtain tx t where c: "tx_CreateBucket B tx kvBucket = Inr t" and p: "put_all B al t = Inr db'"
    using assms(3) al(1)
    by (auto simp: bolt_RestoreSnapshot_def db_Update_def Let_def
        split: sum.splits option.splits if_splits)
  have "tx_HasBucket B t kvBucket" using create_has [OF spec c] by simp
  note res = put_all_get [OF spec this p al(2)]
  have "bk_Get B t kvBucket k = None" for k using create_get [OF spec c] by simp
  then have "bolt_contents B db' = m"
    using res(2) al(3) by (intro ext) (simp add: bolt_contents_def split: option.split)
  with res(1) spec show ?thesis by (simp add: bolt_ok_def)
qed

lemma put_all_ok:
  assumes "bolt_spec B" "bolt_writes_ok B" "tx_HasBucket B tx kvBucket"
    "\<forall>(k, v)\<in>set m. k \<noteq> [] \<and> length k \<le> max_key_size \<and> length v \<le> max_value_size"
  shows "\<exists>tx'. put_all B m tx = Inr tx'"
  using assms(3,4)
proof (induction m arbitrary: tx)
  case (Cons p m)
  obtain k v where p: "p = (k, v)" by fastforce
  have "k \<noteq> []" "length k \<le> max_key_size" "length v \<le> max_value_size" using Cons.prems(2) p by auto
  then obtain t where t: "bk_Put B tx kvBucket k v = Inr t" using put_ok [OF assms(2) Cons.prems(1)] by blast
  have "\<exists>tx'. put_all B m t = Inr tx'"
    using Cons.IH [of t] put_has [OF assms(1) Cons.prems(1) t] Cons.prems by simp
  then show ?case using p t by simp
qed simp

text \<open>On a healthy disk a snapshot whose keys and values have admissible sizes can be restored.\<close>

lemma bolt_Restore_ok:
  assumes "bolt_ok B db" "bolt_writes_ok B" "snapshot_denotes d m"
    "\<And>k v. m k = Some v \<Longrightarrow> k \<noteq> [] \<and> length k \<le> max_key_size \<and> length v \<le> max_value_size"
  shows "\<exists>db'. bolt_RestoreSnapshot B d db = (db', None)"
proof -
  have spec: "bolt_spec B" and has: "tx_HasBucket B db kvBucket" using assms(1) by (simp_all add: bolt_ok_def)
  obtain al where al: "unmarshal_bytes_map d = Inr (Some al)" "distinct (map fst al)" "map_of al = m"
    using assms(3) by (auto simp: snapshot_denotes_def)
  obtain t1 where t1: "tx_DeleteBucket B db kvBucket = Inr t1" using bucket_ok(2) [OF assms(2) has] ..
  obtain t2 where t2: "tx_CreateBucket B t1 kvBucket = Inr t2"
    using bucket_ok(1) [OF assms(2), of kvBucket t1] drop_has [OF spec t1] by (auto simp: kvBucket_def)
  have "\<forall>(k, v)\<in>set al. k \<noteq> [] \<and> length k \<le> max_key_size \<and> length v \<le> max_value_size"
    using assms(4) al(2,3) map_of_is_SomeI [OF al(2)] by blast
  then obtain t3 where t3: "put_all B al t2 = Inr t3"
    using put_all_ok [OF spec assms(2)] create_has [OF spec t2] by blast
  have "bolt_RestoreSnapshot B d db = (t3, None)"
    unfolding bolt_RestoreSnapshot_def al(1) sum.case
    by (rule db_Update_ok [OF assms(2)]) (simp add: Let_def t1 t2 t3)
  then show ?thesis by blast
qed

lemma bolt_Scan_map:
  fixes xs :: "(string \<times> bytes) list"
  assumes "distinct (map fst xs)"
  shows "map_of (fold (\<lambda>kv r. if has_prefix (fst kv) p then AList.update (fst kv) (snd kv) r else r) xs []) =
    (\<lambda>k. if has_prefix k p then map_of xs k else None)"
proof -
  let ?P = "\<lambda>kv. has_prefix (fst kv) p"
  have "fold (\<lambda>kv r. if ?P kv then AList.update (fst kv) (snd kv) r else r) xs r =
      insert_all (filter ?P xs) r" for r
    by (induction xs arbitrary: r) auto
  moreover have "distinct (map fst (filter ?P xs))" using assms by (rule distinct_map_filter)
  ultimately show ?thesis
    by (simp add: map_of_insert_all_distinct fun_eq_iff
        map_of_filter_fst [where P = "\<lambda>k. has_prefix k p"])
qed

interpretation blt: storage_engine "bolt_ops B" "bolt_ok B" "bolt_contents B"
  for B :: "'db bolt"
proof unfold_locales
  show "bolt_ok B s \<Longrightarrow> \<exists>m. eng_Scan (bolt_ops B) p s = Inr m \<and>
      map_of m = (\<lambda>k. if has_prefix k p then bolt_contents B s k else None)" for s p
    using items_distinct [of B s kvBucket] items_map_of [of B s kvBucket]
    by (simp add: bolt_ops_def bolt_Scan_def bolt_ok_def bolt_contents_def bolt_Scan_map fun_eq_iff)
  show "bolt_ok B s \<Longrightarrow> \<forall>k. bolt_contents B s k \<noteq> None \<longrightarrow> utf8_valid k \<Longrightarrow>
      \<exists>d. eng_Snapshot (bolt_ops B) s = Inr d \<and> snapshot_denotes d (bolt_contents B s)" for s
    using bolt_Snapshot_contents by (simp add: bolt_ops_def)
  show "bolt_ok B s \<Longrightarrow> snapshot_denotes d m \<Longrightarrow>
      eng_RestoreSnapshot (bolt_ops B) d s = (s', None) \<Longrightarrow> bolt_ok B s' \<and> bolt_contents B s' = m"
    for s d m s'
    using bolt_Restore_commit by (simp add: bolt_ops_def)
  show "bolt_ok B s \<Longrightarrow> eng_RestoreSnapshot (bolt_ops B) d s = (s', Some e) \<Longrightarrow> s' = s" for s d s' e
    by (auto simp: bolt_ops_def bolt_RestoreSnapshot_def split: sum.splits dest: db_Update_fail)
  show "bolt_ok B s \<Longrightarrow> eng_Put (bolt_ops B) k v s = (s', Some e) \<Longrightarrow> s' = s" for s k v s' e
    by (auto simp: bolt_ops_def bolt_Put_def dest: db_Update_fail)
  show "bolt_ok B s \<Longrightarrow> eng_Delete (bolt_ops B) k s = (s', Some e) \<Longrightarrow> s' = s" for s k s' e
    by (auto simp: bolt_ops_def bolt_Delete_def dest: db_Update_fail)
  show "bolt_ok B s \<Longrightarrow> eng_Get (bolt_ops B) k s =
      (case bolt_contents B s k of None \<Rightarrow> Inl ErrKeyNotFound | Some v \<Rightarrow> Inr v)" for s k
    by (simp add: bolt_ops_def bolt_Get_def bolt_contents_def)
  show "bolt_ok B s \<Longrightarrow> eng_Put (bolt_ops B) k v s = (s', None) \<Longrightarrow>
      bolt_ok B s' \<and> bolt_contents B s' = (bolt_contents B s)(k \<mapsto> v)" for s k v s'
    by (simp add: bolt_ops_def bolt_Put_commit)
  show "bolt_ok B s \<Longrightarrow> eng_Delete (bolt_ops B) k s = (s', None) \<Longrightarrow>
      bolt_ok B s' \<and> bolt_contents B s' = (bolt_contents B s)(k := None)" for s k s'
    by (simp add: bolt_ops_def bolt_Delete_commit)
qed

end
