(* ===== verification/Raft_Node.thy ===== *)
theory Raft_Node
  imports Raft_Log_Spec Leader_State Config Storage_Spec
begin

text \<open>
  \<open>internal/consensus/raft.go\<close> and \<open>snapshot.go\<close>: one Raft node. The methods of \<open>RaftNode\<close> run
  under its mutex, so each stretch between \<open>Lock\<close> and \<open>Unlock\<close> is one function on the node
  state. A method that unlocks to wait for a peer is split there: \<open>startElection\<close> into its first
  critical section, one step per vote reply, and the final \<open>becomeLeader\<close>; \<open>replicateToPeer\<close> into
  the construction of the request and the handling of the reply; \<open>Propose\<close> into the append and the
  wait; \<open>takeSnapshot\<close> into the snapshot and the compaction.

  A goroutine started with \<open>go\<close> is recorded in \<open>rn_tasks\<close>, to be run later in any order. The
  channels of pending proposals are numbered; \<open>rn_done\<close> holds the value sent on each. Random draws
  come from an arbitrary sequence \<open>rn_rand\<close>. A runtime panic sets \<open>rn_panicked\<close>, and the method
  it strikes does nothing more. \<open>Armed d\<close> is a running timer of \<open>d\<close> nanoseconds.
\<close>

section \<open>State\<close>

text \<open>An error value that stands for a panic of the callee.\<close>

fun is_panic :: "go_error option \<Rightarrow> bool" where
  "is_panic (Some (GoPanic _)) = True"
| "is_panic _ = False"

datatype timer = NoTimer | Armed int | StoppedTimer

datatype task = TApplyCommitted | TTakeSnapshot u64 u64 | TReplicate peer

record ('db, 'st) raft_node =
  rn_id :: string
  rn_peers :: "peer list"
  rn_raftLog :: "'db raft_log"
  rn_currentTerm :: u64
  rn_votedFor :: string
  rn_state :: node_state
  rn_commitIndex :: u64
  rn_lastApplied :: u64
  rn_leaderID :: string
  rn_leader :: "leader_state option"
  rn_storage :: 'st
  rn_electionTimer :: timer
  rn_heartbeatTimer :: timer
  rn_cfg :: config
  rn_stopped :: bool
  rn_pending :: "u64 \<rightharpoonup> nat"
  rn_nextChan :: nat
  rn_done :: "nat \<rightharpoonup> go_error option"
  rn_snapshotData :: bytes
  rn_tasks :: "task list"
  rn_rand :: "nat \<Rightarrow> nat"
  rn_draws :: nat
  rn_panicked :: bool

text \<open>\<open>NewRaftNode\<close>; the file-system outcomes are arguments, as in \<^const>\<open>newRaftLog\<close>.\<close>

definition peers_of :: "config \<Rightarrow> peer list" where
  "peers_of cfg = map (\<lambda>p. \<lparr>p_ID = nc_ID p, p_Addr = nc_Addr p\<rparr>) (cfg_Peers cfg)"

definition raft_db_path :: "config \<Rightarrow> string" where
  "raft_db_path cfg = sc_DataDir (cfg_Storage cfg) @ ''/raft.db''"

definition NewRaftNode ::
  "'db bolt \<Rightarrow> (string \<Rightarrow> go_error option) \<Rightarrow> (string \<Rightarrow> 'db go) \<Rightarrow> (nat \<Rightarrow> nat) \<Rightarrow>
   config \<Rightarrow> 'st \<Rightarrow> ('db, 'st) raft_node go" where
  "NewRaftNode B mkdirAll bolt_Open rnd cfg store =
     (case newRaftLog B mkdirAll bolt_Open (raft_db_path cfg) of
        Inl e \<Rightarrow> Inl (Wrapped ''opening raft log'' e)
      | Inr rl \<Rightarrow>
          (case LoadMeta B rl of
             Inl e \<Rightarrow> Inl (Wrapped ''loading raft meta'' e)
           | Inr (t, votedFor) \<Rightarrow>
               Inr \<lparr>rn_id = nc_ID (cfg_Node cfg), rn_peers = peers_of cfg, rn_raftLog = rl,
                    rn_currentTerm = t, rn_votedFor = votedFor, rn_state = Follower,
                    rn_commitIndex = 0, rn_lastApplied = 0, rn_leaderID = [], rn_leader = None,
                    rn_storage = store, rn_electionTimer = NoTimer, rn_heartbeatTimer = NoTimer,
                    rn_cfg = cfg, rn_stopped = False, rn_pending = Map.empty, rn_nextChan = 0,
                    rn_done = Map.empty, rn_snapshotData = [], rn_tasks = [], rn_rand = rnd,
                    rn_draws = 0, rn_panicked = False\<rparr>))"

section \<open>Timers and role changes\<close>

definition resetElectionTimer :: "('db, 'st) raft_node \<Rightarrow> ('db, 'st) raft_node" where
  "resetElectionTimer n =
     (let lo = ElectionTimeoutMinMs (cfg_Raft (rn_cfg n));
          hi = ElectionTimeoutMaxMs (cfg_Raft (rn_cfg n));
          span = int64 (hi - lo) in
      if span \<le> 0 then n\<lparr>rn_panicked := True\<rparr>
      else n\<lparr>rn_electionTimer :=
               Armed (int64 (int64 (lo + int (rn_rand n (rn_draws n)) mod span) * 1000000)),
             rn_draws := Suc (rn_draws n)\<rparr>)"

definition resetHeartbeatTimer :: "('db, 'st) raft_node \<Rightarrow> ('db, 'st) raft_node" where
  "resetHeartbeatTimer n =
     n\<lparr>rn_heartbeatTimer := Armed (int64 (HeartbeatIntervalMs (cfg_Raft (rn_cfg n)) * 1000000))\<rparr>"

definition becomeFollower :: "'db bolt \<Rightarrow> u64 \<Rightarrow> ('db, 'st) raft_node \<Rightarrow> ('db, 'st) raft_node" where
  "becomeFollower B t n =
     resetElectionTimer (n\<lparr>rn_state := Follower, rn_currentTerm := t, rn_votedFor := [],
       rn_leader := None, rn_raftLog := fst (SaveMeta B t [] (rn_raftLog n))\<rparr>)"

definition noop_entry :: "u64 \<Rightarrow> u64 \<Rightarrow> log_entry" where
  "noop_entry i t = \<lparr>le_Index = i, le_Term = t, le_Command = zero_command\<lparr>c_Op := OpNoop\<rparr>\<rparr>"

definition becomeLeader :: "'db bolt \<Rightarrow> ('db, 'st) raft_node \<Rightarrow> ('db, 'st) raft_node" where
  "becomeLeader B n =
     (if rn_state n \<noteq> Candidate then n
      else
        let n1 = n\<lparr>rn_state := Leader, rn_leaderID := rn_id n,
                   rn_leader := Some (newLeaderState (rn_peers n) (LastIndex B (rn_raftLog n)))\<rparr> in
        if rn_electionTimer n1 = NoTimer then n1\<lparr>rn_panicked := True\<rparr>
        else
        let n2 = resetHeartbeatTimer (n1\<lparr>rn_electionTimer := StoppedTimer\<rparr>);
            noop = noop_entry (LastIndex B (rn_raftLog n2) + 1) (rn_currentTerm n2)
        in n2\<lparr>rn_raftLog := fst (Append B noop (rn_raftLog n2))\<rparr>)"

definition Start :: "('db, 'st) raft_node \<Rightarrow> ('db, 'st) raft_node" where
  "Start n = resetElectionTimer n"

definition stop_timer :: "timer \<Rightarrow> timer" where
  "stop_timer t = (case t of NoTimer \<Rightarrow> NoTimer | _ \<Rightarrow> StoppedTimer)"

text \<open>
  \<open>Stop\<close> signals the event loop and stops the timers (\<open>Stop_signal\<close>), waits for the event loop to
  return, and closes the log. Other steps may come in between, so the first half is a step of its own.
  Closing the closed channel \<open>stopCh\<close> panics.
\<close>

definition Stop_signal :: "('db, 'st) raft_node \<Rightarrow> ('db, 'st) raft_node" where
  "Stop_signal n =
     (if rn_stopped n then n\<lparr>rn_panicked := True\<rparr>
      else n\<lparr>rn_stopped := True, rn_electionTimer := stop_timer (rn_electionTimer n),
             rn_heartbeatTimer := stop_timer (rn_heartbeatTimer n)\<rparr>)"

definition Stop :: "('db, 'st) raft_node \<Rightarrow> ('db, 'st) raft_node" where
  "Stop n =
     (let n1 = Stop_signal n in
      if rn_stopped n then n1 else n1\<lparr>rn_raftLog := log_Close (rn_raftLog n1)\<rparr>)"

section \<open>RPC handlers\<close>

subsection \<open>AppendEntries\<close>

text \<open>The search for the first index of the conflicting term.\<close>

function conflict_loop :: "'db bolt \<Rightarrow> 'db raft_log \<Rightarrow> u64 \<Rightarrow> u64 \<Rightarrow> u64" where
  "conflict_loop B rl prevTerm ci =
     (if SnapshotIndex rl + 1 < ci then
        (if TermAt B rl (ci - 1) \<noteq> prevTerm then ci else conflict_loop B rl prevTerm (ci - 1))
      else ci)"
  by pat_completeness auto
termination
proof (relation "measure (\<lambda>(B, rl, t, ci). unat ci)", goal_cases)
  case (2 B rl t ci)
  then have "0 < ci" using le_less_trans [OF word_zero_le] by blast
  then show ?case by (simp add: unat_dec word_less_nat_alt)
qed simp

declare conflict_loop.simps [simp del]

text \<open>Rule 2, the consistency check: the rejection to send, if there is one.\<close>

definition ae_check ::
  "'db bolt \<Rightarrow> 'db raft_log \<Rightarrow> append_entries_request \<Rightarrow> append_entries_response \<Rightarrow>
   append_entries_response option" where
  "ae_check B rl req resp =
     (if 0 < aer_PrevLogIndex req then
        (let lastIndex = LastIndex B rl in
         if lastIndex < aer_PrevLogIndex req then
           Some (resp\<lparr>aes_ConflictIndex := lastIndex + 1, aes_ConflictTerm := 0\<rparr>)
         else
           (let prevTerm = TermAt B rl (aer_PrevLogIndex req) in
            if prevTerm \<noteq> aer_PrevLogTerm req then
              Some (resp\<lparr>aes_ConflictTerm := prevTerm,
                aes_ConflictIndex := conflict_loop B rl prevTerm (aer_PrevLogIndex req)\<rparr>)
            else None))
      else None)"

text \<open>
  Rules 3 and 4. \<open>existingTerm\<close> is read once per entry, before the conflicting tail is cut; the
  flag tells whether the loop ran to its end.
\<close>

fun ae_append ::
  "'db bolt \<Rightarrow> u64 \<Rightarrow> log_entry list \<Rightarrow> 'db raft_log \<Rightarrow> 'db raft_log \<times> bool" where
  "ae_append B idx [] rl = (rl, True)"
| "ae_append B idx (entry # entries) rl =
     (let existingTerm = TermAt B rl idx in
      case (if existingTerm \<noteq> 0 \<and> existingTerm \<noteq> le_Term entry then TruncateFrom B idx rl
            else (rl, None)) of
        (rl1, Some _) \<Rightarrow> (rl1, False)
      | (rl1, None) \<Rightarrow>
          (case (if existingTerm = 0 then Append B entry rl1 else (rl1, None)) of
             (rl2, Some _) \<Rightarrow> (rl2, False)
           | (rl2, None) \<Rightarrow> ae_append B (idx + 1) entries rl2))"

text \<open>Rule 5.\<close>

definition ae_commit :: "append_entries_request \<Rightarrow> ('db, 'st) raft_node \<Rightarrow> ('db, 'st) raft_node" where
  "ae_commit req n =
     (if rn_commitIndex n < aer_LeaderCommit req then
        (let lastNew = aer_PrevLogIndex req + of_nat (length (aer_Entries req));
             newCommit = (if lastNew < aer_LeaderCommit req then lastNew else aer_LeaderCommit req) in
         if rn_commitIndex n < newCommit then
           n\<lparr>rn_commitIndex := newCommit, rn_tasks := rn_tasks n @ [TApplyCommitted]\<rparr>
         else n)
      else n)"

definition HandleAppendEntries ::
  "'db bolt \<Rightarrow> append_entries_request \<Rightarrow> ('db, 'st) raft_node \<Rightarrow>
   ('db, 'st) raft_node \<times> append_entries_response" where
  "HandleAppendEntries B req n =
     (let resp = zero_aes\<lparr>aes_FollowerID := rn_id n, aes_Term := rn_currentTerm n\<rparr> in
      if aer_Term req < rn_currentTerm n then (n, resp)
      else
        let n1 = resetElectionTimer n in
        if rn_panicked n1 then (n1, resp)
        else
        let (n2, resp1) = (if rn_currentTerm n1 < aer_Term req
                           then (becomeFollower B (aer_Term req) n1, resp\<lparr>aes_Term := aer_Term req\<rparr>)
                           else (n1, resp));
            n3 = n2\<lparr>rn_leaderID := aer_LeaderID req\<rparr>
        in if rn_panicked n2 then (n2, resp1)
           else (case ae_check B (rn_raftLog n3) req resp1 of
              Some rej \<Rightarrow> (n3, rej)
            | None \<Rightarrow>
                (case ae_append B (aer_PrevLogIndex req + 1) (aer_Entries req) (rn_raftLog n3) of
                   (rl, False) \<Rightarrow> (n3\<lparr>rn_raftLog := rl\<rparr>, resp1)
                 | (rl, True) \<Rightarrow>
                     (let n4 = ae_commit req (n3\<lparr>rn_raftLog := rl\<rparr>) in
                      (n4, resp1\<lparr>aes_Success := True,
                                 aes_MatchIndex := LastIndex B (rn_raftLog n4)\<rparr>)))))"

subsection \<open>RequestVote\<close>

definition candidateUpToDate :: "'db bolt \<Rightarrow> request_vote_request \<Rightarrow> 'db raft_log \<Rightarrow> bool" where
  "candidateUpToDate B req rl \<longleftrightarrow>
     LastTerm B rl < rvr_LastLogTerm req \<or>
     (rvr_LastLogTerm req = LastTerm B rl \<and> LastIndex B rl \<le> rvr_LastLogIndex req)"

definition HandleRequestVote ::
  "'db bolt \<Rightarrow> request_vote_request \<Rightarrow> ('db, 'st) raft_node \<Rightarrow>
   ('db, 'st) raft_node \<times> request_vote_response" where
  "HandleRequestVote B req n =
     (let resp = zero_rvs\<lparr>rvs_VoterID := rn_id n, rvs_Term := rn_currentTerm n\<rparr> in
      if rvr_Term req < rn_currentTerm n then (n, resp)
      else
        let (n1, resp1) = (if rn_currentTerm n < rvr_Term req
                           then (becomeFollower B (rvr_Term req) n, resp\<lparr>rvs_Term := rvr_Term req\<rparr>)
                           else (n, resp)) in
        if rn_panicked n1 then (n1, resp1)
        else if rn_votedFor n1 \<noteq> [] \<and> rn_votedFor n1 \<noteq> rvr_CandidateID req then (n1, resp1)
        else if \<not> candidateUpToDate B req (rn_raftLog n1) then (n1, resp1)
        else
          let n2 = n1\<lparr>rn_votedFor := rvr_CandidateID req,
                      rn_raftLog := fst (SaveMeta B (rn_currentTerm n1) (rvr_CandidateID req) (rn_raftLog n1))\<rparr>
          in (resetElectionTimer n2, resp1\<lparr>rvs_VoteGranted := True\<rparr>))"

subsection \<open>InstallSnapshot\<close>

definition HandleInstallSnapshot ::
  "'db bolt \<Rightarrow> 'st engine \<Rightarrow> install_snapshot_request \<Rightarrow> ('db, 'st) raft_node \<Rightarrow>
   ('db, 'st) raft_node \<times> install_snapshot_response" where
  "HandleInstallSnapshot B E req n =
     (let resp = zero_iss\<lparr>iss_FollowerID := rn_id n, iss_Term := rn_currentTerm n\<rparr> in
      if isr_Term req < rn_currentTerm n then (n, resp)
      else
        let n1 = (if rn_currentTerm n < isr_Term req then becomeFollower B (isr_Term req) n else n);
            n2 = resetElectionTimer n1;
            n3 = n2\<lparr>rn_leaderID := isr_LeaderID req\<rparr>
        in if rn_panicked n1 then (n1, resp)
           else if rn_panicked n2 then (n2, resp)
           else (case eng_RestoreSnapshot E (isr_Data req) (rn_storage n3) of
              (st, Some _) \<Rightarrow> (n3\<lparr>rn_storage := st\<rparr>, resp)
            | (st, None) \<Rightarrow>
                (case Compact B (isr_LastIncludedIndex req) (isr_LastIncludedTerm req) (rn_raftLog n3) of
                   (rl, Some e) \<Rightarrow>
                     (n3\<lparr>rn_storage := st, rn_raftLog := rl, rn_panicked := is_panic (Some e)\<rparr>, resp)
                 | (rl, None) \<Rightarrow>
                     (n3\<lparr>rn_storage := st, rn_raftLog := rl,
                         rn_commitIndex := isr_LastIncludedIndex req,
                         rn_lastApplied := isr_LastIncludedIndex req,
                         rn_snapshotData := isr_Data req\<rparr>,
                      resp\<lparr>iss_Success := True\<rparr>))))"

section \<open>Elections\<close>

text \<open>
  The first critical section of \<open>startElection\<close>; \<open>None\<close> when it panics. The local variables of the
  election are the record \<open>election\<close>: \<open>el_waiting\<close> lists the peers whose goroutine has not
  returned, \<open>el_won\<close> tells whether \<open>wonCh\<close> holds its token.
\<close>

record election =
  el_req :: request_vote_request
  el_votes :: nat
  el_quorum :: nat
  el_won :: bool
  el_waiting :: "peer list"

definition election_quorum :: "peer list \<Rightarrow> nat" where
  "election_quorum peers = length peers div 2 + 1"

definition startElection ::
  "'db bolt \<Rightarrow> ('db, 'st) raft_node \<Rightarrow> ('db, 'st) raft_node \<times> election option" where
  "startElection B n =
     (let n1 = n\<lparr>rn_state := Candidate, rn_currentTerm := rn_currentTerm n + 1, rn_votedFor := rn_id n\<rparr>;
          n2 = n1\<lparr>rn_raftLog := fst (SaveMeta B (rn_currentTerm n1) (rn_votedFor n1) (rn_raftLog n1))\<rparr>;
          n3 = resetElectionTimer n2
      in if rn_panicked n3 then (n3, None)
         else (n3, Some \<lparr>el_req = \<lparr>rvr_Term = rn_currentTerm n3, rvr_CandidateID = rn_id n3,
                                   rvr_LastLogIndex = LastIndex B (rn_raftLog n3),
                                   rvr_LastLogTerm = LastTerm B (rn_raftLog n3)\<rparr>,
                         el_votes = 1, el_quorum = election_quorum (rn_peers n3),
                         el_won = False, el_waiting = rn_peers n3\<rparr>))"

text \<open>The goroutine of one peer: \<open>None\<close> is a transport error.\<close>

definition count_vote :: "election \<Rightarrow> election" where
  "count_vote el = el\<lparr>el_votes := el_votes el + 1,
     el_won := el_won el \<or> el_quorum el \<le> el_votes el + 1\<rparr>"

definition vote_reply ::
  "'db bolt \<Rightarrow> peer \<Rightarrow> request_vote_response option \<Rightarrow> election \<Rightarrow> ('db, 'st) raft_node \<Rightarrow>
   ('db, 'st) raft_node \<times> election" where
  "vote_reply B p r el n =
     (let el1 = el\<lparr>el_waiting := remove1 p (el_waiting el)\<rparr> in
      case r of
        None \<Rightarrow> (n, el1)
      | Some resp \<Rightarrow>
          (if rn_currentTerm n < rvs_Term resp then (becomeFollower B (rvs_Term resp) n, el1)
           else if \<not> rvs_VoteGranted resp then (n, el1)
           else (n, count_vote el1)))"

text \<open>After \<open>wg.Wait\<close>: the token in \<open>wonCh\<close> decides.\<close>

definition finishElection ::
  "'db bolt \<Rightarrow> election \<Rightarrow> ('db, 'st) raft_node \<Rightarrow> ('db, 'st) raft_node" where
  "finishElection B el n = (if el_won el then becomeLeader B n else n)"

section \<open>Replication\<close>

definition broadcastAppendEntries :: "('db, 'st) raft_node \<Rightarrow> ('db, 'st) raft_node" where
  "broadcastAppendEntries n =
     (if rn_state n \<noteq> Leader then n
      else n\<lparr>rn_tasks := rn_tasks n @ map TReplicate (rn_peers n)\<rparr>)"

text \<open>
  The two timer cases of the event loop. The first tells whether \<^const>\<open>startElection\<close> follows.
\<close>

definition run_electionTick :: "('db, 'st) raft_node \<Rightarrow> ('db, 'st) raft_node \<times> bool" where
  "run_electionTick n =
     (if rn_state n \<noteq> Leader then (n, True) else (resetElectionTimer n, False))"

definition run_heartbeatTick :: "('db, 'st) raft_node \<Rightarrow> ('db, 'st) raft_node" where
  "run_heartbeatTick n =
     (if rn_state n = Leader then broadcastAppendEntries (resetHeartbeatTimer n) else n)"

datatype rpc = RpcAppendEntries append_entries_request | RpcInstallSnapshot install_snapshot_request

text \<open>\<open>replicateToPeer\<close> up to the RPC. Reading through a nil \<open>n.leader\<close> panics.\<close>

definition replicateToPeer ::
  "'db bolt \<Rightarrow> peer \<Rightarrow> ('db, 'st) raft_node \<Rightarrow> ('db, 'st) raft_node \<times> rpc option" where
  "replicateToPeer B p n =
     (if rn_state n \<noteq> Leader then (n, None)
      else case rn_leader n of
        None \<Rightarrow> (n\<lparr>rn_panicked := True\<rparr>, None)
      | Some ls \<Rightarrow>
          (let nextIdx = index_get (nextIndex ls) (p_ID p);
               rl = rn_raftLog n;
               snapshotIdx = SnapshotIndex rl in
           if nextIdx \<le> snapshotIdx then
             (n, Some (RpcInstallSnapshot
                \<lparr>isr_Term = rn_currentTerm n, isr_LeaderID = rn_id n,
                 isr_LastIncludedIndex = snapshotIdx, isr_LastIncludedTerm = SnapshotTerm rl,
                 isr_Data = rn_snapshotData n\<rparr>))
           else
             (let prevLogIndex = nextIdx - 1;
                  lastIndex = LastIndex B rl in
              case (if nextIdx \<le> lastIndex then GetRange B nextIdx lastIndex rl else Inr []) of
                Inl _ \<Rightarrow> (n, None)
              | Inr entries \<Rightarrow>
                  (n, Some (RpcAppendEntries
                     \<lparr>aer_Term = rn_currentTerm n, aer_LeaderID = rn_id n,
                      aer_PrevLogIndex = prevLogIndex, aer_PrevLogTerm = TermAt B rl prevLogIndex,
                      aer_Entries = entries, aer_LeaderCommit = rn_commitIndex n\<rparr>)))))"

text \<open>The reply to \<open>InstallSnapshot\<close>; there is no check that the node still leads.\<close>

definition snapshot_reply ::
  "'db bolt \<Rightarrow> peer \<Rightarrow> u64 \<Rightarrow> install_snapshot_response \<Rightarrow> ('db, 'st) raft_node \<Rightarrow> ('db, 'st) raft_node" where
  "snapshot_reply B p snapshotIdx resp n =
     (if rn_currentTerm n < iss_Term resp then becomeFollower B (iss_Term resp) n
      else if iss_Success resp then
        (case rn_leader n of
           None \<Rightarrow> n\<lparr>rn_panicked := True\<rparr>
         | Some ls \<Rightarrow>
             n\<lparr>rn_leader := Some (ls\<lparr>nextIndex := AList.update (p_ID p) (snapshotIdx + 1) (nextIndex ls),
                                     matchIndex := AList.update (p_ID p) snapshotIdx (matchIndex ls)\<rparr>)\<rparr>)
      else n)"

definition note_match :: "string \<Rightarrow> u64 \<Rightarrow> leader_state \<Rightarrow> leader_state" where
  "note_match k m ls =
     (let mi = (if index_get (matchIndex ls) k < m then AList.update k m (matchIndex ls)
                else matchIndex ls)
      in ls\<lparr>matchIndex := mi, nextIndex := AList.update k (index_get mi k + 1) (nextIndex ls)\<rparr>)"

definition back_up :: "string \<Rightarrow> u64 \<Rightarrow> leader_state \<Rightarrow> leader_state" where
  "back_up k conflictIndex ls =
     (if 0 < conflictIndex then ls\<lparr>nextIndex := AList.update k conflictIndex (nextIndex ls)\<rparr>
      else if 1 < index_get (nextIndex ls) k then
        ls\<lparr>nextIndex := AList.update k (index_get (nextIndex ls) k - 1) (nextIndex ls)\<rparr>
      else ls)"

definition append_reply ::
  "'db bolt \<Rightarrow> peer \<Rightarrow> append_entries_response \<Rightarrow> ('db, 'st) raft_node \<Rightarrow> ('db, 'st) raft_node" where
  "append_reply B p resp n =
     (if rn_state n \<noteq> Leader then n
      else if rn_currentTerm n < aes_Term resp then becomeFollower B (aes_Term resp) n
      else case rn_leader n of
        None \<Rightarrow> n\<lparr>rn_panicked := True\<rparr>
      | Some ls \<Rightarrow>
          (if aes_Success resp then
             (let ls1 = note_match (p_ID p) (aes_MatchIndex resp) ls;
                  n1 = n\<lparr>rn_leader := Some ls1\<rparr>;
                  newCommit = commitCandidate ls1 (rn_commitIndex n1) (LastIndex B (rn_raftLog n1))
                    (rn_currentTerm n1) (TermAt B (rn_raftLog n1))
              in if 0 < newCommit
                 then n1\<lparr>rn_commitIndex := newCommit, rn_tasks := rn_tasks n1 @ [TApplyCommitted]\<rparr>
                 else n1)
           else n\<lparr>rn_leader := Some (back_up (p_ID p) (aes_ConflictIndex resp) ls)\<rparr>))"

section \<open>The state machine\<close>

definition applyCommand :: "'st engine \<Rightarrow> command \<Rightarrow> 'st \<Rightarrow> 'st \<times> go_error option" where
  "applyCommand E cmd st =
     (if c_Op cmd = OpNoop then (st, None)
      else if c_Op cmd = OpPut then eng_Put E (c_Key cmd) (c_Value cmd) st
      else if c_Op cmd = OpDelete then eng_Delete E (c_Key cmd) st
      else if c_Op cmd = OpCAS then
        (case (case eng_Get E (c_Key cmd) st of
                 Inl e \<Rightarrow> (if e = ErrKeyNotFound then Inr [] else Inl e)
               | Inr v \<Rightarrow> Inr v) of
           Inl e \<Rightarrow> (st, Some e)
         | Inr existing \<Rightarrow>
             (if existing \<noteq> c_PrevValue cmd then (st, Some CASMismatch)
              else eng_Put E (c_Key cmd) (c_Value cmd) st))
      else (st, Some (UnknownOp (c_Op cmd))))"

text \<open>One iteration of \<open>applyCommitted\<close>, after \<open>lastApplied\<close> was advanced and the entry read.\<close>

definition apply_entry ::
  "'st engine \<Rightarrow> log_entry \<Rightarrow> ('db, 'st) raft_node \<Rightarrow> ('db, 'st) raft_node" where
  "apply_entry E entry n =
     (let (st, applyErr) = applyCommand E (le_Command entry) (rn_storage n);
          n1 = n\<lparr>rn_storage := st\<rparr> in
      if is_panic applyErr then n1\<lparr>rn_panicked := True\<rparr>
      else
        let i = rn_lastApplied n1;
            n2 = (case rn_pending n1 i of
                    Some ch \<Rightarrow> n1\<lparr>rn_done := (rn_done n1)(ch \<mapsto> applyErr),
                                  rn_pending := (rn_pending n1)(i := None)\<rparr>
                  | None \<Rightarrow> n1)
        in if SnapshotThreshold (cfg_Raft (rn_cfg n2)) \<le> int64 (uint (i - SnapshotIndex (rn_raftLog n2)))
           then n2\<lparr>rn_tasks := rn_tasks n2 @ [TTakeSnapshot i (le_Term entry)]\<rparr>
           else n2)"

lemma apply_entry_fields [simp]:
  "rn_lastApplied (apply_entry E e n) = rn_lastApplied n"
  "rn_commitIndex (apply_entry E e n) = rn_commitIndex n"
  "rn_raftLog (apply_entry E e n) = rn_raftLog n"
  "rn_currentTerm (apply_entry E e n) = rn_currentTerm n"
  "rn_votedFor (apply_entry E e n) = rn_votedFor n"
  "rn_state (apply_entry E e n) = rn_state n"
  "rn_id (apply_entry E e n) = rn_id n"
  "rn_peers (apply_entry E e n) = rn_peers n"
  "rn_cfg (apply_entry E e n) = rn_cfg n"
  by (simp_all add: apply_entry_def Let_def split: prod.split option.split)

function applyCommitted ::
  "'db bolt \<Rightarrow> 'st engine \<Rightarrow> ('db, 'st) raft_node \<Rightarrow> ('db, 'st) raft_node" where
  "applyCommitted B E n =
     (if rn_lastApplied n < rn_commitIndex n then
        (let n1 = n\<lparr>rn_lastApplied := rn_lastApplied n + 1\<rparr> in
         case Get B (rn_lastApplied n1) (rn_raftLog n1) of
           Inl _ \<Rightarrow> n1
         | Inr entry \<Rightarrow>
             (let n2 = apply_entry E entry n1 in
              if rn_panicked n2 then n2 else applyCommitted B E n2))
      else n)"
  by pat_completeness auto
termination
proof (relation "measure (\<lambda>(B, E, n). unat (rn_commitIndex n) - unat (rn_lastApplied n))", goal_cases)
  case (2 B E n n1 entry n2)
  then have less: "rn_lastApplied n < rn_commitIndex n" by simp
  then have "rn_lastApplied n \<noteq> - 1" by (rule less_not_max)
  with less 2 show ?case by (simp add: word_arith word_less_nat_alt)
qed simp

declare applyCommitted.simps [simp del]

text \<open>
  \<open>takeSnapshot\<close> serialises the state machine without the mutex (the storage engine has its own) and
  then takes it to compact the log; other steps may come in between.
\<close>

definition takeSnapshot_data :: "'st engine \<Rightarrow> ('db, 'st) raft_node \<Rightarrow> bytes go" where
  "takeSnapshot_data E n = eng_Snapshot E (rn_storage n)"

definition takeSnapshot ::
  "'db bolt \<Rightarrow> u64 \<Rightarrow> u64 \<Rightarrow> bytes go \<Rightarrow> ('db, 'st) raft_node \<Rightarrow> ('db, 'st) raft_node" where
  "takeSnapshot B index t snap n =
     (case snap of
        Inl _ \<Rightarrow> n
      | Inr data \<Rightarrow>
          (case Compact B index t (rn_raftLog n) of
             (rl, Some e) \<Rightarrow> n\<lparr>rn_raftLog := rl, rn_panicked := (rn_panicked n \<or> is_panic (Some e))\<rparr>
           | (rl, None) \<Rightarrow> n\<lparr>rn_raftLog := rl, rn_snapshotData := data\<rparr>))"

section \<open>Client writes\<close>

text \<open>
  \<open>Propose\<close> up to the \<open>select\<close>: the index of the new entry and the number of its channel. The
  critical section and the broadcast are separate acquisitions of the mutex.
\<close>

definition propose_append ::
  "'db bolt \<Rightarrow> command \<Rightarrow> ('db, 'st) raft_node \<Rightarrow> ('db, 'st) raft_node \<times> (u64 \<times> nat) go" where
  "propose_append B cmd n =
     (if rn_state n \<noteq> Leader then (n, Inl (NotLeaderError (rn_leaderID n)))
      else
        let entry = \<lparr>le_Index = LastIndex B (rn_raftLog n) + 1, le_Term = rn_currentTerm n,
                     le_Command = cmd\<rparr> in
        case Append B entry (rn_raftLog n) of
          (rl, Some e) \<Rightarrow> (n\<lparr>rn_raftLog := rl\<rparr>, Inl (Wrapped ''appending to log'' e))
        | (rl, None) \<Rightarrow>
            (n\<lparr>rn_raftLog := rl, rn_pending := (rn_pending n)(le_Index entry \<mapsto> rn_nextChan n),
               rn_nextChan := Suc (rn_nextChan n)\<rparr>,
             Inr (le_Index entry, rn_nextChan n)))"

definition Propose ::
  "'db bolt \<Rightarrow> command \<Rightarrow> ('db, 'st) raft_node \<Rightarrow> ('db, 'st) raft_node \<times> (u64 \<times> nat) go" where
  "Propose B cmd n =
     (case propose_append B cmd n of
        (n1, Inl e) \<Rightarrow> (n1, Inl e)
      | (n1, Inr w) \<Rightarrow> (broadcastAppendEntries n1, Inr w))"

text \<open>
  The \<open>select\<close>: which case fired and what the caller then gets, \<open>Some None\<close> being the nil error and
  \<open>None\<close> a case that is not ready.
\<close>

datatype wake = WakeDone | WakeCtx | WakeStop

definition Propose_wait ::
  "wake \<Rightarrow> u64 \<times> nat \<Rightarrow> ('db, 'st) raft_node \<Rightarrow> ('db, 'st) raft_node \<times> go_error option option" where
  "Propose_wait wk w n =
     (case wk of
        WakeDone \<Rightarrow> (n, rn_done n (snd w))
      | WakeCtx \<Rightarrow> (n\<lparr>rn_pending := (rn_pending n)(fst w := None)\<rparr>, Some (Some ContextDone))
      | WakeStop \<Rightarrow> (n, if rn_stopped n then Some (Some NodeStopped) else None))"

section \<open>Accessors\<close>

definition IsLeader :: "('db, 'st) raft_node \<Rightarrow> bool" where
  "IsLeader n \<longleftrightarrow> rn_state n = Leader"

definition LeaderID :: "('db, 'st) raft_node \<Rightarrow> string" where
  "LeaderID n = rn_leaderID n"

definition node_ID :: "('db, 'st) raft_node \<Rightarrow> string" where
  "node_ID n = rn_id n"

definition node_SnapshotData :: "('db, 'st) raft_node \<Rightarrow> bytes" where
  "node_SnapshotData n = rn_snapshotData n"

definition node_SnapshotIndex :: "('db, 'st) raft_node \<Rightarrow> u64" where
  "node_SnapshotIndex n = SnapshotIndex (rn_raftLog n)"

definition node_CommitIndex :: "('db, 'st) raft_node \<Rightarrow> u64" where
  "node_CommitIndex n = rn_commitIndex n"

definition node_LastApplied :: "('db, 'st) raft_node \<Rightarrow> u64" where
  "node_LastApplied n = rn_lastApplied n"

definition NotLeaderError_Error :: "string \<Rightarrow> string" where
  "NotLeaderError_Error leaderID =
     (if leaderID = [] then ''not leader (leader unknown)''
      else ''not leader, redirect to '' @ leaderID)"

end
