(* ===== verification/Raft_Node_Spec.thy ===== *)
theory Raft_Node_Spec
  imports Raft_Node
begin

text \<open>
  What every method of a node guarantees, whatever the message: the well-formedness invariant
  \<open>node_ok\<close>, terms that never decrease, and a vote that is never changed within a term. The last
  two are the relation \<open>steady\<close>, which all methods satisfy except \<open>startElection\<close> and
  \<open>becomeLeader\<close>; these have lemmas of their own. The disk is healthy (\<open>bolt_writes_ok\<close>) where
  durability is claimed.
\<close>

section \<open>Invariant\<close>

definition timer_ok :: "config \<Rightarrow> bool" where
  "timer_ok cfg \<longleftrightarrow> 0 < int64 (ElectionTimeoutMaxMs (cfg_Raft cfg) - ElectionTimeoutMinMs (cfg_Raft cfg))"

definition valid_id :: "string \<Rightarrow> bool" where
  "valid_id s \<longleftrightarrow> s \<noteq> [] \<and> utf8_valid s \<and> length s \<le> 300000000"

definition savable :: "string \<Rightarrow> bool" where
  "savable s \<longleftrightarrow> utf8_valid s \<and> length s \<le> 300000000"

lemma valid_id_savable: "valid_id s \<Longrightarrow> savable s"
  by (simp add: valid_id_def savable_def)

definition node_ok :: "'db bolt \<Rightarrow> ('db, 'st) raft_node \<Rightarrow> bool" where
  "node_ok B n \<longleftrightarrow> rl_ok B (rn_raftLog n) \<and> timer_ok (rn_cfg n) \<and> valid_id (rn_id n) \<and>
     LoadMeta B (rn_raftLog n) = Inr (rn_currentTerm n, rn_votedFor n) \<and>
     (rn_state n = Leader \<longrightarrow> rn_leader n \<noteq> None)"

definition steady :: "'db bolt \<Rightarrow> ('db, 'st) raft_node \<Rightarrow> ('db, 'st) raft_node \<Rightarrow> bool" where
  "steady B n n' \<longleftrightarrow> (node_ok B n \<longrightarrow> node_ok B n' \<and>
     rn_id n' = rn_id n \<and> rn_peers n' = rn_peers n \<and> rn_cfg n' = rn_cfg n \<and>
     rn_currentTerm n \<le> rn_currentTerm n' \<and>
     (rn_currentTerm n' = rn_currentTerm n \<longrightarrow> rn_votedFor n \<noteq> [] \<longrightarrow> rn_votedFor n' = rn_votedFor n) \<and>
     (rn_state n' \<noteq> Follower \<longrightarrow> rn_state n' = rn_state n \<and> rn_currentTerm n' = rn_currentTerm n))"

lemma steady_refl [simp, intro]: "steady B n n"
  by (simp add: steady_def)

lemma steadyD:
  assumes "steady B n n'" "node_ok B n"
  shows "node_ok B n'" "rn_id n' = rn_id n" "rn_peers n' = rn_peers n" "rn_cfg n' = rn_cfg n"
    "rn_currentTerm n \<le> rn_currentTerm n'"
    "rn_currentTerm n' = rn_currentTerm n \<Longrightarrow> rn_votedFor n \<noteq> [] \<Longrightarrow> rn_votedFor n' = rn_votedFor n"
    "rn_state n' \<noteq> Follower \<Longrightarrow> rn_state n' = rn_state n"
    "rn_state n' \<noteq> Follower \<Longrightarrow> rn_currentTerm n' = rn_currentTerm n"
  using assms unfolding steady_def by blast+

lemma steady_trans [trans]:
  assumes "steady B a b" "steady B b c"
  shows "steady B a c"
proof (unfold steady_def, intro impI)
  assume ok: "node_ok B a"
  note ab = steadyD [OF assms(1) ok]
  note bc = steadyD [OF assms(2) ab(1)]
  have vote: "rn_votedFor c = rn_votedFor a"
    if "rn_currentTerm c = rn_currentTerm a" "rn_votedFor a \<noteq> []"
  proof -
    have "rn_currentTerm b = rn_currentTerm a" using ab(5) bc(5) that(1) by simp
    with ab(6) bc(6) that show ?thesis by simp
  qed
  have st: "rn_state c = rn_state a \<and> rn_currentTerm c = rn_currentTerm a" if "rn_state c \<noteq> Follower"
    using ab(7,8) bc(7,8) that by simp
  show "node_ok B c \<and> rn_id c = rn_id a \<and> rn_peers c = rn_peers a \<and> rn_cfg c = rn_cfg a \<and>
     rn_currentTerm a \<le> rn_currentTerm c \<and>
     (rn_currentTerm c = rn_currentTerm a \<longrightarrow> rn_votedFor a \<noteq> [] \<longrightarrow> rn_votedFor c = rn_votedFor a) \<and>
     (rn_state c \<noteq> Follower \<longrightarrow> rn_state c = rn_state a \<and> rn_currentTerm c = rn_currentTerm a)"
    using bc(1-5) ab(2-5) vote st order_trans [OF ab(5) bc(5)] by simp
qed

text \<open>Updates of the fields that the invariant and the relation do not look at.\<close>

lemma steady_other [node_simps]:
  "steady B n (n\<lparr>rn_leaderID := l\<rparr>)"
  "steady B n (n\<lparr>rn_storage := st\<rparr>)"
  "steady B n (n\<lparr>rn_commitIndex := c\<rparr>)"
  "steady B n (n\<lparr>rn_lastApplied := c\<rparr>)"
  "steady B n (n\<lparr>rn_snapshotData := d\<rparr>)"
  "steady B n (n\<lparr>rn_tasks := ts\<rparr>)"
  "steady B n (n\<lparr>rn_pending := pd\<rparr>)"
  "steady B n (n\<lparr>rn_done := dn\<rparr>)"
  "steady B n (n\<lparr>rn_nextChan := k\<rparr>)"
  "steady B n (n\<lparr>rn_panicked := b\<rparr>)"
  "steady B n (n\<lparr>rn_stopped := b\<rparr>)"
  "steady B n (n\<lparr>rn_electionTimer := tm\<rparr>)"
  "steady B n (n\<lparr>rn_heartbeatTimer := tm\<rparr>)"
  "steady B n (n\<lparr>rn_draws := k\<rparr>)"
  "steady B n (n\<lparr>rn_leader := Some ls\<rparr>)"
  by (simp_all add: steady_def node_ok_def)

text \<open>Changes of the log file that keep the stored term and vote.\<close>

definition keeps_meta :: "'db bolt \<Rightarrow> 'db raft_log \<Rightarrow> 'db raft_log \<Rightarrow> bool" where
  "keeps_meta B rl rl' \<longleftrightarrow> (rl_ok B rl \<longrightarrow> rl_ok B rl' \<and> LoadMeta B rl' = LoadMeta B rl)"

lemma keeps_meta_refl [simp, intro]: "keeps_meta B rl rl"
  by (simp add: keeps_meta_def)

lemma keeps_meta_trans: "keeps_meta B a b \<Longrightarrow> keeps_meta B b c \<Longrightarrow> keeps_meta B a c"
  by (auto simp: keeps_meta_def)

lemma keeps_meta_steady: "keeps_meta B (rn_raftLog n) rl \<Longrightarrow> steady B n (n\<lparr>rn_raftLog := rl\<rparr>)"
  by (simp add: steady_def node_ok_def keeps_meta_def)

lemma keeps_meta_Append: "Append B e rl = (rl', err) \<Longrightarrow> keeps_meta B rl rl'"
  by (cases err) (auto simp: keeps_meta_def rl_ok_Append Append_commit(3) intro: LoadMeta_cong dest: Append_fail)

lemma keeps_meta_TruncateFrom: "TruncateFrom B i rl = (rl', err) \<Longrightarrow> keeps_meta B rl rl'"
  by (cases err)
    (auto simp: keeps_meta_def rl_ok_TruncateFrom TruncateFrom_commit(3) intro: LoadMeta_cong dest: TruncateFrom_fail)

lemma keeps_meta_Compact: "Compact B i t rl = (rl', err) \<Longrightarrow> keeps_meta B rl rl'"
  by (cases err)
    (auto simp: keeps_meta_def rl_ok_Compact Compact_commit(3) intro: LoadMeta_cong dest: Compact_fail)

lemma keeps_meta_ae_append: "ae_append B idx es rl = (rl', b) \<Longrightarrow> keeps_meta B rl rl'"
proof (induction B idx es rl rule: ae_append.induct)
  case (1 B idx rl)
  then show ?case by simp
next
  case (2 B idx entry entries rl)
  obtain rl1 e1 where s1: "(if TermAt B rl idx \<noteq> 0 \<and> TermAt B rl idx \<noteq> le_Term entry
      then TruncateFrom B idx rl else (rl, None)) = (rl1, e1)" by fastforce
  obtain rl2 e2 where s2: "(if TermAt B rl idx = 0 then Append B entry rl1 else (rl1, None)) = (rl2, e2)"
    by fastforce
  have k1: "keeps_meta B rl rl1" using s1 by (auto split: if_splits intro: keeps_meta_TruncateFrom)
  have k2: "keeps_meta B rl1 rl2" using s2 by (auto split: if_splits intro: keeps_meta_Append)
  note k = keeps_meta_trans [OF k1 k2]
  show ?case
  proof (cases "e1 = None \<and> e2 = None")
    case True
    then have "ae_append B (idx + 1) entries rl2 = (rl', b)"
      using 2(2) s1 s2 by (simp add: Let_def)
    then have "keeps_meta B rl2 rl'"
      using 2(1) [OF refl s1 [symmetric] _ s2 [symmetric]] True by blast
    with k show ?thesis by (rule keeps_meta_trans)
  next
    case False
    then have "rl' = rl1 \<or> rl' = rl2" using 2(2) s1 s2 by (cases e1; cases e2; simp add: Let_def)
    then show ?thesis using k1 k by blast
  qed
qed

section \<open>Timers and role changes\<close>

lemma resetElectionTimer_steady [node_simps]: "steady B n (resetElectionTimer n)"
  by (simp add: resetElectionTimer_def Let_def steady_def node_ok_def)

lemma resetElectionTimer_fields [simp]:
  "rn_currentTerm (resetElectionTimer n) = rn_currentTerm n"
  "rn_votedFor (resetElectionTimer n) = rn_votedFor n"
  "rn_state (resetElectionTimer n) = rn_state n"
  "rn_raftLog (resetElectionTimer n) = rn_raftLog n"
  "rn_id (resetElectionTimer n) = rn_id n"
  "rn_peers (resetElectionTimer n) = rn_peers n"
  "rn_cfg (resetElectionTimer n) = rn_cfg n"
  "rn_leader (resetElectionTimer n) = rn_leader n"
  "rn_commitIndex (resetElectionTimer n) = rn_commitIndex n"
  "rn_lastApplied (resetElectionTimer n) = rn_lastApplied n"
  "rn_storage (resetElectionTimer n) = rn_storage n"
  "rn_tasks (resetElectionTimer n) = rn_tasks n"
  "rn_pending (resetElectionTimer n) = rn_pending n"
  "rn_leaderID (resetElectionTimer n) = rn_leaderID n"
  "rn_snapshotData (resetElectionTimer n) = rn_snapshotData n"
  "rn_heartbeatTimer (resetElectionTimer n) = rn_heartbeatTimer n"
  by (simp_all add: resetElectionTimer_def Let_def)

lemma resetElectionTimer_armed: "timer_ok (rn_cfg n) \<Longrightarrow> rn_electionTimer (resetElectionTimer n) \<in> range Armed"
  by (simp add: resetElectionTimer_def timer_ok_def Let_def)

lemma resetElectionTimer_panic:
  "timer_ok (rn_cfg n) \<Longrightarrow> rn_panicked (resetElectionTimer n) = rn_panicked n"
  "timer_ok (rn_cfg n) \<Longrightarrow> rn_electionTimer (resetElectionTimer n) \<noteq> NoTimer"
  by (simp_all add: resetElectionTimer_def timer_ok_def Let_def)

text \<open>Whether or not it succeeds, saving the metadata leaves the entries alone.\<close>

lemma SaveMeta_log:
  assumes "rl_ok B rl"
  shows "rl_ok B (fst (SaveMeta B t v rl))" "log_at B (fst (SaveMeta B t v rl)) = log_at B rl"
    "rl_snapshotIndex (fst (SaveMeta B t v rl)) = rl_snapshotIndex rl"
proof -
  obtain rl' e where "SaveMeta B t v rl = (rl', e)" by fastforce
  then show "rl_ok B (fst (SaveMeta B t v rl))" "log_at B (fst (SaveMeta B t v rl)) = log_at B rl"
    "rl_snapshotIndex (fst (SaveMeta B t v rl)) = rl_snapshotIndex rl"
    using assms SaveMeta_fail [of B t v rl rl'] SaveMeta_commit [OF assms, of t v rl'] by (cases e; auto)+
qed

text \<open>Saving a valid vote on a healthy disk.\<close>

lemma SaveMeta_saved:
  assumes "rl_ok B rl" "bolt_writes_ok B" "utf8_valid v" "length v \<le> 300000000"
  shows "rl_ok B (fst (SaveMeta B t v rl))" "LoadMeta B (fst (SaveMeta B t v rl)) = Inr (t, v)"
    "log_at B (fst (SaveMeta B t v rl)) = log_at B rl"
    "rl_snapshotIndex (fst (SaveMeta B t v rl)) = rl_snapshotIndex rl"
    "rl_snapshotTerm (fst (SaveMeta B t v rl)) = rl_snapshotTerm rl"
proof -
  obtain rl' where r: "SaveMeta B t v rl = (rl', None)" using SaveMeta_ok [OF assms(1,2,4)] .
  note c = SaveMeta_commit [OF assms(1) r]
  show "rl_ok B (fst (SaveMeta B t v rl))" "LoadMeta B (fst (SaveMeta B t v rl)) = Inr (t, v)"
    "log_at B (fst (SaveMeta B t v rl)) = log_at B rl"
    "rl_snapshotIndex (fst (SaveMeta B t v rl)) = rl_snapshotIndex rl"
    "rl_snapshotTerm (fst (SaveMeta B t v rl)) = rl_snapshotTerm rl"
    using c assms(3) r by (simp_all add: utf8_valid_def)
qed

lemma becomeFollower_fields [simp]:
  "rn_currentTerm (becomeFollower B t n) = t"
  "rn_votedFor (becomeFollower B t n) = []"
  "rn_state (becomeFollower B t n) = Follower"
  "rn_leader (becomeFollower B t n) = None"
  "rn_id (becomeFollower B t n) = rn_id n"
  "rn_peers (becomeFollower B t n) = rn_peers n"
  "rn_cfg (becomeFollower B t n) = rn_cfg n"
  "rn_commitIndex (becomeFollower B t n) = rn_commitIndex n"
  "rn_lastApplied (becomeFollower B t n) = rn_lastApplied n"
  "rn_storage (becomeFollower B t n) = rn_storage n"
  "rn_raftLog (becomeFollower B t n) = fst (SaveMeta B t [] (rn_raftLog n))"
  "rn_snapshotData (becomeFollower B t n) = rn_snapshotData n"
  by (simp_all add: becomeFollower_def)

lemma becomeFollower_steady [node_simps]:
  assumes "bolt_writes_ok B" "rn_currentTerm n < t"
  shows "steady B n (becomeFollower B t n)"
  using assms SaveMeta_saved(1,2) [of B "rn_raftLog n" "[]" t]
  by (simp add: steady_def node_ok_def less_imp_le) force

lemma becomeFollower_panic:
  "timer_ok (rn_cfg n) \<Longrightarrow> rn_panicked (becomeFollower B t n) = rn_panicked n"
  by (simp add: becomeFollower_def resetElectionTimer_panic)

text \<open>The no-op entry of a new leader always fits into the log.\<close>

lemma noop_entry_fits: "entry_fits (noop_entry i t)"
proof -
  have "length (print_json (json_entry (noop_entry i t))) \<le> 500"
    using length_show_u64 [of i] length_show_u64 [of t] length_quote [of "''index''"] length_quote [of "''term''"]
      length_quote [of "''command''"] length_quote [of "''op''"] length_quote [of "''NOOP''"] length_quote [of "''key''"]
      length_quote [of "[]"]
    by (simp add: json_entry_def json_command_def omit_if_def noop_entry_def zero_command_def OpNoop_def json_u64_def)
  then show ?thesis by (simp add: entry_fits_def max_value_size_def)
qed

lemma clean_noop: "clean_entry (noop_entry i t) = noop_entry i t"
  by (simp add: noop_entry_def clean_entry_def clean_command_def zero_command_def OpNoop_def ascii_to_valid_utf8)

lemma clean_command_idem [simp]: "clean_command (clean_command c) = clean_command c"
  using utf8_valid_to_valid_utf8 by (simp add: clean_command_def utf8_valid_def)

lemma becomeLeader_keeps:
  assumes "node_ok B n"
  shows "node_ok B (becomeLeader B n)" "rn_id (becomeLeader B n) = rn_id n"
    "rn_peers (becomeLeader B n) = rn_peers n" "rn_cfg (becomeLeader B n) = rn_cfg n"
    "rn_currentTerm (becomeLeader B n) = rn_currentTerm n"
    "rn_votedFor (becomeLeader B n) = rn_votedFor n"
    "rn_state (becomeLeader B n) = (if rn_state n = Candidate then Leader else rn_state n)"
proof -
  have "keeps_meta B rl (fst (Append B e rl))" for rl e
    by (metis keeps_meta_Append prod.collapse)
  then show "node_ok B (becomeLeader B n)" "rn_id (becomeLeader B n) = rn_id n"
    "rn_peers (becomeLeader B n) = rn_peers n" "rn_cfg (becomeLeader B n) = rn_cfg n"
    "rn_currentTerm (becomeLeader B n) = rn_currentTerm n"
    "rn_votedFor (becomeLeader B n) = rn_votedFor n"
    "rn_state (becomeLeader B n) = (if rn_state n = Candidate then Leader else rn_state n)"
    using assms
    by (simp_all add: becomeLeader_def Let_def node_ok_def keeps_meta_def resetHeartbeatTimer_def)
qed

section \<open>RPC handlers\<close>

lemma ae_commit_steady [node_simps]: "steady B n (ae_commit req n)"
  by (simp add: ae_commit_def Let_def steady_def node_ok_def)

lemma ae_commit_fields [simp]:
  "rn_raftLog (ae_commit req n) = rn_raftLog n" "rn_state (ae_commit req n) = rn_state n"
  "rn_currentTerm (ae_commit req n) = rn_currentTerm n" "rn_votedFor (ae_commit req n) = rn_votedFor n"
  "rn_lastApplied (ae_commit req n) = rn_lastApplied n" "rn_panicked (ae_commit req n) = rn_panicked n"
  by (simp_all add: ae_commit_def Let_def)

text \<open>
  The stages of \<open>HandleAppendEntries\<close> after the term check, shared by the proofs about it: the node
  when the log is examined, and the rest.
\<close>

definition ae_enter :: "'db bolt \<Rightarrow> append_entries_request \<Rightarrow> ('db, 'st) raft_node \<Rightarrow> ('db, 'st) raft_node" where
  "ae_enter B req n =
     (let n1 = resetElectionTimer n in
      (if rn_currentTerm n1 < aer_Term req then becomeFollower B (aer_Term req) n1 else n1)
        \<lparr>rn_leaderID := aer_LeaderID req\<rparr>)"

lemma ae_enter_fields [simp]:
  "rn_state (ae_enter B req n) = (if rn_currentTerm n < aer_Term req then Follower else rn_state n)"
  "rn_id (ae_enter B req n) = rn_id n"
  "rn_commitIndex (ae_enter B req n) = rn_commitIndex n"
  "rn_lastApplied (ae_enter B req n) = rn_lastApplied n"
  "rn_raftLog (ae_enter B req n) =
     (if rn_currentTerm n < aer_Term req then fst (SaveMeta B (aer_Term req) [] (rn_raftLog n))
      else rn_raftLog n)"
  "rn_currentTerm (ae_enter B req n) = (if rn_currentTerm n < aer_Term req then aer_Term req else rn_currentTerm n)"
  "rn_leaderID (ae_enter B req n) = aer_LeaderID req"
  by (simp_all add: ae_enter_def Let_def)

lemma ae_enter_steady:
  "bolt_writes_ok B \<Longrightarrow> steady B n (ae_enter B req n)"
  unfolding ae_enter_def Let_def
  by (auto intro!: steady_trans [OF _ steady_other(1)] resetElectionTimer_steady
      intro: steady_trans [OF resetElectionTimer_steady becomeFollower_steady])

lemma ae_enter_panic: "timer_ok (rn_cfg n) \<Longrightarrow> rn_panicked (ae_enter B req n) = rn_panicked n"
  by (simp add: ae_enter_def Let_def resetElectionTimer_panic becomeFollower_panic)

definition ae_reply :: "append_entries_request \<Rightarrow> ('db, 'st) raft_node \<Rightarrow> append_entries_response" where
  "ae_reply req n = zero_aes\<lparr>aes_FollowerID := rn_id n,
     aes_Term := if rn_currentTerm n < aer_Term req then aer_Term req else rn_currentTerm n\<rparr>"

lemma HandleAppendEntries_eq:
  assumes "timer_ok (rn_cfg n)" "\<not> rn_panicked n" "\<not> aer_Term req < rn_currentTerm n"
  shows "HandleAppendEntries B req n =
      (case ae_check B (rn_raftLog (ae_enter B req n)) req (ae_reply req n) of
         Some rej \<Rightarrow> (ae_enter B req n, rej)
       | None \<Rightarrow> (case ae_append B (aer_PrevLogIndex req + 1) (aer_Entries req) (rn_raftLog (ae_enter B req n)) of
            (rl, False) \<Rightarrow> ((ae_enter B req n)\<lparr>rn_raftLog := rl\<rparr>, ae_reply req n)
          | (rl, True) \<Rightarrow> (let n4 = ae_commit req ((ae_enter B req n)\<lparr>rn_raftLog := rl\<rparr>) in
              (n4, (ae_reply req n)\<lparr>aes_Success := True, aes_MatchIndex := LastIndex B (rn_raftLog n4)\<rparr>))))"
proof (cases "rn_currentTerm n < aer_Term req")
  case True
  then have e: "ae_enter B req n = (becomeFollower B (aer_Term req) (resetElectionTimer n))\<lparr>rn_leaderID := aer_LeaderID req\<rparr>"
      and r: "ae_reply req n = zero_aes\<lparr>aes_FollowerID := rn_id n, aes_Term := aer_Term req\<rparr>"
    by (simp_all add: ae_enter_def ae_reply_def Let_def)
  show ?thesis unfolding e r using True assms
    by (simp add: HandleAppendEntries_def Let_def resetElectionTimer_panic becomeFollower_panic
        split: option.split prod.split bool.split)
next
  case no: False
  then have e: "ae_enter B req n = (resetElectionTimer n)\<lparr>rn_leaderID := aer_LeaderID req\<rparr>"
      and r: "ae_reply req n = zero_aes\<lparr>aes_FollowerID := rn_id n, aes_Term := rn_currentTerm n\<rparr>"
    by (simp_all add: ae_enter_def ae_reply_def Let_def)
  show ?thesis unfolding e r using no assms
    by (simp add: HandleAppendEntries_def Let_def resetElectionTimer_panic
        split: option.split prod.split bool.split)
qed

lemma HandleAppendEntries_cases:
  assumes "timer_ok (rn_cfg n)" "\<not> rn_panicked n" "HandleAppendEntries B req n = (n', resp)"
  obtains
    (stale) "aer_Term req < rn_currentTerm n" "n' = n"
      "resp = zero_aes\<lparr>aes_FollowerID := rn_id n, aes_Term := rn_currentTerm n\<rparr>"
  | (reject) "\<not> aer_Term req < rn_currentTerm n" "n' = ae_enter B req n"
      "ae_check B (rn_raftLog (ae_enter B req n)) req (ae_reply req n) = Some resp"
  | (failed) rl where "\<not> aer_Term req < rn_currentTerm n"
      "ae_check B (rn_raftLog (ae_enter B req n)) req (ae_reply req n) = None"
      "ae_append B (aer_PrevLogIndex req + 1) (aer_Entries req) (rn_raftLog (ae_enter B req n)) = (rl, False)"
      "n' = (ae_enter B req n)\<lparr>rn_raftLog := rl\<rparr>" "resp = ae_reply req n"
  | (accept) rl where "\<not> aer_Term req < rn_currentTerm n"
      "ae_check B (rn_raftLog (ae_enter B req n)) req (ae_reply req n) = None"
      "ae_append B (aer_PrevLogIndex req + 1) (aer_Entries req) (rn_raftLog (ae_enter B req n)) = (rl, True)"
      "n' = ae_commit req ((ae_enter B req n)\<lparr>rn_raftLog := rl\<rparr>)"
      "resp = (ae_reply req n)\<lparr>aes_Success := True, aes_MatchIndex := LastIndex B rl\<rparr>"
proof (cases "aer_Term req < rn_currentTerm n")
  case True
  then show ?thesis using assms(3) by (intro stale) (auto simp: HandleAppendEntries_def)
next
  case False
  let ?n3 = "ae_enter B req n" and ?r = "ae_reply req n"
  note eq = HandleAppendEntries_eq [OF assms(1,2) False, of B, unfolded assms(3)]
  obtain rl b where app: "ae_append B (aer_PrevLogIndex req + 1) (aer_Entries req) (rn_raftLog ?n3) = (rl, b)"
    by fastforce
  show ?thesis
  proof (cases "ae_check B (rn_raftLog ?n3) req ?r")
    case (Some rej)
    with eq False show ?thesis by (intro reject) simp_all
  next
    case None
    show ?thesis
    proof (cases b)
      case True
      with eq app None \<open>\<not> aer_Term req < rn_currentTerm n\<close> show ?thesis by (intro accept) (simp_all add: Let_def)
    next
      case b: False
      with eq app None False show ?thesis by (intro failed) simp_all
    qed
  qed
qed

lemma HandleAppendEntries_steady:
  assumes "bolt_writes_ok B" "\<not> rn_panicked n" "HandleAppendEntries B req n = (n', resp)"
  shows "steady B n n'"
proof (unfold steady_def, intro impI)
  assume ok: "node_ok B n"
  then have tm: "timer_ok (rn_cfg n)" by (simp add: node_ok_def)
  note enter = ae_enter_steady [OF assms(1), of n req]
  from tm assms(2,3) have "steady B n n'"
  proof (cases rule: HandleAppendEntries_cases)
    case stale
    then show ?thesis by simp
  next
    case reject
    then show ?thesis using enter by simp
  next
    case (failed rl)
    then show ?thesis
      using steady_trans [OF enter keeps_meta_steady [OF keeps_meta_ae_append]] by simp
  next
    case (accept rl)
    then show ?thesis
      using steady_trans [OF steady_trans [OF enter keeps_meta_steady [OF keeps_meta_ae_append]] ae_commit_steady]
      by simp
  qed
  from steadyD [OF this ok] show "node_ok B n' \<and> rn_id n' = rn_id n \<and> rn_peers n' = rn_peers n \<and>
     rn_cfg n' = rn_cfg n \<and> rn_currentTerm n \<le> rn_currentTerm n' \<and>
     (rn_currentTerm n' = rn_currentTerm n \<longrightarrow> rn_votedFor n \<noteq> [] \<longrightarrow> rn_votedFor n' = rn_votedFor n) \<and>
     (rn_state n' \<noteq> Follower \<longrightarrow> rn_state n' = rn_state n \<and> rn_currentTerm n' = rn_currentTerm n)"
    by simp
qed

text \<open>\<open>RequestVote\<close>: the node after the term check, and what a grant means.\<close>

definition rv_enter :: "'db bolt \<Rightarrow> request_vote_request \<Rightarrow> ('db, 'st) raft_node \<Rightarrow> ('db, 'st) raft_node" where
  "rv_enter B req n =
     (if rn_currentTerm n < rvr_Term req then becomeFollower B (rvr_Term req) n else n)"

lemma rv_enter_steady: "bolt_writes_ok B \<Longrightarrow> steady B n (rv_enter B req n)"
  by (simp add: rv_enter_def becomeFollower_steady)

lemma rv_enter_term: "\<not> rvr_Term req < rn_currentTerm n \<Longrightarrow> rn_currentTerm (rv_enter B req n) = rvr_Term req"
  by (auto simp: rv_enter_def)

definition grants :: "'db bolt \<Rightarrow> request_vote_request \<Rightarrow> ('db, 'st) raft_node \<Rightarrow> bool" where
  "grants B req n \<longleftrightarrow> \<not> rvr_Term req < rn_currentTerm n \<and>
     rn_votedFor (rv_enter B req n) \<in> {[], rvr_CandidateID req} \<and>
     candidateUpToDate B req (rn_raftLog (rv_enter B req n))"

definition cast_vote :: "'db bolt \<Rightarrow> string \<Rightarrow> ('db, 'st) raft_node \<Rightarrow> ('db, 'st) raft_node" where
  "cast_vote B c n = resetElectionTimer (n\<lparr>rn_votedFor := c,
     rn_raftLog := fst (SaveMeta B (rn_currentTerm n) c (rn_raftLog n))\<rparr>)"

lemma HandleRequestVote_eq:
  assumes "timer_ok (rn_cfg n)" "\<not> rn_panicked n"
  shows "HandleRequestVote B req n =
    (if rvr_Term req < rn_currentTerm n
     then (n, zero_rvs\<lparr>rvs_VoterID := rn_id n, rvs_Term := rn_currentTerm n\<rparr>)
     else (if grants B req n then cast_vote B (rvr_CandidateID req) (rv_enter B req n) else rv_enter B req n,
           zero_rvs\<lparr>rvs_VoterID := rn_id n, rvs_Term := rvr_Term req, rvs_VoteGranted := grants B req n\<rparr>))"
  using assms
  by (cases "rn_currentTerm n = rvr_Term req")
    (auto simp: HandleRequestVote_def grants_def rv_enter_def cast_vote_def Let_def becomeFollower_panic
      zero_rvs_def)

lemma cast_vote_steady:
  assumes "bolt_writes_ok B" "savable c" "rn_votedFor n \<in> {[], c}"
  shows "steady B n (cast_vote B c n)"
  using assms SaveMeta_saved(1,2) [of B "rn_raftLog n" c "rn_currentTerm n"]
  by (auto simp: steady_def node_ok_def cast_vote_def savable_def)

lemma HandleRequestVote_steady:
  assumes "bolt_writes_ok B" "savable (rvr_CandidateID req)" "\<not> rn_panicked n" "node_ok B n"
    "HandleRequestVote B req n = (n', resp)"
  shows "steady B n n'"
proof -
  have tm: "timer_ok (rn_cfg n)" using assms(4) by (simp add: node_ok_def)
  note enter = rv_enter_steady [OF assms(1), of n req]
  show ?thesis
  proof (cases "grants B req n")
    case True
    then have "steady B (rv_enter B req n) (cast_vote B (rvr_CandidateID req) (rv_enter B req n))"
      by (intro cast_vote_steady assms) (simp add: grants_def)
    with True enter assms(5) show ?thesis
      by (auto simp: HandleRequestVote_eq tm assms(3) split: if_splits intro: steady_trans)
  next
    case False
    with enter assms(5) show ?thesis
      by (auto simp: HandleRequestVote_eq tm assms(3) split: if_splits)
  qed
qed

lemma HandleRequestVote_granted:
  assumes "bolt_writes_ok B" "savable (rvr_CandidateID req)" "\<not> rn_panicked n" "node_ok B n"
    "HandleRequestVote B req n = (n', resp)" "rvs_VoteGranted resp"
  shows "rn_currentTerm n' = rvr_Term req" "rn_votedFor n' = rvr_CandidateID req"
    "rvs_Term resp = rvr_Term req" "rvs_VoterID resp = rn_id n"
    "rn_currentTerm n = rvr_Term req \<Longrightarrow> rn_votedFor n \<in> {[], rvr_CandidateID req}"
proof -
  have tm: "timer_ok (rn_cfg n)" using assms(4) by (simp add: node_ok_def)
  show "rn_currentTerm n' = rvr_Term req" "rn_votedFor n' = rvr_CandidateID req"
    "rvs_Term resp = rvr_Term req" "rvs_VoterID resp = rn_id n"
    "rn_currentTerm n = rvr_Term req \<Longrightarrow> rn_votedFor n \<in> {[], rvr_CandidateID req}"
    using assms(5,6) rv_enter_term [of req n B]
    by (auto simp: HandleRequestVote_eq tm assms(3) cast_vote_def zero_rvs_def grants_def rv_enter_def
        split: if_splits)
qed

lemma HandleInstallSnapshot_steady:
  assumes "bolt_writes_ok B"
    "HandleInstallSnapshot B E req n = (n', resp)"
  shows "steady B n n'"
proof -
  define n1 where "n1 = (if rn_currentTerm n < isr_Term req then becomeFollower B (isr_Term req) n else n)"
  define n2 where "n2 = resetElectionTimer n1"
  define n3 where "n3 = n2\<lparr>rn_leaderID := isr_LeaderID req\<rparr>"
  obtain st e1 where r: "eng_RestoreSnapshot E (isr_Data req) (rn_storage n3) = (st, e1)" by fastforce
  define n4 where "n4 = n3\<lparr>rn_storage := st\<rparr>"
  obtain rl e2 where c: "Compact B (isr_LastIncludedIndex req) (isr_LastIncludedTerm req) (rn_raftLog n3) = (rl, e2)"
    by fastforce
  define n5 where "n5 = n4\<lparr>rn_raftLog := rl\<rparr>"
  define n6 where "n6 = n5\<lparr>rn_commitIndex := isr_LastIncludedIndex req,
    rn_lastApplied := isr_LastIncludedIndex req, rn_snapshotData := isr_Data req\<rparr>"
  have "steady B n n1" using assms(1) by (simp add: becomeFollower_steady n1_def)
  moreover from this have n2: "steady B n n2"
    unfolding n2_def using resetElectionTimer_steady by (rule steady_trans)
  moreover from this have "steady B n n4"
    unfolding n4_def n3_def by (blast intro: steady_trans steady_other(1,2))
  moreover from this have "steady B n n5"
    unfolding n5_def using keeps_meta_steady [of B n4 rl] keeps_meta_Compact [OF c]
    by (simp add: n4_def) (rule steady_trans)
  moreover from this have "steady B n n6"
    by (rule steady_trans) (simp add: n6_def steady_def node_ok_def)
  moreover from \<open>steady B n n5\<close> have "steady B n (n5\<lparr>rn_panicked := b\<rparr>)" for b
    using steady_other(10) by (rule steady_trans)
  moreover have "n' \<in> {n, n1, n2, n4, n6} \<union> range (\<lambda>b. n5\<lparr>rn_panicked := b\<rparr>)"
  proof -
    have "n' = fst (HandleInstallSnapshot B E req n)" using assms(2) by simp
    also have "\<dots> \<in> {n, n1, n2, n4, n6} \<union> range (\<lambda>b. n5\<lparr>rn_panicked := b\<rparr>)"
      unfolding HandleInstallSnapshot_def Let_def n1_def [symmetric] n2_def [symmetric] n3_def [symmetric] r prod.case
      using c by (cases e1; cases e2) (simp_all add: n4_def n5_def n6_def)
    finally show ?thesis .
  qed
  ultimately show ?thesis by (elim UnE insertE emptyE) auto
qed

section \<open>Elections\<close>

lemma startElection_keeps:
  assumes "bolt_writes_ok B" "node_ok B n" "\<not> rn_panicked n" "startElection B n = (n', el)"
  shows "node_ok B n'" "rn_id n' = rn_id n" "rn_peers n' = rn_peers n" "rn_cfg n' = rn_cfg n"
    "rn_currentTerm n' = rn_currentTerm n + 1" "rn_votedFor n' = rn_id n" "rn_state n' = Candidate"
    "\<not> rn_panicked n'"
    "\<exists>r. el = Some \<lparr>el_req = r, el_votes = 1, el_quorum = election_quorum (rn_peers n),
       el_won = False, el_waiting = rn_peers n\<rparr> \<and>
       rvr_Term r = rn_currentTerm n + 1 \<and> rvr_CandidateID r = rn_id n \<and>
       rvr_LastLogIndex r = LastIndex B (rn_raftLog n') \<and> rvr_LastLogTerm r = LastTerm B (rn_raftLog n')"
proof -
  have tm: "timer_ok (rn_cfg n)" and id: "valid_id (rn_id n)" and rl: "rl_ok B (rn_raftLog n)"
    using assms(2) by (simp_all add: node_ok_def)
  have "utf8_valid (rn_id n)" "length (rn_id n) \<le> 300000000" using id by (simp_all add: valid_id_def)
  note saved = SaveMeta_saved(1,2) [OF rl assms(1) this, of "rn_currentTerm n + 1"]
  define n2 where "n2 = n\<lparr>rn_state := Candidate, rn_currentTerm := rn_currentTerm n + 1, rn_votedFor := rn_id n,
    rn_raftLog := fst (SaveMeta B (rn_currentTerm n + 1) (rn_id n) (rn_raftLog n))\<rparr>"
  have n2: "node_ok B n2" "\<not> rn_panicked n2" "rn_state n2 = Candidate" "rn_votedFor n2 = rn_id n"
    "rn_currentTerm n2 = rn_currentTerm n + 1" "rn_id n2 = rn_id n" "rn_peers n2 = rn_peers n"
    "rn_cfg n2 = rn_cfg n" "rn_state n2 = Candidate"
    using saved tm id assms(3) by (simp_all add: n2_def node_ok_def)
  have live: "\<not> rn_panicked (resetElectionTimer n2)" using n2(2,8) tm by (simp add: resetElectionTimer_panic)
  have eq: "n' = resetElectionTimer n2" "el = Some \<lparr>el_req = \<lparr>rvr_Term = rn_currentTerm n2, rvr_CandidateID = rn_id n2,
      rvr_LastLogIndex = LastIndex B (rn_raftLog n2), rvr_LastLogTerm = LastTerm B (rn_raftLog n2)\<rparr>,
      el_votes = 1, el_quorum = election_quorum (rn_peers n2), el_won = False, el_waiting = rn_peers n2\<rparr>"
    using assms(4) live by (simp_all add: startElection_def Let_def n2_def)
  show "node_ok B n'" using steadyD(1) [OF resetElectionTimer_steady n2(1)] eq(1) by simp
  show "\<not> rn_panicked n'" using live eq(1) by simp
  show "rn_id n' = rn_id n" "rn_peers n' = rn_peers n" "rn_cfg n' = rn_cfg n"
    "rn_currentTerm n' = rn_currentTerm n + 1" "rn_votedFor n' = rn_id n" "rn_state n' = Candidate"
    using n2 eq(1) by simp_all
  show "\<exists>r. el = Some \<lparr>el_req = r, el_votes = 1, el_quorum = election_quorum (rn_peers n),
       el_won = False, el_waiting = rn_peers n\<rparr> \<and>
       rvr_Term r = rn_currentTerm n + 1 \<and> rvr_CandidateID r = rn_id n \<and>
       rvr_LastLogIndex r = LastIndex B (rn_raftLog n') \<and> rvr_LastLogTerm r = LastTerm B (rn_raftLog n')"
    using n2 eq by simp
qed

lemma startElection_log:
  assumes "bolt_writes_ok B" "node_ok B n"
  shows "log_at B (rn_raftLog (fst (startElection B n))) = log_at B (rn_raftLog n)"
    "rl_snapshotIndex (rn_raftLog (fst (startElection B n))) = rl_snapshotIndex (rn_raftLog n)"
    "rl_snapshotTerm (rn_raftLog (fst (startElection B n))) = rl_snapshotTerm (rn_raftLog n)"
proof -
  have "rl_ok B (rn_raftLog n)" "utf8_valid (rn_id n)" "length (rn_id n) \<le> 300000000"
    using assms(2) by (simp_all add: node_ok_def valid_id_def)
  note saved = SaveMeta_saved(3-5) [OF this(1) assms(1) this(2,3), of "rn_currentTerm n + 1"]
  show "log_at B (rn_raftLog (fst (startElection B n))) = log_at B (rn_raftLog n)"
    "rl_snapshotIndex (rn_raftLog (fst (startElection B n))) = rl_snapshotIndex (rn_raftLog n)"
    "rl_snapshotTerm (rn_raftLog (fst (startElection B n))) = rl_snapshotTerm (rn_raftLog n)"
    using saved by (simp_all add: startElection_def Let_def)
qed

lemma vote_reply_steady:
  "bolt_writes_ok B \<Longrightarrow> vote_reply B p r el n = (n', el') \<Longrightarrow> steady B n n'"
  by (auto simp: vote_reply_def Let_def becomeFollower_steady split: option.splits if_splits)

section \<open>Replication and application\<close>

lemma broadcast_steady [node_simps]: "steady B n (broadcastAppendEntries n)"
  by (simp add: broadcastAppendEntries_def steady_other)

lemma run_ticks_steady [node_simps]:
  "steady B n (fst (run_electionTick n))" "steady B n (run_heartbeatTick n)"
  by (simp_all add: run_electionTick_def resetElectionTimer_steady)
    (simp add: run_heartbeatTick_def resetHeartbeatTimer_def broadcastAppendEntries_def steady_def node_ok_def)

lemma replicateToPeer_steady: "replicateToPeer B p n = (n', r) \<Longrightarrow> steady B n n'"
  by (auto simp: replicateToPeer_def Let_def steady_other split: option.splits if_splits sum.splits)

text \<open>A request can only be built by a leader, and carries its term and identity.\<close>

lemma replicateToPeer_never_panics: "node_ok B n \<Longrightarrow> replicateToPeer B p n = (n', r) \<Longrightarrow> n' = n"
  by (auto simp: replicateToPeer_def node_ok_def Let_def split: option.splits if_splits sum.splits)

lemma snapshot_reply_steady: "bolt_writes_ok B \<Longrightarrow> steady B n (snapshot_reply B p i resp n)"
  by (auto simp: snapshot_reply_def becomeFollower_steady steady_other split: option.split)

lemma append_reply_steady: "bolt_writes_ok B \<Longrightarrow> steady B n (append_reply B p resp n)"
proof -
  have "steady B n (n\<lparr>rn_leader := Some ls, rn_commitIndex := c, rn_tasks := ts\<rparr>)" for ls c ts
    by (simp add: steady_def node_ok_def)
  then show "bolt_writes_ok B \<Longrightarrow> ?thesis"
    by (auto simp: append_reply_def Let_def becomeFollower_steady steady_other split: option.split)
qed

lemma apply_entry_leader [simp]: "rn_leader (apply_entry E e n) = rn_leader n"
  by (simp add: apply_entry_def Let_def split: prod.split option.split)

lemma apply_entry_steady: "steady B n (apply_entry E e n)"
  by (simp add: steady_def node_ok_def)

lemma applyCommitted_steady: "steady B n (applyCommitted B E n)"
proof (induction B E n rule: applyCommitted.induct)
  case (1 B E n)
  let ?n1 = "n\<lparr>rn_lastApplied := rn_lastApplied n + 1\<rparr>"
  show ?case
  proof (cases "rn_lastApplied n < rn_commitIndex n")
    case True
    show ?thesis
    proof (cases "Get B (rn_lastApplied ?n1) (rn_raftLog ?n1)")
      case (Inl e)
      with True show ?thesis by (subst applyCommitted.simps) (simp add: steady_other)
    next
      case (Inr entry)
      have n2: "steady B n (apply_entry E entry ?n1)"
        using steady_other(4) apply_entry_steady by (rule steady_trans)
      from Inr True have "applyCommitted B E n = (if rn_panicked (apply_entry E entry ?n1)
          then apply_entry E entry ?n1 else applyCommitted B E (apply_entry E entry ?n1))"
        by (subst applyCommitted.simps) (simp add: Let_def)
      with n2 1 [OF True refl Inr refl] show ?thesis by (auto intro: steady_trans)
    qed
  next
    case False
    then show ?thesis by (subst applyCommitted.simps) simp
  qed
qed

lemma takeSnapshot_steady: "steady B n (takeSnapshot B i t snap n)"
proof -
  obtain rl e where c: "Compact B i t (rn_raftLog n) = (rl, e)" by fastforce
  note k = keeps_meta_steady [OF keeps_meta_Compact [OF c]]
  have "steady B n (n\<lparr>rn_raftLog := rl, rn_snapshotData := d\<rparr>)" for d
    using k steady_other(5) by (rule steady_trans)
  moreover have "steady B n (n\<lparr>rn_raftLog := rl, rn_panicked := b\<rparr>)" for b
    using k steady_other(10) by (rule steady_trans)
  ultimately show ?thesis using c by (simp add: takeSnapshot_def split: sum.split option.split)
qed

lemma propose_append_steady:
  assumes "propose_append B cmd n = (n', r)"
  shows "steady B n n'"
proof -
  define entry where "entry = \<lparr>le_Index = LastIndex B (rn_raftLog n) + 1, le_Term = rn_currentTerm n, le_Command = cmd\<rparr>"
  obtain rl e where a: "Append B entry (rn_raftLog n) = (rl, e)" by fastforce
  note k = keeps_meta_steady [OF keeps_meta_Append [OF a]]
  have "steady B n (n\<lparr>rn_raftLog := rl, rn_pending := pd, rn_nextChan := c\<rparr>)" for pd c
    by (rule steady_trans [OF k]) (simp add: steady_def node_ok_def)
  with a k assms show ?thesis
    by (auto simp: propose_append_def Let_def entry_def [symmetric] split: if_splits option.splits)
qed

lemma Propose_wait_steady: "Propose_wait wk w n = (n', r) \<Longrightarrow> steady B n n'"
  by (auto simp: Propose_wait_def steady_other split: wake.splits)

lemma Stop_signal_steady: "steady B n (Stop_signal n)"
  by (simp add: Stop_signal_def steady_def node_ok_def)

section \<open>Terms and votes\<close>

text \<open>
  What all methods guarantee, elections included: the invariant is kept, the term never decreases and
  a vote is never changed within a term.
\<close>

definition advances :: "'db bolt \<Rightarrow> ('db, 'st) raft_node \<Rightarrow> ('db, 'st) raft_node \<Rightarrow> bool" where
  "advances B n n' \<longleftrightarrow> (node_ok B n \<longrightarrow> node_ok B n' \<and> rn_currentTerm n \<le> rn_currentTerm n' \<and>
     (rn_currentTerm n' = rn_currentTerm n \<longrightarrow> rn_votedFor n \<noteq> [] \<longrightarrow> rn_votedFor n' = rn_votedFor n))"

lemma advancesD:
  assumes "advances B n n'" "node_ok B n"
  shows "node_ok B n'" "rn_currentTerm n \<le> rn_currentTerm n'"
    "rn_currentTerm n' = rn_currentTerm n \<Longrightarrow> rn_votedFor n \<noteq> [] \<Longrightarrow> rn_votedFor n' = rn_votedFor n"
  using assms unfolding advances_def by blast+

lemma advances_refl [simp, intro]: "advances B n n"
  by (simp add: advances_def)

lemma advances_trans [trans]:
  assumes "advances B a b" "advances B b c"
  shows "advances B a c"
proof (unfold advances_def, intro impI)
  assume ok: "node_ok B a"
  note ab = advancesD [OF assms(1) ok]
  note bc = advancesD [OF assms(2) ab(1)]
  have "rn_votedFor c = rn_votedFor a" if "rn_currentTerm c = rn_currentTerm a" "rn_votedFor a \<noteq> []"
  proof -
    have "rn_currentTerm b = rn_currentTerm a" using ab(2) bc(2) that(1) by simp
    with ab(3) bc(3) that show ?thesis by simp
  qed
  then show "node_ok B c \<and> rn_currentTerm a \<le> rn_currentTerm c \<and>
     (rn_currentTerm c = rn_currentTerm a \<longrightarrow> rn_votedFor a \<noteq> [] \<longrightarrow> rn_votedFor c = rn_votedFor a)"
    using bc(1) order_trans [OF ab(2) bc(2)] by simp
qed

lemma steady_advances: "steady B n n' \<Longrightarrow> advances B n n'"
  by (simp add: steady_def advances_def)

lemma HandleRequestVote_advances:
  assumes "bolt_writes_ok B" "savable (rvr_CandidateID req)" "\<not> rn_panicked n" "HandleRequestVote B req n = (n', resp)"
  shows "advances B n n'"
  using steadyD [OF HandleRequestVote_steady [OF assms(1-3) _ assms(4)]] unfolding advances_def by blast

lemma startElection_advances:
  assumes "bolt_writes_ok B" "\<not> rn_panicked n" "rn_currentTerm n \<noteq> - 1" "startElection B n = (n', el)"
  shows "advances B n n'"
proof (unfold advances_def, intro impI)
  assume "node_ok B n"
  note k = startElection_keeps [OF assms(1) this assms(2,4)]
  have "rn_currentTerm n < rn_currentTerm n'" using k(5) assms(3) by (simp add: word_less_nat_alt unat_inc)
  then show "node_ok B n' \<and> rn_currentTerm n \<le> rn_currentTerm n' \<and>
     (rn_currentTerm n' = rn_currentTerm n \<longrightarrow> rn_votedFor n \<noteq> [] \<longrightarrow> rn_votedFor n' = rn_votedFor n)"
    using k(1) by auto
qed

lemma finishElection_advances: "advances B n (finishElection B el n)"
  using becomeLeader_keeps [of B n] by (auto simp: finishElection_def advances_def)

section \<open>Restart\<close>

text \<open>The volatile state of a new node.\<close>

lemma NewRaftNode_volatile:
  assumes "NewRaftNode B mkdirAll bolt_Open rnd cfg store = Inr n"
  shows "rn_state n = Follower" "rn_leader n = None" "rn_storage n = store" "rn_snapshotData n = []" "rn_tasks n = []"
    "rn_pending n = Map.empty" "rn_lastApplied n = 0" "rn_commitIndex n = 0"
  using assms by (auto simp: NewRaftNode_def split: sum.splits prod.splits)

text \<open>A node reopened on the database of a stopped or crashed one remembers its term and vote.\<close>

lemma NewRaftNode_reopen:
  assumes "bolt_spec B" "db_ok B db" "bolt_Open (raft_db_path cfg) = Inr db"
    and "LoadMeta B rl0 = Inr (t, v)" "rl_db rl0 = db"
    and "timer_ok cfg" "valid_id (nc_ID (cfg_Node cfg))"
    and "NewRaftNode B mkdirAll bolt_Open rnd cfg store = Inr n"
  shows "node_ok B n" "rn_currentTerm n = t" "rn_votedFor n = v" "rn_state n = Follower"
    "rn_id n = nc_ID (cfg_Node cfg)" "rn_peers n = peers_of cfg" "rn_cfg n = cfg" "\<not> rn_panicked n"
    "log_at B (rn_raftLog n) = log_at B rl0"
proof -
  obtain rl where rl: "newRaftLog B mkdirAll bolt_Open (raft_db_path cfg) = Inr rl"
    using assms(8) by (auto simp: NewRaftNode_def split: sum.splits)
  note re = newRaftLog_reopen [OF assms(1-3) rl]
  have cl: "\<not> rl_closed rl0" using assms(4) by (auto simp: LoadMeta_def)
  have lm: "LoadMeta B rl = Inr (t, v)" using re(3) assms(4,5) cl rl_okD(4) [OF re(1)] by (simp add: LoadMeta_def)
  have "n = \<lparr>rn_id = nc_ID (cfg_Node cfg), rn_peers = peers_of cfg, rn_raftLog = rl,
                    rn_currentTerm = t, rn_votedFor = v, rn_state = Follower,
                    rn_commitIndex = 0, rn_lastApplied = 0, rn_leaderID = [], rn_leader = None,
                    rn_storage = store, rn_electionTimer = NoTimer, rn_heartbeatTimer = NoTimer,
                    rn_cfg = cfg, rn_stopped = False, rn_pending = Map.empty, rn_nextChan = 0,
                    rn_done = Map.empty, rn_snapshotData = [], rn_tasks = [], rn_rand = rnd,
                    rn_draws = 0, rn_panicked = False\<rparr>"
    using assms(8) rl lm by (simp add: NewRaftNode_def)
  then show "node_ok B n" "rn_currentTerm n = t" "rn_votedFor n = v" "rn_state n = Follower"
    "rn_id n = nc_ID (cfg_Node cfg)" "rn_peers n = peers_of cfg" "rn_cfg n = cfg" "\<not> rn_panicked n"
    "log_at B (rn_raftLog n) = log_at B rl0"
    using re(1,2) lm assms(5,6,7) cl rl_okD(4) [OF re(1)] by (simp_all add: node_ok_def log_at_def Get_def fun_eq_iff)
qed

text \<open>A node opened for the first time.\<close>

lemma NewRaftNode_fresh:
  assumes "bolt_spec B" "\<not> tx_HasBucket B db logBucket" "\<not> tx_HasBucket B db metaBucket"
    "bolt_Open (raft_db_path cfg) = Inr db" "timer_ok cfg" "valid_id (nc_ID (cfg_Node cfg))"
    and "NewRaftNode B mkdirAll bolt_Open rnd cfg store = Inr n"
  shows "node_ok B n" "rn_currentTerm n = 0" "rn_votedFor n = []" "rn_state n = Follower"
    "rn_id n = nc_ID (cfg_Node cfg)" "rn_peers n = peers_of cfg" "rn_cfg n = cfg" "\<not> rn_panicked n"
    "log_at B (rn_raftLog n) i = None" "rl_snapshotIndex (rn_raftLog n) = 0"
    "rl_snapshotTerm (rn_raftLog n) = 0" "rn_commitIndex n = 0" "rn_lastApplied n = 0"
proof -
  obtain rl where rl: "newRaftLog B mkdirAll bolt_Open (raft_db_path cfg) = Inr rl"
    using assms(7) by (auto simp: NewRaftNode_def split: sum.splits)
  note re = newRaftLog_fresh [OF assms(1-4) rl]
  have "n = \<lparr>rn_id = nc_ID (cfg_Node cfg), rn_peers = peers_of cfg, rn_raftLog = rl,
                    rn_currentTerm = 0, rn_votedFor = [], rn_state = Follower,
                    rn_commitIndex = 0, rn_lastApplied = 0, rn_leaderID = [], rn_leader = None,
                    rn_storage = store, rn_electionTimer = NoTimer, rn_heartbeatTimer = NoTimer,
                    rn_cfg = cfg, rn_stopped = False, rn_pending = Map.empty, rn_nextChan = 0,
                    rn_done = Map.empty, rn_snapshotData = [], rn_tasks = [], rn_rand = rnd,
                    rn_draws = 0, rn_panicked = False\<rparr>"
    using assms(7) rl re(3) by (simp add: NewRaftNode_def)
  then show "node_ok B n" "rn_currentTerm n = 0" "rn_votedFor n = []" "rn_state n = Follower"
    "rn_id n = nc_ID (cfg_Node cfg)" "rn_peers n = peers_of cfg" "rn_cfg n = cfg" "\<not> rn_panicked n"
    "log_at B (rn_raftLog n) i = None" "rl_snapshotIndex (rn_raftLog n) = 0"
    "rl_snapshotTerm (rn_raftLog n) = 0" "rn_commitIndex n = 0" "rn_lastApplied n = 0"
    using re assms(5,6) by (simp_all add: node_ok_def)
qed

lemma NewRaftNode_starts:
  assumes "bolt_spec B" "bolt_writes_ok B" "\<not> tx_HasBucket B db logBucket" "\<not> tx_HasBucket B db metaBucket"
    "bolt_Open (raft_db_path cfg) = Inr db" "mkdirAll (extractDir (raft_db_path cfg)) = None"
  obtains n where "NewRaftNode B mkdirAll bolt_Open rnd cfg store = Inr n"
proof -
  obtain rl where rl: "newRaftLog B mkdirAll bolt_Open (raft_db_path cfg) = Inr rl"
    using newRaftLog_ok [of B mkdirAll "raft_db_path cfg" bolt_Open db] assms(2,5,6) by blast
  show ?thesis using that rl newRaftLog_fresh(3) [OF assms(1,3-5) rl] by (simp add: NewRaftNode_def)
qed

lemma NewRaftNode_restarts:
  assumes "bolt_writes_ok B" "node_ok B n" "rl_db (rn_raftLog n) = db" "bolt_Open (raft_db_path cfg) = Inr db"
    "mkdirAll (extractDir (raft_db_path cfg)) = None"
  shows "\<exists>m. NewRaftNode B mkdirAll bolt_Open rnd cfg store = Inr m"
proof -
  obtain rl where rl: "newRaftLog B mkdirAll bolt_Open (raft_db_path cfg) = Inr rl"
    using newRaftLog_ok [of B mkdirAll "raft_db_path cfg" bolt_Open db] assms(1,4,5) by blast
  have db: "bolt_spec B" "db_ok B db" "LoadMeta B (rn_raftLog n) = Inr (rn_currentTerm n, rn_votedFor n)"
    using assms(2,3) by (auto simp: node_ok_def rl_ok_def)
  have "LoadMeta B rl = LoadMeta B (rn_raftLog n)"
    using newRaftLog_reopen(3) [OF db(1,2) assms(4) rl] rl_okD(4) [OF newRaftLog_reopen(1) [OF db(1,2) assms(4) rl]]
      assms(2,3) by (simp add: LoadMeta_def node_ok_def rl_ok_def)
  then show ?thesis using rl db(3) by (simp add: NewRaftNode_def)
qed

end
