(* ===== verification/Cluster.thy ===== *)
theory Cluster
  imports Raft_Node_Spec
begin

text \<open>
  A cluster of nodes and its runs. The state holds the nodes, the position of each event loop
  (\<open>run\<close> is one goroutine, so a node runs one election at a time), every vote request and vote
  reply ever sent, and the elections won so far. Requests may be delivered late, several times or
  never; the reply of a peer is consumed at most once per election. AppendEntries and
  InstallSnapshot requests and replies are arbitrary values: nothing below depends on their
  contents. A node may crash at any point between two critical sections and restart from its
  database.
\<close>

section \<open>Steps of one node\<close>

text \<open>Everything a node does outside elections and votes.\<close>

inductive node_step ::
  "'db bolt \<Rightarrow> 'st engine \<Rightarrow> ('db, 'st) raft_node \<Rightarrow> ('db, 'st) raft_node \<Rightarrow> bool"
  for B :: "'db bolt" and E :: "'st engine" where
  append_entries: "HandleAppendEntries B req n = (n', resp) \<Longrightarrow> node_step B E n n'"
| install_snapshot: "HandleInstallSnapshot B E req n = (n', resp) \<Longrightarrow> node_step B E n n'"
| heartbeat: "node_step B E n (run_heartbeatTick n)"
| replicate: "TReplicate p \<in> set (rn_tasks n) \<Longrightarrow>
    replicateToPeer B p (n\<lparr>rn_tasks := remove1 (TReplicate p) (rn_tasks n)\<rparr>) = (n', rpc) \<Longrightarrow>
    node_step B E n n'"
| append_response: "p \<in> set (rn_peers n) \<Longrightarrow> node_step B E n (append_reply B p resp n)"
| snapshot_response: "p \<in> set (rn_peers n) \<Longrightarrow>
    node_step B E n (snapshot_reply B p snapshotIdx sresp n)"
| apply_task: "TApplyCommitted \<in> set (rn_tasks n) \<Longrightarrow>
    node_step B E n (applyCommitted B E (n\<lparr>rn_tasks := remove1 TApplyCommitted (rn_tasks n)\<rparr>))"
| snapshot_task: "TTakeSnapshot i t \<in> set (rn_tasks n) \<Longrightarrow>
    node_step B E n (takeSnapshot B i t snap (n\<lparr>rn_tasks := remove1 (TTakeSnapshot i t) (rn_tasks n)\<rparr>))"
| propose: "propose_append B cmd n = (n', r) \<Longrightarrow> node_step B E n n'"
| broadcast: "node_step B E n (broadcastAppendEntries n)"
| propose_wait: "Propose_wait wk w n = (n', res) \<Longrightarrow> node_step B E n n'"
| stop: "node_step B E n (Stop_signal n)"

lemma node_step_steady:
  assumes "node_step B E n n'" "bolt_writes_ok B" "\<not> rn_panicked n"
  shows "steady B n n'"
  using assms(1)
proof cases
  case append_entries
  then show ?thesis using HandleAppendEntries_steady assms by blast
next
  case install_snapshot
  then show ?thesis using HandleInstallSnapshot_steady assms by blast
next
  case replicate
  then show ?thesis using steady_trans [OF steady_other(6) replicateToPeer_steady] by blast
next
  case apply_task
  then show ?thesis using steady_trans [OF steady_other(6) applyCommitted_steady] by blast
next
  case snapshot_task
  then show ?thesis using steady_trans [OF steady_other(6) takeSnapshot_steady] by blast
next
  case propose
  then show ?thesis by (rule propose_append_steady)
next
  case propose_wait
  then show ?thesis by (rule Propose_wait_steady)
qed (simp_all add: run_ticks_steady append_reply_steady snapshot_reply_steady broadcast_steady
    Stop_signal_steady assms(2))

text \<open>
  Everything a node does while it runs, elections and votes included. As in \<open>election_step\<close> below, the
  term does not wrap around; candidates have identifiers that the log can store.
\<close>

inductive live_step ::
  "'db bolt \<Rightarrow> 'st engine \<Rightarrow> ('db, 'st) raft_node \<Rightarrow> ('db, 'st) raft_node \<Rightarrow> bool"
  for B :: "'db bolt" and E :: "'st engine" where
  local: "\<not> rn_panicked n \<Longrightarrow> node_step B E n n' \<Longrightarrow> live_step B E n n'"
| tick: "\<not> rn_panicked n \<Longrightarrow> live_step B E n (fst (run_electionTick n))"
| start: "\<not> rn_panicked n \<Longrightarrow> rn_currentTerm n \<noteq> - 1 \<Longrightarrow> startElection B n = (n', el) \<Longrightarrow> live_step B E n n'"
| request_vote: "\<not> rn_panicked n \<Longrightarrow> savable (rvr_CandidateID req) \<Longrightarrow> HandleRequestVote B req n = (n', resp) \<Longrightarrow>
    live_step B E n n'"
| vote_response: "\<not> rn_panicked n \<Longrightarrow> vote_reply B p r el n = (n', el') \<Longrightarrow> live_step B E n n'"
| finish: "\<not> rn_panicked n \<Longrightarrow> live_step B E n (finishElection B el n)"

lemma live_step_advances:
  assumes "live_step B E n n'" "bolt_writes_ok B"
  shows "advances B n n'"
  using assms(1)
proof cases
  case local
  then show ?thesis using node_step_steady assms(2) by (blast intro: steady_advances)
next
  case tick
  then show ?thesis by (simp add: steady_advances run_ticks_steady)
next
  case start
  then show ?thesis using startElection_advances assms(2) by blast
next
  case request_vote
  then show ?thesis using HandleRequestVote_advances assms(2) by blast
next
  case vote_response
  then show ?thesis using vote_reply_steady assms(2) by (blast intro: steady_advances)
qed (simp add: finishElection_advances)

lemma live_steps_advances:
  assumes "(live_step B E)\<^sup>*\<^sup>* n n'" "bolt_writes_ok B"
  shows "advances B n n'"
  using assms(1)
proof induction
  case (step a b)
  then show ?case using live_step_advances [OF step.hyps(2) assms(2)] by (blast intro: advances_trans)
qed simp

section \<open>After shutdown\<close>

text \<open>Once \<open>Stop\<close> has closed the log, no step of a goroutine that still runs reaches the file.\<close>

lemma rl_Update_closed [simp]: "rl_closed rl \<Longrightarrow> rl_Update B f rl = (rl, Some ErrDatabaseNotOpen)"
  by (simp add: rl_Update_def)

lemma closed_writes [simp]:
  assumes "rl_closed rl"
  shows "SaveMeta B t v rl = (rl, Some ErrDatabaseNotOpen)" "Append B e rl = (rl, Some ErrDatabaseNotOpen)"
    "TruncateFrom B i rl = (rl, Some ErrDatabaseNotOpen)" "Compact B i t rl = (rl, Some ErrDatabaseNotOpen)"
  using assms by (simp_all add: SaveMeta_def Append_def TruncateFrom_def Compact_def)

lemma closed_ae_append: "rl_closed rl \<Longrightarrow> fst (ae_append B idx es rl) = rl"
  by (induction B idx es rl rule: ae_append.induct) (auto simp: Let_def)

lemma closed_becomeFollower [simp]:
  "rl_closed (rn_raftLog n) \<Longrightarrow> rn_raftLog (becomeFollower B t n) = rn_raftLog n"
  by (simp add: becomeFollower_def)

lemma applyCommitted_raftLog: "rn_raftLog (applyCommitted B E n) = rn_raftLog n"
  by (induction B E n rule: applyCommitted.induct)
    (subst applyCommitted.simps, auto simp: Let_def split: sum.split)

lemma closed_node_step:
  assumes "node_step B E n n'" "rl_closed (rn_raftLog n)"
  shows "rn_raftLog n' = rn_raftLog n"
  using assms(1)
proof cases
  case (append_entries req resp)
  obtain b where "ae_append B (aer_PrevLogIndex req + 1) (aer_Entries req) (rn_raftLog n) = (rn_raftLog n, b)"
    using closed_ae_append [OF assms(2)] by (metis prod.collapse)
  then have "rn_raftLog (fst (HandleAppendEntries B req n)) = rn_raftLog n"
    using assms(2) by (simp add: HandleAppendEntries_def Let_def ae_commit_def split: option.split bool.split)
  then show ?thesis using append_entries by simp
next
  case (install_snapshot req resp)
  then show ?thesis using assms(2)
    by (auto simp: HandleInstallSnapshot_def Let_def split: option.splits prod.splits if_splits)
next
  case apply_task
  then show ?thesis by (simp add: applyCommitted_raftLog)
next
  case (snapshot_task i t snap)
  then show ?thesis using assms(2) by (simp add: takeSnapshot_def split: sum.split)
qed (use assms(2) in \<open>auto simp: run_heartbeatTick_def broadcastAppendEntries_def resetHeartbeatTimer_def
    replicateToPeer_def append_reply_def snapshot_reply_def propose_append_def Propose_wait_def Stop_signal_def Let_def
    split: option.splits if_splits sum.splits wake.splits\<close>)

lemma closed_live_step:
  assumes "live_step B E n n'" "rl_closed (rn_raftLog n)"
  shows "rn_raftLog n' = rn_raftLog n"
  using assms(1)
proof cases
  case local
  then show ?thesis using closed_node_step assms(2) by blast
next
  case (request_vote req resp)
  then show ?thesis using assms(2) by (auto simp: HandleRequestVote_def Let_def split: if_splits)
qed (use assms(2) in \<open>auto simp: run_electionTick_def startElection_def vote_reply_def finishElection_def becomeLeader_def
    resetHeartbeatTimer_def Let_def split: option.splits if_splits\<close>)

lemma closed_live_steps:
  assumes "(live_step B E)\<^sup>*\<^sup>* n n'" "rl_closed (rn_raftLog n)"
  shows "rn_raftLog n' = rn_raftLog n"
  using assms(1)
proof induction
  case (step a b)
  then show ?case using closed_live_step [OF step.hyps(2)] assms(2) by simp
qed simp

section \<open>Steps of the cluster\<close>

datatype run_pc = Idle | Starting | Electing election

record ('db, 'st) cluster =
  cl_node :: "string \<Rightarrow> ('db, 'st) raft_node"
  cl_run :: "string \<Rightarrow> run_pc"
  cl_requests :: "request_vote_request set"
  cl_replies :: "(string \<times> request_vote_request \<times> request_vote_response) set"
  cl_elected :: "(u64 \<times> string) set"

abbreviation set_node ::
  "string \<Rightarrow> ('db, 'st) raft_node \<Rightarrow> ('db, 'st) cluster \<Rightarrow> ('db, 'st) cluster" where
  "set_node a n cl \<equiv> cl\<lparr>cl_node := (cl_node cl)(a := n)\<rparr>"

abbreviation set_run :: "string \<Rightarrow> run_pc \<Rightarrow> ('db, 'st) cluster \<Rightarrow> ('db, 'st) cluster" where
  "set_run a pc cl \<equiv> cl\<lparr>cl_run := (cl_run cl)(a := pc)\<rparr>"

text \<open>
  The start of a node: \<open>NewRaftNode\<close> on its configuration and an opened store, with \<open>bolt.Open\<close>
  returning the given database, and \<open>Start\<close>.
\<close>

definition boots_on ::
  "'db bolt \<Rightarrow> config \<Rightarrow> 'db \<Rightarrow> 'st \<Rightarrow> ('db, 'st) raft_node \<Rightarrow> bool" where
  "boots_on B cfg db store n \<longleftrightarrow> (\<exists>mkdirAll bolt_Open rnd n0.
     bolt_Open (raft_db_path cfg) = Inr db \<and>
     NewRaftNode B mkdirAll bolt_Open rnd cfg store = Inr n0 \<and> n = Start n0)"

definition boots ::
  "'db bolt \<Rightarrow> config \<Rightarrow> 'db \<Rightarrow> ('db, 'st) raft_node \<Rightarrow> bool" where
  "boots B cfg db n \<longleftrightarrow> (\<exists>store. boots_on B cfg db store n)"

lemma boots_on_boots: "boots_on B cfg db store n \<Longrightarrow> boots B cfg db n"
  unfolding boots_def by blast

lemma bootsE:
  assumes "boots B cfg db n"
  obtains mkdirAll bolt_Open rnd store n0 where "bolt_Open (raft_db_path cfg) = Inr db"
    "NewRaftNode B mkdirAll bolt_Open rnd cfg store = Inr n0" "n = Start n0"
  using assms unfolding boots_def boots_on_def by blast

lemma boots_follower: "boots B cfg db n \<Longrightarrow> rn_state n = Follower"
  by (erule bootsE) (simp add: Start_def NewRaftNode_volatile(1))

definition cluster_init ::
  "'db bolt \<Rightarrow> (string \<Rightarrow> config) \<Rightarrow> string list \<Rightarrow> ('db, 'st) cluster \<Rightarrow> bool" where
  "cluster_init B cfgs ids cl \<longleftrightarrow>
     (\<forall>a\<in>set ids. \<exists>db. \<not> tx_HasBucket B db logBucket \<and> \<not> tx_HasBucket B db metaBucket \<and>
        boots B (cfgs a) db (cl_node cl a)) \<and>
     cl_run cl = (\<lambda>_. Idle) \<and> cl_requests cl = {} \<and> cl_replies cl = {} \<and> cl_elected cl = {}"

text \<open>
  Elections: the timer case of the event loop, the parts of \<open>startElection\<close>, and the votes. The
  term of a candidate is assumed not to wrap around: \<open>currentTerm\<close> counts elections and has 64 bits.
\<close>

inductive election_step ::
  "'db bolt \<Rightarrow> string list \<Rightarrow> ('db, 'st) cluster \<Rightarrow> ('db, 'st) cluster \<Rightarrow> bool"
  for B :: "'db bolt" and ids :: "string list" where
  tick: "a \<in> set ids \<Longrightarrow> \<not> rn_panicked (cl_node cl a) \<Longrightarrow> cl_run cl a = Idle \<Longrightarrow>
    run_electionTick (cl_node cl a) = (n', go_on) \<Longrightarrow> rn_electionTimer (cl_node cl a) \<in> range Armed \<Longrightarrow>
    election_step B ids cl (set_node a n' (set_run a (if go_on then Starting else Idle) cl))"
| start: "a \<in> set ids \<Longrightarrow> \<not> rn_panicked (cl_node cl a) \<Longrightarrow> cl_run cl a = Starting \<Longrightarrow>
    rn_currentTerm (cl_node cl a) \<noteq> - 1 \<Longrightarrow> startElection B (cl_node cl a) = (n', Some el) \<Longrightarrow>
    election_step B ids cl
      (set_node a n' (set_run a (Electing el) (cl\<lparr>cl_requests := insert (el_req el) (cl_requests cl)\<rparr>)))"
| request_vote: "v \<in> set ids \<Longrightarrow> \<not> rn_panicked (cl_node cl v) \<Longrightarrow> req \<in> cl_requests cl \<Longrightarrow>
    HandleRequestVote B req (cl_node cl v) = (n', resp) \<Longrightarrow>
    election_step B ids cl
      (set_node v n' (cl\<lparr>cl_replies := insert (v, req, resp) (cl_replies cl)\<rparr>))"
| vote_response: "a \<in> set ids \<Longrightarrow> \<not> rn_panicked (cl_node cl a) \<Longrightarrow> cl_run cl a = Electing el \<Longrightarrow>
    p \<in> set (el_waiting el) \<Longrightarrow> (\<And>resp. r = Some resp \<Longrightarrow> (p_ID p, el_req el, resp) \<in> cl_replies cl) \<Longrightarrow>
    vote_reply B p r el (cl_node cl a) = (n', el') \<Longrightarrow>
    election_step B ids cl (set_node a n' (set_run a (Electing el') cl))"
| finish: "a \<in> set ids \<Longrightarrow> \<not> rn_panicked (cl_node cl a) \<Longrightarrow> cl_run cl a = Electing el \<Longrightarrow>
    el_waiting el = [] \<Longrightarrow> n' = finishElection B el (cl_node cl a) \<Longrightarrow>
    election_step B ids cl
      (set_node a n' (set_run a Idle (cl\<lparr>cl_elected := cl_elected cl \<union>
         (if el_won el \<and> rn_state (cl_node cl a) = Candidate then {(rn_currentTerm n', a)} else {})\<rparr>)))"

inductive cluster_step ::
  "'db bolt \<Rightarrow> 'st engine \<Rightarrow> (string \<Rightarrow> config) \<Rightarrow> string list \<Rightarrow>
   ('db, 'st) cluster \<Rightarrow> ('db, 'st) cluster \<Rightarrow> bool"
  for B :: "'db bolt" and E :: "'st engine" and cfgs :: "string \<Rightarrow> config" and ids :: "string list" where
  local: "a \<in> set ids \<Longrightarrow> \<not> rn_panicked (cl_node cl a) \<Longrightarrow> node_step B E (cl_node cl a) n' \<Longrightarrow>
    cluster_step B E cfgs ids cl (set_node a n' cl)"
| election: "election_step B ids cl cl' \<Longrightarrow> cluster_step B E cfgs ids cl cl'"
| restart: "a \<in> set ids \<Longrightarrow> boots B (cfgs a) (rl_db (rn_raftLog (cl_node cl a))) n' \<Longrightarrow>
    cluster_step B E cfgs ids cl (set_node a n' (set_run a Idle cl))"

lemma cluster_step_cases [consumes 1, case_names local tick start request_vote vote_response finish restart]:
  assumes "cluster_step B E cfgs ids cl cl'"
    "\<And>a n'. cl' = set_node a n' cl \<Longrightarrow> a \<in> set ids \<Longrightarrow> \<not> rn_panicked (cl_node cl a) \<Longrightarrow>
       node_step B E (cl_node cl a) n' \<Longrightarrow> P"
    "\<And>a n' go_on. cl' = set_node a n' (set_run a (if go_on then Starting else Idle) cl) \<Longrightarrow> a \<in> set ids \<Longrightarrow>
       \<not> rn_panicked (cl_node cl a) \<Longrightarrow> cl_run cl a = Idle \<Longrightarrow> run_electionTick (cl_node cl a) = (n', go_on) \<Longrightarrow> P"
    "\<And>a n' el. cl' = set_node a n' (set_run a (Electing el) (cl\<lparr>cl_requests := insert (el_req el) (cl_requests cl)\<rparr>)) \<Longrightarrow>
       a \<in> set ids \<Longrightarrow> \<not> rn_panicked (cl_node cl a) \<Longrightarrow> cl_run cl a = Starting \<Longrightarrow>
       rn_currentTerm (cl_node cl a) \<noteq> - 1 \<Longrightarrow> startElection B (cl_node cl a) = (n', Some el) \<Longrightarrow> P"
    "\<And>v req n' resp. cl' = set_node v n' (cl\<lparr>cl_replies := insert (v, req, resp) (cl_replies cl)\<rparr>) \<Longrightarrow>
       v \<in> set ids \<Longrightarrow> \<not> rn_panicked (cl_node cl v) \<Longrightarrow> req \<in> cl_requests cl \<Longrightarrow>
       HandleRequestVote B req (cl_node cl v) = (n', resp) \<Longrightarrow> P"
    "\<And>a el p r n' el'. cl' = set_node a n' (set_run a (Electing el') cl) \<Longrightarrow> a \<in> set ids \<Longrightarrow>
       \<not> rn_panicked (cl_node cl a) \<Longrightarrow> cl_run cl a = Electing el \<Longrightarrow> p \<in> set (el_waiting el) \<Longrightarrow>
       (\<And>resp. r = Some resp \<Longrightarrow> (p_ID p, el_req el, resp) \<in> cl_replies cl) \<Longrightarrow>
       vote_reply B p r el (cl_node cl a) = (n', el') \<Longrightarrow> P"
    "\<And>a el n'. cl' = set_node a n' (set_run a Idle (cl\<lparr>cl_elected := cl_elected cl \<union>
         (if el_won el \<and> rn_state (cl_node cl a) = Candidate then {(rn_currentTerm n', a)} else {})\<rparr>)) \<Longrightarrow>
       a \<in> set ids \<Longrightarrow> \<not> rn_panicked (cl_node cl a) \<Longrightarrow> cl_run cl a = Electing el \<Longrightarrow> el_waiting el = [] \<Longrightarrow>
       n' = finishElection B el (cl_node cl a) \<Longrightarrow> P"
    "\<And>a n'. cl' = set_node a n' (set_run a Idle cl) \<Longrightarrow> a \<in> set ids \<Longrightarrow>
       boots B (cfgs a) (rl_db (rn_raftLog (cl_node cl a))) n' \<Longrightarrow> P"
  shows P
  using assms(1)
proof cases
  case election
  then show ?thesis
  proof cases
    case (tick a n' go_on)
    then show ?thesis by (intro assms(3))
  next
    case (start a n' el)
    then show ?thesis by (intro assms(4))
  next
    case (request_vote v req n' resp)
    then show ?thesis by (intro assms(5))
  next
    case (vote_response a el p r n' el')
    then show ?thesis by (rule assms(6))
  next
    case (finish a el n')
    then show ?thesis by (intro assms(7))
  qed
qed (use assms(2,8) in blast)+

inductive reachable ::
  "'db bolt \<Rightarrow> 'st engine \<Rightarrow> (string \<Rightarrow> config) \<Rightarrow> string list \<Rightarrow> ('db, 'st) cluster \<Rightarrow> bool"
  for B :: "'db bolt" and E :: "'st engine" and cfgs :: "string \<Rightarrow> config" and ids :: "string list" where
  init: "cluster_init B cfgs ids cl \<Longrightarrow> reachable B E cfgs ids cl"
| step: "reachable B E cfgs ids cl \<Longrightarrow> cluster_step B E cfgs ids cl cl' \<Longrightarrow> reachable B E cfgs ids cl'"

text \<open>
  What the operator must provide: distinct, valid node identifiers, and in every configuration
  exactly the other nodes as peers.
\<close>

definition configured :: "(string \<Rightarrow> config) \<Rightarrow> string list \<Rightarrow> bool" where
  "configured cfgs ids \<longleftrightarrow> distinct ids \<and>
     (\<forall>a\<in>set ids. nc_ID (cfg_Node (cfgs a)) = a \<and> valid_id a \<and> timer_ok (cfgs a) \<and>
        distinct (map nc_ID (cfg_Peers (cfgs a))) \<and>
        set (map nc_ID (cfg_Peers (cfgs a))) = set ids - {a})"

lemma configuredD:
  assumes "configured cfgs ids" "a \<in> set ids"
  shows "nc_ID (cfg_Node (cfgs a)) = a" "valid_id a" "timer_ok (cfgs a)"
    "distinct (map p_ID (peers_of (cfgs a)))" "p_ID ` set (peers_of (cfgs a)) = set ids - {a}"
    "length (peers_of (cfgs a)) = length ids - 1"
proof -
  have ids: "map p_ID (peers_of (cfgs a)) = map nc_ID (cfg_Peers (cfgs a))"
    by (simp add: peers_of_def comp_def)
  have cfg: "distinct ids" "distinct (map nc_ID (cfg_Peers (cfgs a)))"
      "set (map nc_ID (cfg_Peers (cfgs a))) = set ids - {a}"
      "nc_ID (cfg_Node (cfgs a)) = a" "valid_id a" "timer_ok (cfgs a)"
    using assms unfolding configured_def by blast+
  show "nc_ID (cfg_Node (cfgs a)) = a" "valid_id a" "timer_ok (cfgs a)" using cfg(4-6) .
  show d: "distinct (map p_ID (peers_of (cfgs a)))" using cfg(2) ids by simp
  show s: "p_ID ` set (peers_of (cfgs a)) = set ids - {a}"
    using cfg(3) ids by (metis list.set_map)
  have "length (map p_ID (peers_of (cfgs a))) = card (set ids - {a})"
    using distinct_card [OF d] s by simp
  also have "\<dots> = length ids - 1" using assms(2) distinct_card [OF cfg(1)] by simp
  finally show "length (peers_of (cfgs a)) = length ids - 1" by simp
qed

section \<open>Quorums\<close>

text \<open>A family of voter sets any two of which meet, and votes that are unique per voter and term.\<close>

locale quorum_system =
  fixes quorum :: "'v set \<Rightarrow> bool"
  assumes quorums_meet: "quorum P \<Longrightarrow> quorum Q \<Longrightarrow> P \<inter> Q \<noteq> {}"
begin

definition chosen :: "('v \<times> 't \<times> 'c) set \<Rightarrow> 't \<Rightarrow> 'c \<Rightarrow> bool" where
  "chosen vs t c \<longleftrightarrow> (\<exists>Q. quorum Q \<and> (\<forall>q\<in>Q. (q, t, c) \<in> vs))"

lemma chosen_mono: "chosen vs t c \<Longrightarrow> vs \<subseteq> ws \<Longrightarrow> chosen ws t c"
  unfolding chosen_def by blast

lemma chosen_unique:
  assumes "\<And>v c c'. (v, t, c) \<in> vs \<Longrightarrow> (v, t, c') \<in> vs \<Longrightarrow> c = c'"
    "chosen vs t c" "chosen vs t c'"
  shows "c = c'"
  using assms quorums_meet unfolding chosen_def by (metis disjoint_iff)

end

definition majority :: "'v set \<Rightarrow> 'v set \<Rightarrow> bool" where
  "majority S Q \<longleftrightarrow> finite S \<and> Q \<subseteq> S \<and> card S < 2 * card Q"

interpretation maj: quorum_system "majority S"
  for S :: "'v set"
proof
  fix P Q :: "'v set"
  assume "majority S P" "majority S Q"
  then have fin: "finite S" "P \<subseteq> S" "Q \<subseteq> S" and big: "card S < 2 * card P" "card S < 2 * card Q"
    by (simp_all add: majority_def)
  have "card (P \<union> Q) \<le> card S" using fin by (simp add: card_mono)
  moreover have "card (P \<union> Q) = card P + card Q" if "P \<inter> Q = {}"
    using that fin by (meson card_Un_disjoint finite_subset)
  ultimately show "P \<inter> Q \<noteq> {}" using big by linarith
qed

text \<open>\<open>len(peers)/2 + 1\<close> votes are a majority exactly when the number of peers is even.\<close>

lemma election_quorum_majority:
  "length peers + 1 < 2 * election_quorum peers \<longleftrightarrow> even (length peers)"
  unfolding election_quorum_def by presburger

end
