(* ===== verification/Election_Safety.thy ===== *)
theory Election_Safety
  imports Cluster
begin

text \<open>
  At most one leader per term, for clusters with an odd number of nodes. The invariant: votes, those
  cast in replies and those a candidate casts for itself, are unique per voter and term; an election
  counts only such votes, each peer once; and every elected leader has the votes of a majority.
\<close>

section \<open>Invariants\<close>

definition votes :: "('db, 'st) cluster \<Rightarrow> (string \<times> u64 \<times> string) set" where
  "votes cl = {(v, rvr_Term r, rvr_CandidateID r) |v r resp.
       (v, r, resp) \<in> cl_replies cl \<and> rvs_VoteGranted resp} \<union>
     (\<lambda>r. (rvr_CandidateID r, rvr_Term r, rvr_CandidateID r)) ` cl_requests cl"

definition nodes_inv :: "'db bolt \<Rightarrow> (string \<Rightarrow> config) \<Rightarrow> string list \<Rightarrow> ('db, 'st) cluster \<Rightarrow> bool" where
  "nodes_inv B cfgs ids cl \<longleftrightarrow> (\<forall>a\<in>set ids. node_ok B (cl_node cl a) \<and> rn_id (cl_node cl a) = a \<and>
     rn_peers (cl_node cl a) = peers_of (cfgs a) \<and> rn_cfg (cl_node cl a) = cfgs a)"

definition requests_inv :: "string list \<Rightarrow> ('db, 'st) cluster \<Rightarrow> bool" where
  "requests_inv ids cl \<longleftrightarrow> (\<forall>r\<in>cl_requests cl. rvr_CandidateID r \<in> set ids)"

definition votes_inv :: "string list \<Rightarrow> ('db, 'st) cluster \<Rightarrow> bool" where
  "votes_inv ids cl \<longleftrightarrow> (\<forall>v t c. (v, t, c) \<in> votes cl \<longrightarrow> v \<in> set ids \<and> c \<in> set ids \<and>
     t \<le> rn_currentTerm (cl_node cl v) \<and>
     (t = rn_currentTerm (cl_node cl v) \<longrightarrow> rn_votedFor (cl_node cl v) = c))"

definition unique_inv :: "('db, 'st) cluster \<Rightarrow> bool" where
  "unique_inv cl \<longleftrightarrow> (\<forall>v t c c'. (v, t, c) \<in> votes cl \<longrightarrow> (v, t, c') \<in> votes cl \<longrightarrow> c = c')"

text \<open>An election in progress has counted the candidate and a set of peers that voted for it.\<close>

definition tally :: "(string \<times> u64 \<times> string) set \<Rightarrow> peer list \<Rightarrow> string \<Rightarrow> election \<Rightarrow> bool" where
  "tally vs peers a el \<longleftrightarrow> (\<exists>W. W \<subseteq> p_ID ` set peers \<and> W \<inter> p_ID ` set (el_waiting el) = {} \<and>
     card W + 1 = el_votes el \<and> (\<forall>w\<in>insert a W. (w, rvr_Term (el_req el), a) \<in> vs)) \<and>
     distinct (map p_ID (el_waiting el)) \<and> set (el_waiting el) \<subseteq> set peers \<and>
     el_quorum el = election_quorum peers \<and> (el_won el \<longrightarrow> el_quorum el \<le> el_votes el)"

definition run_inv :: "(string \<Rightarrow> config) \<Rightarrow> string list \<Rightarrow> ('db, 'st) cluster \<Rightarrow> bool" where
  "run_inv cfgs ids cl \<longleftrightarrow> (\<forall>a\<in>set ids. \<forall>el. cl_run cl a = Electing el \<longrightarrow>
     tally (votes cl) (peers_of (cfgs a)) a el \<and> rvr_CandidateID (el_req el) = a \<and>
     (rn_state (cl_node cl a) = Candidate \<longrightarrow> rn_currentTerm (cl_node cl a) = rvr_Term (el_req el)))"

definition elected_inv :: "string list \<Rightarrow> ('db, 'st) cluster \<Rightarrow> bool" where
  "elected_inv ids cl \<longleftrightarrow>
     (\<forall>t a. (t, a) \<in> cl_elected cl \<longrightarrow> maj.chosen (set ids) (votes cl) t a) \<and>
     (\<forall>a\<in>set ids. rn_state (cl_node cl a) = Leader \<longrightarrow> (rn_currentTerm (cl_node cl a), a) \<in> cl_elected cl)"

definition election_inv :: "'db bolt \<Rightarrow> (string \<Rightarrow> config) \<Rightarrow> string list \<Rightarrow> ('db, 'st) cluster \<Rightarrow> bool" where
  "election_inv B cfgs ids cl \<longleftrightarrow> nodes_inv B cfgs ids cl \<and> requests_inv ids cl \<and> votes_inv ids cl \<and>
     unique_inv cl \<and> run_inv cfgs ids cl \<and> elected_inv ids cl"

lemma votes_simps [simp]:
  "votes (cl\<lparr>cl_node := f\<rparr>) = votes cl"
  "votes (cl\<lparr>cl_run := g\<rparr>) = votes cl"
  "votes (cl\<lparr>cl_elected := h\<rparr>) = votes cl"
  by (simp_all add: votes_def)

lemma votes_request [simp]:
  "votes (cl\<lparr>cl_requests := insert r (cl_requests cl)\<rparr>) =
     insert (rvr_CandidateID r, rvr_Term r, rvr_CandidateID r) (votes cl)"
  by (auto simp: votes_def)

lemma votes_reply [simp]:
  "votes (cl\<lparr>cl_replies := insert (v, r, resp) (cl_replies cl)\<rparr>) =
     (if rvs_VoteGranted resp then insert (v, rvr_Term r, rvr_CandidateID r) (votes cl) else votes cl)"
  by (auto simp: votes_def)

lemma tally_mono: "tally vs ps a el \<Longrightarrow> vs \<subseteq> ws \<Longrightarrow> tally ws ps a el"
  unfolding tally_def by blast

text \<open>The identifiers that never change, whatever happens to one node.\<close>

lemma nodes_inv_update:
  assumes "nodes_inv B cfgs ids cl" "a \<in> set ids" "node_ok B n'" "rn_id n' = a"
    "rn_peers n' = peers_of (cfgs a)" "rn_cfg n' = cfgs a"
    "\<And>b. b \<noteq> a \<Longrightarrow> cl_node cl' b = cl_node cl b" "cl_node cl' a = n'"
  shows "nodes_inv B cfgs ids cl'"
  unfolding nodes_inv_def
proof
  fix b assume "b \<in> set ids"
  then show "node_ok B (cl_node cl' b) \<and> rn_id (cl_node cl' b) = b \<and>
     rn_peers (cl_node cl' b) = peers_of (cfgs b) \<and> rn_cfg (cl_node cl' b) = cfgs b"
    using assms by (cases "b = a") (simp_all add: nodes_inv_def)
qed

text \<open>A node that keeps its votes does not disturb the uniqueness of votes.\<close>

definition vote_kept :: "('db, 'st) raft_node \<Rightarrow> ('db, 'st) raft_node \<Rightarrow> bool" where
  "vote_kept n n' \<longleftrightarrow> rn_currentTerm n \<le> rn_currentTerm n' \<and>
     (rn_currentTerm n' = rn_currentTerm n \<longrightarrow> rn_votedFor n \<noteq> [] \<longrightarrow> rn_votedFor n' = rn_votedFor n)"

lemma votes_inv_update:
  assumes "votes_inv ids cl" "\<And>c. c \<in> set ids \<Longrightarrow> c \<noteq> []" "vote_kept (cl_node cl a) n'"
    "votes cl' = votes cl" "cl_node cl' = (cl_node cl)(a := n')"
  shows "votes_inv ids cl'"
  unfolding votes_inv_def
proof (intro allI impI)
  fix v t c assume v: "(v, t, c) \<in> votes cl'"
  then have old: "v \<in> set ids" "c \<in> set ids" "t \<le> rn_currentTerm (cl_node cl v)"
      "t = rn_currentTerm (cl_node cl v) \<Longrightarrow> rn_votedFor (cl_node cl v) = c"
    using assms(1,4) by (auto simp: votes_inv_def)
  show "v \<in> set ids \<and> c \<in> set ids \<and> t \<le> rn_currentTerm (cl_node cl' v) \<and>
     (t = rn_currentTerm (cl_node cl' v) \<longrightarrow> rn_votedFor (cl_node cl' v) = c)"
  proof (cases "v = a")
    case True
    have le: "rn_currentTerm (cl_node cl a) \<le> rn_currentTerm n'" using assms(3) by (simp add: vote_kept_def)
    have "rn_votedFor n' = c" if "t = rn_currentTerm n'"
    proof -
      have "t = rn_currentTerm (cl_node cl a)" using that le old(3) True by simp
      with that old assms(2,3) True show ?thesis by (auto simp: vote_kept_def)
    qed
    with True old le assms(5) show ?thesis by auto
  next
    case False
    with old assms(5) show ?thesis by simp
  qed
qed

text \<open>A vote cast in the current term of the voter, which had not voted for anybody else.\<close>

lemma votes_inv_insert:
  assumes "votes_inv ids cl" "v \<in> set ids" "c \<in> set ids" "votes cl' = insert (v, t, c) (votes cl)"
    "cl_node cl' = cl_node cl" "rn_currentTerm (cl_node cl v) = t" "rn_votedFor (cl_node cl v) = c"
  shows "votes_inv ids cl'"
  using assms by (simp add: votes_inv_def)

lemma unique_inv_insert:
  assumes "unique_inv cl" "votes_inv ids cl" "votes cl' = insert (v, t, c) (votes cl)"
    "rn_currentTerm (cl_node cl v) = t" "rn_votedFor (cl_node cl v) = c"
  shows "unique_inv cl'"
  using assms unfolding unique_inv_def votes_inv_def by auto

section \<open>Preservation\<close>

lemma run_inv_update:
  assumes "run_inv cfgs ids cl" "votes cl \<subseteq> votes cl'" "cl_run cl' = cl_run cl"
    "cl_node cl' = (cl_node cl)(a := n')"
    "rn_state n' = Candidate \<Longrightarrow>
       rn_state (cl_node cl a) = Candidate \<and> rn_currentTerm n' = rn_currentTerm (cl_node cl a)"
  shows "run_inv cfgs ids cl'"
  unfolding run_inv_def
proof (intro ballI allI impI)
  fix b el assume b: "b \<in> set ids" and el: "cl_run cl' b = Electing el"
  then have old: "tally (votes cl) (peers_of (cfgs b)) b el" "rvr_CandidateID (el_req el) = b"
      "rn_state (cl_node cl b) = Candidate \<Longrightarrow> rn_currentTerm (cl_node cl b) = rvr_Term (el_req el)"
    using assms(1,3) by (auto simp: run_inv_def)
  show "tally (votes cl') (peers_of (cfgs b)) b el \<and> rvr_CandidateID (el_req el) = b \<and>
     (rn_state (cl_node cl' b) = Candidate \<longrightarrow> rn_currentTerm (cl_node cl' b) = rvr_Term (el_req el))"
    using tally_mono [OF old(1) assms(2)] old(2,3) assms(4,5) by (cases "b = a") simp_all
qed

lemma elected_inv_update:
  assumes "elected_inv ids cl" "votes cl \<subseteq> votes cl'" "cl_elected cl' = cl_elected cl"
    "cl_node cl' = (cl_node cl)(a := n')"
    "rn_state n' = Leader \<Longrightarrow>
       rn_state (cl_node cl a) = Leader \<and> rn_currentTerm n' = rn_currentTerm (cl_node cl a)"
  shows "elected_inv ids cl'"
  unfolding elected_inv_def
proof (intro conjI allI ballI impI)
  fix t b assume "(t, b) \<in> cl_elected cl'"
  then have "maj.chosen (set ids) (votes cl) t b" using assms(1,3) by (simp add: elected_inv_def)
  then show "maj.chosen (set ids) (votes cl') t b" using assms(2) by (rule maj.chosen_mono)
next
  fix b assume "b \<in> set ids" "rn_state (cl_node cl' b) = Leader"
  then show "(rn_currentTerm (cl_node cl' b), b) \<in> cl_elected cl'"
    using assms(1,3-5) by (cases "b = a") (simp_all add: elected_inv_def)
qed

text \<open>The parts of the invariant that depend on the event loops only through the elections in progress.\<close>

lemma run_inv_set_run:
  assumes "run_inv cfgs ids cl" "\<And>el. pc = Electing el \<Longrightarrow> a \<in> set ids \<Longrightarrow>
     tally (votes cl) (peers_of (cfgs a)) a el \<and> rvr_CandidateID (el_req el) = a \<and>
     (rn_state (cl_node cl a) = Candidate \<longrightarrow> rn_currentTerm (cl_node cl a) = rvr_Term (el_req el))"
  shows "run_inv cfgs ids (set_run a pc cl)"
  using assms unfolding run_inv_def by simp

lemma run_inv_start:
  assumes "run_inv cfgs ids cl" "votes cl \<subseteq> votes cl'" "cl_run cl' = (cl_run cl)(a := Electing el)"
    "cl_node cl' = (cl_node cl)(a := n')" "tally (votes cl') (peers_of (cfgs a)) a el"
    "rvr_CandidateID (el_req el) = a" "rvr_Term (el_req el) = rn_currentTerm n'"
  shows "run_inv cfgs ids cl'"
  unfolding run_inv_def
proof (intro ballI allI impI)
  fix b e assume b: "b \<in> set ids" and e: "cl_run cl' b = Electing e"
  show "tally (votes cl') (peers_of (cfgs b)) b e \<and> rvr_CandidateID (el_req e) = b \<and>
     (rn_state (cl_node cl' b) = Candidate \<longrightarrow> rn_currentTerm (cl_node cl' b) = rvr_Term (el_req e))"
  proof (cases "b = a")
    case True
    then show ?thesis using e assms(3-7) by simp
  next
    case False
    then show ?thesis
      using assms(1-4) b e tally_mono [of "votes cl" "peers_of (cfgs b)" b e "votes cl'"] by (auto simp: run_inv_def)
  qed
qed

lemma set_run_inv:
  assumes "election_inv B cfgs ids cl" "run_inv cfgs ids (set_run a pc cl)"
  shows "election_inv B cfgs ids (set_run a pc cl)"
  using assms by (simp add: election_inv_def nodes_inv_def requests_inv_def votes_inv_def unique_inv_def elected_inv_def)

lemma set_node_commute: "set_node a n (set_run b pc cl) = set_run b pc (set_node a n cl)"
  by simp

lemma election_inv_steady:
  assumes "election_inv B cfgs ids cl" "configured cfgs ids" "a \<in> set ids" "steady B (cl_node cl a) n'"
  shows "election_inv B cfgs ids (set_node a n' cl)"
proof -
  have inv: "nodes_inv B cfgs ids cl" "requests_inv ids cl" "votes_inv ids cl" "unique_inv cl"
      "run_inv cfgs ids cl" "elected_inv ids cl"
    using assms(1) by (simp_all add: election_inv_def)
  then have old: "node_ok B (cl_node cl a)" "rn_id (cl_node cl a) = a"
      "rn_peers (cl_node cl a) = peers_of (cfgs a)" "rn_cfg (cl_node cl a) = cfgs a"
    using assms(3) by (simp_all add: nodes_inv_def)
  note st = steadyD [OF assms(4) old(1)]
  have ne: "c \<noteq> []" if "c \<in> set ids" for c using configuredD(2) [OF assms(2) that] by (simp add: valid_id_def)
  have "nodes_inv B cfgs ids (set_node a n' cl)"
    by (rule nodes_inv_update [OF inv(1) assms(3) st(1)]) (simp_all add: st(2-4) old)
  moreover have "votes_inv ids (set_node a n' cl)"
    by (rule votes_inv_update [OF inv(3) ne, where a = a and n' = n']) (simp_all add: vote_kept_def st)
  moreover have "run_inv cfgs ids (set_node a n' cl)"
    by (rule run_inv_update [OF inv(5), where a = a and n' = n']) (use st(7,8) in auto)
  moreover have "elected_inv ids (set_node a n' cl)"
    by (rule elected_inv_update [OF inv(6), where a = a and n' = n']) (use st(7,8) in auto)
  ultimately show ?thesis
    using inv(2,4) by (simp add: election_inv_def requests_inv_def unique_inv_def)
qed

text \<open>A vote request is answered.\<close>

lemma election_inv_request_vote:
  assumes inv: "election_inv B cfgs ids cl" and cfg: "configured cfgs ids" and w: "bolt_writes_ok B"
    and v: "v \<in> set ids" and live: "\<not> rn_panicked (cl_node cl v)" and req: "req \<in> cl_requests cl"
    and h: "HandleRequestVote B req (cl_node cl v) = (n', resp)"
  shows "election_inv B cfgs ids (set_node v n' (cl\<lparr>cl_replies := insert (v, req, resp) (cl_replies cl)\<rparr>))"
proof -
  have c: "rvr_CandidateID req \<in> set ids"
    using inv req by (simp add: election_inv_def requests_inv_def)
  have ok: "node_ok B (cl_node cl v)" using inv v by (simp add: election_inv_def nodes_inv_def)
  note id = valid_id_savable [OF configuredD(2) [OF cfg c]]
  have inv1: "election_inv B cfgs ids (set_node v n' cl)"
    by (rule election_inv_steady [OF inv cfg v HandleRequestVote_steady [OF w id live ok h]])
  let ?cl1 = "set_node v n' cl"
  let ?cl2 = "set_node v n' (cl\<lparr>cl_replies := insert (v, req, resp) (cl_replies cl)\<rparr>)"
  show ?thesis
  proof (cases "rvs_VoteGranted resp")
    case True
    note g = HandleRequestVote_granted(1,2) [OF w id live ok h True]
    have vs: "votes ?cl2 = insert (v, rvr_Term req, rvr_CandidateID req) (votes ?cl1)"
      using True by simp
    have i: "nodes_inv B cfgs ids ?cl1" "requests_inv ids ?cl1" "votes_inv ids ?cl1" "unique_inv ?cl1"
        "run_inv cfgs ids ?cl1" "elected_inv ids ?cl1"
      using inv1 by (simp_all add: election_inv_def)
    have "votes_inv ids ?cl2"
      by (rule votes_inv_insert [OF i(3) v c vs]) (simp_all add: g)
    moreover have "unique_inv ?cl2"
      by (rule unique_inv_insert [OF i(4,3) vs]) (simp_all add: g)
    moreover have "run_inv cfgs ids ?cl2"
      by (rule run_inv_update [OF i(5), where a = v and n' = n']) (use vs in auto)
    moreover have "elected_inv ids ?cl2"
      by (rule elected_inv_update [OF i(6), where a = v and n' = n']) (use vs in auto)
    ultimately show ?thesis
      using i(1,2) by (simp add: election_inv_def nodes_inv_def requests_inv_def)
  next
    case False
    then have "votes ?cl2 = votes ?cl1" by simp
    then show ?thesis using inv1
      by (simp add: election_inv_def nodes_inv_def requests_inv_def votes_inv_def unique_inv_def
          run_inv_def elected_inv_def)
  qed
qed

text \<open>A node becomes a candidate: its term is new, so it has not voted in it.\<close>

lemma election_inv_start:
  assumes inv: "election_inv B cfgs ids cl" and cfg: "configured cfgs ids" and w: "bolt_writes_ok B"
    and a: "a \<in> set ids" and live: "\<not> rn_panicked (cl_node cl a)"
    and fresh: "rn_currentTerm (cl_node cl a) \<noteq> - 1"
    and st: "startElection B (cl_node cl a) = (n', Some el)"
  shows "election_inv B cfgs ids
    (set_node a n' (set_run a (Electing el) (cl\<lparr>cl_requests := insert (el_req el) (cl_requests cl)\<rparr>)))"
proof -
  have i: "nodes_inv B cfgs ids cl" "requests_inv ids cl" "votes_inv ids cl" "unique_inv cl"
      "run_inv cfgs ids cl" "elected_inv ids cl"
    using inv by (simp_all add: election_inv_def)
  have n: "node_ok B (cl_node cl a)" "rn_id (cl_node cl a) = a"
      "rn_peers (cl_node cl a) = peers_of (cfgs a)" "rn_cfg (cl_node cl a) = cfgs a"
    using i(1) a by (simp_all add: nodes_inv_def)
  note s = startElection_keeps [OF w n(1) live st]
  have el: "el_votes el = 1" "el_quorum el = election_quorum (peers_of (cfgs a))" "\<not> el_won el"
      "el_waiting el = peers_of (cfgs a)" "rvr_Term (el_req el) = rn_currentTerm n'"
      "rvr_CandidateID (el_req el) = a"
    using s(5,9) n by auto
  have up: "rn_currentTerm (cl_node cl a) < rn_currentTerm n'"
    using s(5) unat_inc [OF fresh] by (simp add: word_less_nat_alt)
  have ne: "c \<noteq> []" if "c \<in> set ids" for c using configuredD(2) [OF cfg that] by (simp add: valid_id_def)
  let ?cl1 = "set_node a n' cl"
  let ?cl2 = "set_node a n' (cl\<lparr>cl_requests := insert (el_req el) (cl_requests cl)\<rparr>)"
  let ?cl3 = "set_run a (Electing el) ?cl2"
  have v1: "votes_inv ids ?cl1"
    by (rule votes_inv_update [OF i(3) ne, where a = a and n' = n']) (use up in \<open>auto simp: vote_kept_def\<close>)
  have vs: "votes ?cl2 = insert (a, rn_currentTerm n', a) (votes ?cl1)"
    by (simp add: el)
  have "nodes_inv B cfgs ids ?cl3"
    by (rule nodes_inv_update [OF i(1) a s(1)]) (simp_all add: s(2-4) n)
  moreover have "requests_inv ids ?cl3" using i(2) a el by (simp add: requests_inv_def)
  moreover have "votes_inv ids ?cl2"
    by (rule votes_inv_insert [OF v1 a a vs]) (simp_all add: s(6) n)
  then have "votes_inv ids ?cl3" by (simp add: votes_inv_def)
  moreover have u1: "unique_inv ?cl1" using i(4) by (simp add: unique_inv_def)
  have "unique_inv ?cl2"
    by (rule unique_inv_insert [OF u1 v1 vs]) (simp_all add: s(6) n)
  then have "unique_inv ?cl3" by (simp add: unique_inv_def)
  moreover have "tally (votes ?cl3) (peers_of (cfgs a)) a el"
    unfolding tally_def using el configuredD(4) [OF cfg a] by (auto intro!: exI [of _ "{}"])
  then have "run_inv cfgs ids ?cl3"
    by (intro run_inv_start [OF i(5), of ?cl3 a el n']) (use el in auto)
  moreover have "elected_inv ids ?cl3"
    by (rule elected_inv_update [OF i(6), where a = a and n' = n']) (use s(7) in auto)
  ultimately have "election_inv B cfgs ids ?cl3" unfolding election_inv_def by blast
  then show ?thesis by (simp only: set_node_commute)
qed

text \<open>One peer has answered; its vote is counted at most once.\<close>

lemma tally_reply:
  assumes t: "tally vs peers a el" and p: "p \<in> set (el_waiting el)" and d: "distinct (map p_ID peers)"
    and r: "\<And>resp. r = Some resp \<Longrightarrow> rvs_VoteGranted resp \<Longrightarrow> (p_ID p, rvr_Term (el_req el), a) \<in> vs"
    and v: "vote_reply B p r el n = (n', el')"
  shows "tally vs peers a el'" "el_req el' = el_req el"
proof -
  obtain W where W: "W \<subseteq> p_ID ` set peers" "W \<inter> p_ID ` set (el_waiting el) = {}" "card W + 1 = el_votes el"
      "\<forall>w\<in>insert a W. (w, rvr_Term (el_req el), a) \<in> vs"
    and el: "distinct (map p_ID (el_waiting el))" "set (el_waiting el) \<subseteq> set peers"
      "el_quorum el = election_quorum peers" "el_won el \<longrightarrow> el_quorum el \<le> el_votes el"
    using t unfolding tally_def by blast
  let ?el1 = "el\<lparr>el_waiting := remove1 p (el_waiting el)\<rparr>"
  have dw: "distinct (el_waiting el)" using el(1) by (simp add: distinct_map)
  have sub: "set (el_waiting ?el1) = set (el_waiting el) - {p}" using dw by simp
  have el1: "distinct (map p_ID (el_waiting ?el1))" "set (el_waiting ?el1) \<subseteq> set peers"
      "el_quorum ?el1 = election_quorum peers" "el_won ?el1 \<longrightarrow> el_quorum ?el1 \<le> el_votes ?el1"
    using el sub by (auto simp: distinct_map dw inj_on_def)
  have base: "tally vs peers a ?el1"
    unfolding tally_def using W el1 sub by (intro conjI exI [of _ W]) auto
  have one: "tally vs peers a (count_vote ?el1)" if "(p_ID p, rvr_Term (el_req el), a) \<in> vs"
  proof -
    let ?W = "insert (p_ID p) W"
    have "p_ID p \<notin> W" using W(2) p by blast
    moreover have "finite W" using W(1) by (rule finite_subset) simp
    ultimately have card: "card ?W = card W + 1" by simp
    have "p_ID p \<notin> p_ID ` set (el_waiting ?el1)"
      using el(1) p sub by (auto simp: distinct_map inj_on_def)
    then have "?W \<inter> p_ID ` set (el_waiting ?el1) = {}" using W(2) sub by auto
    moreover have "?W \<subseteq> p_ID ` set peers" using W(1) p el(2) by blast
    ultimately show ?thesis
      unfolding tally_def using card W(3,4) el1 that
      by (intro conjI exI [of _ ?W]) (auto simp: count_vote_def)
  qed
  show "tally vs peers a el'"
    using v base one r by (auto simp: vote_reply_def Let_def split: option.splits if_splits)
  show "el_req el' = el_req el"
    using v by (auto simp: vote_reply_def count_vote_def Let_def split: option.splits if_splits)
qed

lemma election_inv_vote_response:
  assumes inv: "election_inv B cfgs ids cl" and cfg: "configured cfgs ids" and w: "bolt_writes_ok B"
    and a: "a \<in> set ids" and el: "cl_run cl a = Electing el" and p: "p \<in> set (el_waiting el)"
    and r: "\<And>resp. r = Some resp \<Longrightarrow> (p_ID p, el_req el, resp) \<in> cl_replies cl"
    and v: "vote_reply B p r el (cl_node cl a) = (n', el')"
  shows "election_inv B cfgs ids (set_node a n' (set_run a (Electing el') cl))"
proof -
  let ?cl1 = "set_node a n' cl"
  have inv1: "election_inv B cfgs ids ?cl1"
    by (rule election_inv_steady [OF inv cfg a vote_reply_steady [OF w v]])
  then have run1: "run_inv cfgs ids ?cl1" by (simp add: election_inv_def)
  have e: "tally (votes cl) (peers_of (cfgs a)) a el" "rvr_CandidateID (el_req el) = a"
      "rn_state n' = Candidate \<Longrightarrow> rn_currentTerm n' = rvr_Term (el_req el)"
    using run1 a el by (auto simp: run_inv_def)
  have granted: "(p_ID p, rvr_Term (el_req el), a) \<in> votes cl" if "r = Some resp" "rvs_VoteGranted resp" for resp
    using r [OF that(1)] that(2) e(2) unfolding votes_def by blast
  note t = tally_reply [OF e(1) p configuredD(4) [OF cfg a] granted v]
  have "run_inv cfgs ids (set_run a (Electing el') ?cl1)"
    by (rule run_inv_set_run [OF run1]) (use t e in auto)
  with inv1 have "election_inv B cfgs ids (set_run a (Electing el') ?cl1)" by (rule set_run_inv)
  then show ?thesis by (simp only: set_node_commute)
qed

text \<open>The end of an election: a candidate that collected enough votes has a majority.\<close>

lemma tally_chosen:
  assumes t: "tally vs (peers_of (cfgs a)) a el" and won: "el_won el" and cfg: "configured cfgs ids"
    and a: "a \<in> set ids" and odd: "odd (length ids)"
  shows "maj.chosen (set ids) vs (rvr_Term (el_req el)) a"
proof -
  note c = configuredD(4-6) [OF cfg a]
  obtain W where W: "W \<subseteq> set ids - {a}" "card W + 1 = el_votes el"
      "\<forall>w\<in>insert a W. (w, rvr_Term (el_req el), a) \<in> vs"
    and q: "election_quorum (peers_of (cfgs a)) \<le> el_votes el"
    using t won c(2) unfolding tally_def by metis
  have "even (length (peers_of (cfgs a)))" using odd c(3) by simp
  then have "length (peers_of (cfgs a)) + 1 < 2 * el_votes el"
    using election_quorum_majority [of "peers_of (cfgs a)"] q by linarith
  moreover have "0 < length ids" using a by (cases ids) simp_all
  ultimately have "length ids < 2 * el_votes el" using c(3) by linarith
  moreover have "card (insert a W) = el_votes el"
    using W(1,2) by (subst card_insert_disjoint) (auto intro: finite_subset)
  moreover have "card (set ids) = length ids" using cfg by (simp add: configured_def distinct_card)
  ultimately have "majority (set ids) (insert a W)" using W(1) a by (auto simp: majority_def)
  with W(3) show ?thesis unfolding maj.chosen_def by blast
qed

lemma election_inv_finish:
  assumes inv: "election_inv B cfgs ids cl" and cfg: "configured cfgs ids" and odd: "odd (length ids)"
    and a: "a \<in> set ids" and el: "cl_run cl a = Electing el"
  shows "election_inv B cfgs ids (set_node a (finishElection B el (cl_node cl a)) (set_run a Idle
    (cl\<lparr>cl_elected := cl_elected cl \<union> (if el_won el \<and> rn_state (cl_node cl a) = Candidate
       then {(rn_currentTerm (finishElection B el (cl_node cl a)), a)} else {})\<rparr>)))"
    (is "election_inv _ _ _ ?cl'")
proof -
  have i: "nodes_inv B cfgs ids cl" "requests_inv ids cl" "votes_inv ids cl" "unique_inv cl"
      "run_inv cfgs ids cl" "elected_inv ids cl"
    using inv by (simp_all add: election_inv_def)
  have n: "node_ok B (cl_node cl a)" "rn_id (cl_node cl a) = a"
      "rn_peers (cl_node cl a) = peers_of (cfgs a)" "rn_cfg (cl_node cl a) = cfgs a"
    using i(1) a by (simp_all add: nodes_inv_def)
  note l = becomeLeader_keeps [OF n(1)]
  have f: "node_ok B (finishElection B el (cl_node cl a))" "rn_id (finishElection B el (cl_node cl a)) = a"
      "rn_peers (finishElection B el (cl_node cl a)) = peers_of (cfgs a)"
      "rn_cfg (finishElection B el (cl_node cl a)) = cfgs a"
      "rn_currentTerm (finishElection B el (cl_node cl a)) = rn_currentTerm (cl_node cl a)"
      "rn_votedFor (finishElection B el (cl_node cl a)) = rn_votedFor (cl_node cl a)"
      "rn_state (finishElection B el (cl_node cl a)) =
         (if el_won el \<and> rn_state (cl_node cl a) = Candidate then Leader else rn_state (cl_node cl a))"
    using l n by (simp_all add: finishElection_def)
  have vs: "votes ?cl' = votes cl" by simp
  have ne: "c \<noteq> []" if "c \<in> set ids" for c using configuredD(2) [OF cfg that] by (simp add: valid_id_def)
  have "nodes_inv B cfgs ids ?cl'"
    by (rule nodes_inv_update [OF i(1) a f(1-4)]) simp_all
  moreover have "votes_inv ids ?cl'"
    by (rule votes_inv_update [OF i(3) ne, where a = a]) (use f(5,6) in \<open>auto simp: vote_kept_def\<close>)
  moreover have "run_inv cfgs ids ?cl'"
    using i(5) by (simp add: run_inv_def)
  moreover have "elected_inv ids ?cl'"
    unfolding elected_inv_def
  proof (intro conjI allI ballI impI)
    fix t b assume "(t, b) \<in> cl_elected ?cl'"
    then consider "(t, b) \<in> cl_elected cl"
      | "el_won el" "rn_state (cl_node cl a) = Candidate" "b = a" "t = rn_currentTerm (cl_node cl a)"
      using f(5) by (auto split: if_splits)
    then show "maj.chosen (set ids) (votes ?cl') t b"
    proof cases
      case 1
      then show ?thesis using i(6) vs by (simp add: elected_inv_def)
    next
      case 2
      have "tally (votes cl) (peers_of (cfgs a)) a el" "t = rvr_Term (el_req el)"
        using i(5) a el 2 by (auto simp: run_inv_def)
      then show ?thesis using tally_chosen [OF _ 2(1) cfg a odd] 2(3) vs by simp
    qed
  next
    fix b assume "b \<in> set ids" "rn_state (cl_node ?cl' b) = Leader"
    then show "(rn_currentTerm (cl_node ?cl' b), b) \<in> cl_elected ?cl'"
      using i(6) f(5,7) by (auto simp: elected_inv_def split: if_splits)
  qed
  ultimately show ?thesis using i(2,4) by (simp add: election_inv_def requests_inv_def unique_inv_def)
qed

text \<open>A restarted node has forgotten everything but its log, its term and its vote.\<close>

lemma boots_steady:
  assumes "boots B cfg (rl_db (rn_raftLog n)) n'" "node_ok B n" "rn_id n = nc_ID (cfg_Node cfg)"
    "rn_peers n = peers_of cfg" "rn_cfg n = cfg"
  shows "steady B n n'"
proof -
  obtain mkdirAll bolt_Open rnd store n0 where b: "bolt_Open (raft_db_path cfg) = Inr (rl_db (rn_raftLog n))"
      "NewRaftNode B mkdirAll bolt_Open rnd cfg store = Inr n0" "n' = Start n0"
    using bootsE [OF assms(1)] .
  have ok: "bolt_spec B" "db_ok B (rl_db (rn_raftLog n))" "timer_ok cfg" "valid_id (nc_ID (cfg_Node cfg))"
      "LoadMeta B (rn_raftLog n) = Inr (rn_currentTerm n, rn_votedFor n)"
    using assms(2,3,5) by (auto simp: node_ok_def rl_ok_def)
  note re = NewRaftNode_reopen [OF ok(1,2) b(1) ok(5) refl ok(3,4) b(2)]
  have "node_ok B n'"
    using steadyD(1) [OF resetElectionTimer_steady re(1)] b(3) by (simp add: Start_def)
  then show ?thesis using re b(3) assms(3-5) by (simp add: steady_def Start_def)
qed

lemma election_inv_init:
  assumes "cluster_init B cfgs ids cl" "configured cfgs ids" "bolt_spec B"
  shows "election_inv B cfgs ids cl"
proof -
  have "node_ok B (cl_node cl a) \<and> rn_id (cl_node cl a) = a \<and> rn_peers (cl_node cl a) = peers_of (cfgs a) \<and>
      rn_cfg (cl_node cl a) = cfgs a \<and> rn_state (cl_node cl a) = Follower" if a: "a \<in> set ids" for a
  proof -
    obtain db where db: "\<not> tx_HasBucket B db logBucket" "\<not> tx_HasBucket B db metaBucket"
        "boots B (cfgs a) db (cl_node cl a)"
      using assms(1) a unfolding cluster_init_def by blast
    then obtain mkdirAll bolt_Open rnd store n0 where b: "bolt_Open (raft_db_path (cfgs a)) = Inr db"
        "NewRaftNode B mkdirAll bolt_Open rnd (cfgs a) store = Inr n0" "cl_node cl a = Start n0"
      using bootsE [OF db(3)] by metis
    note c = configuredD(1-3) [OF assms(2) a]
    have "valid_id (nc_ID (cfg_Node (cfgs a)))" using c by simp
    note f = NewRaftNode_fresh [OF assms(3) db(1,2) b(1) c(3) this b(2)]
    show ?thesis
      using steadyD(1) [OF resetElectionTimer_steady f(1)] f(4-7) b(3) c(1) by (simp add: Start_def)
  qed
  then show ?thesis using assms(1)
    by (simp add: election_inv_def nodes_inv_def requests_inv_def votes_inv_def unique_inv_def run_inv_def
        elected_inv_def cluster_init_def votes_def)
qed

lemma election_inv_step:
  assumes "cluster_step B E cfgs ids cl cl'" "election_inv B cfgs ids cl" "configured cfgs ids"
    "bolt_writes_ok B" "odd (length ids)"
  shows "election_inv B cfgs ids cl'"
  using assms(1)
proof (cases rule: cluster_step_cases)
  case (local a n')
  then show ?thesis using election_inv_steady [OF assms(2,3)] node_step_steady assms(4) by blast
next
  case (tick a n' go_on)
  have "steady B (cl_node cl a) n'" using run_ticks_steady(1) [of B "cl_node cl a"] tick by simp
  then have inv: "election_inv B cfgs ids (set_node a n' cl)"
    using election_inv_steady [OF assms(2,3)] tick by blast
  then have "run_inv cfgs ids (set_node a n' cl)" by (simp add: election_inv_def)
  then have "run_inv cfgs ids (set_run a (if go_on then Starting else Idle) (set_node a n' cl))"
    by (rule run_inv_set_run) (simp split: if_splits)
  with inv have "election_inv B cfgs ids (set_run a (if go_on then Starting else Idle) (set_node a n' cl))"
    by (rule set_run_inv)
  then show ?thesis using tick(1) by (simp only: set_node_commute)
next
  case (start a n' el)
  then show ?thesis using election_inv_start [OF assms(2-4)] by blast
next
  case (request_vote v req n' resp)
  then show ?thesis using election_inv_request_vote [OF assms(2-4)] by blast
next
  case (vote_response a el p r n' el')
  then show ?thesis using election_inv_vote_response [OF assms(2-4)] by blast
next
  case (finish a el n')
  then show ?thesis using election_inv_finish [OF assms(2,3,5)] by blast
next
  case (restart a n')
  have "node_ok B (cl_node cl a)" "rn_id (cl_node cl a) = nc_ID (cfg_Node (cfgs a))"
      "rn_peers (cl_node cl a) = peers_of (cfgs a)" "rn_cfg (cl_node cl a) = cfgs a"
    using assms(2) restart(2) configuredD(1) [OF assms(3) restart(2)]
    by (simp_all add: election_inv_def nodes_inv_def)
  then have "steady B (cl_node cl a) n'" using boots_steady restart(3) by blast
  then have inv: "election_inv B cfgs ids (set_node a n' cl)"
    using election_inv_steady [OF assms(2,3)] restart by blast
  then have "run_inv cfgs ids (set_node a n' cl)" by (simp add: election_inv_def)
  then have "run_inv cfgs ids (set_run a Idle (set_node a n' cl))"
    by (rule run_inv_set_run) simp
  with inv have "election_inv B cfgs ids (set_run a Idle (set_node a n' cl))" by (rule set_run_inv)
  then show ?thesis using restart(1) by (simp only: set_node_commute)
qed

lemma election_inv_reachable:
  assumes "reachable B E cfgs ids cl" "configured cfgs ids" "bolt_spec B" "bolt_writes_ok B" "odd (length ids)"
  shows "election_inv B cfgs ids cl"
  using assms(1)
  by induction (use assms(2-5) election_inv_init election_inv_step in blast)+

lemma elected_unique:
  assumes "election_inv B cfgs ids cl" "(t, a) \<in> cl_elected cl" "(t, b) \<in> cl_elected cl"
  shows "a = b"
proof (rule maj.chosen_unique)
  show "(v, t, c) \<in> votes cl \<Longrightarrow> (v, t, c') \<in> votes cl \<Longrightarrow> c = c'" for v c c'
    using assms(1) unfolding election_inv_def unique_inv_def by blast
  show "maj.chosen (set ids) (votes cl) t a" "maj.chosen (set ids) (votes cl) t b"
    using assms by (simp_all add: election_inv_def elected_inv_def)
qed

end
