(* ===== verification/Election_Runs.thy ===== *)
theory Election_Runs
  imports Election_Safety
begin

text \<open>
  Runs of a cluster. \<open>election_run\<close> follows one election from the timer tick to the new leader,
  with the vote of a single peer while every other request fails. In a cluster of three this gives
  a legitimate leader. In a cluster of four it can be done twice, by disjoint pairs of nodes.
\<close>

definition fresh_node :: "'db bolt \<Rightarrow> ('db, 'st) raft_node \<Rightarrow> bool" where
  "fresh_node B n \<longleftrightarrow> node_ok B n \<and> \<not> rn_panicked n \<and> rn_state n = Follower \<and> rn_currentTerm n = 0 \<and>
     rn_votedFor n = [] \<and> (\<forall>i. log_at B (rn_raftLog n) i = None) \<and>
     rl_snapshotIndex (rn_raftLog n) = 0 \<and> rn_commitIndex n = 0 \<and> rn_lastApplied n = 0 \<and>
     rn_electionTimer n \<in> range Armed"

lemma empty_log_last:
  assumes "rl_ok B rl" "\<forall>i. log_at B rl i = None" "rl_snapshotIndex rl = 0"
  shows "LastIndex B rl = 0" "LastTerm B rl = 0"
  using LastIndex_empty [OF assms(1,2)] assms(3) by (simp_all add: LastTerm_def)

lemma fresh_last:
  "fresh_node B n \<Longrightarrow> LastIndex B (rn_raftLog n) = 0"
  "fresh_node B n \<Longrightarrow> LastTerm B (rn_raftLog n) = 0"
  using empty_log_last [of B "rn_raftLog n"] by (simp_all add: fresh_node_def node_ok_def)

text \<open>The candidate of a fresh cluster and the answer of a fresh peer.\<close>

lemma fresh_start:
  assumes "bolt_writes_ok B" "fresh_node B n"
  obtains n' el where "startElection B n = (n', Some el)" "rn_state n' = Candidate" "rn_currentTerm n' = 1"
    "node_ok B n'" "\<not> rn_panicked n'"
    "el_votes el = 1" "el_quorum el = election_quorum (rn_peers n)" "el_waiting el = rn_peers n"
    "rvr_Term (el_req el) = 1" "rvr_CandidateID (el_req el) = rn_id n"
    "rvr_LastLogIndex (el_req el) = 0" "rvr_LastLogTerm (el_req el) = 0"
proof -
  have n: "node_ok B n" "\<not> rn_panicked n" "rn_currentTerm n = 0" "\<forall>i. log_at B (rn_raftLog n) i = None"
      "rl_snapshotIndex (rn_raftLog n) = 0"
    using assms(2) by (auto simp: fresh_node_def)
  obtain n' r where s: "startElection B n = (n', r)" by fastforce
  note k = startElection_keeps [OF assms(1) n(1,2) s]
  note l = startElection_log(1,2) [OF assms(1) n(1)]
  have "rl_ok B (rn_raftLog n')" using k(1) by (simp add: node_ok_def)
  then have "LastIndex B (rn_raftLog n') = 0" "LastTerm B (rn_raftLog n') = 0"
    using empty_log_last [of B "rn_raftLog n'"] l s n(4,5) by simp_all
  with k(9) n(3) obtain q where "r = Some \<lparr>el_req = q, el_votes = 1, el_quorum = election_quorum (rn_peers n),
      el_won = False, el_waiting = rn_peers n\<rparr>" "rvr_Term q = 1" "rvr_CandidateID q = rn_id n"
      "rvr_LastLogIndex q = 0" "rvr_LastLogTerm q = 0"
    by auto
  with s k n(3) show ?thesis by (intro that [of n']) auto
qed

lemma fresh_vote:
  assumes "bolt_writes_ok B" "fresh_node B n" "rvr_Term req = 1"
    "rvr_LastLogIndex req = 0" "rvr_LastLogTerm req = 0"
  obtains n' resp where "HandleRequestVote B req n = (n', resp)" "rvs_VoteGranted resp" "rvs_Term resp = 1"
proof -
  have n: "node_ok B n" "\<not> rn_panicked n" "rn_currentTerm n = 0" "\<forall>i. log_at B (rn_raftLog n) i = None"
      "rl_snapshotIndex (rn_raftLog n) = 0"
    using assms(2) by (auto simp: fresh_node_def)
  have tm: "timer_ok (rn_cfg n)" and rl: "rl_ok B (rn_raftLog n)" using n(1) by (simp_all add: node_ok_def)
  have e: "rv_enter B req n = becomeFollower B 1 n" using n(3) assms(3) by (simp add: rv_enter_def)
  note sm = SaveMeta_saved [OF rl assms(1) utf8_valid_Nil, of 1]
  have "LastIndex B (rn_raftLog (becomeFollower B 1 n)) = 0" "LastTerm B (rn_raftLog (becomeFollower B 1 n)) = 0"
    using empty_log_last [OF sm(1)] sm n(4,5) by simp_all
  then have "grants B req n"
    using n(3) assms(3-5) by (simp add: grants_def e candidateUpToDate_def)
  then show ?thesis using that n(3) assms(3) by (simp add: HandleRequestVote_eq [OF tm n(2)] zero_rvs_def)
qed

text \<open>Sequences of election steps.\<close>

abbreviation elects :: "'db bolt \<Rightarrow> string list \<Rightarrow> ('db, 'st) cluster \<Rightarrow> ('db, 'st) cluster \<Rightarrow> bool" where
  "elects B ids \<equiv> (election_step B ids)\<^sup>*\<^sup>*"

lemma elects_one: "election_step B ids x y \<Longrightarrow> elects B ids x y"
  by (rule r_into_rtranclp)

lemma elects_two: "election_step B ids x y \<Longrightarrow> election_step B ids y z \<Longrightarrow> elects B ids x z"
  by (meson converse_rtranclp_into_rtranclp r_into_rtranclp)

lemma elects_reachable:
  assumes "elects B ids cl cl'" "reachable B E cfgs ids cl"
  shows "reachable B E cfgs ids cl'"
  using assms by induction (blast intro: reachable.step cluster_step.election)+

text \<open>All requests still out fail.\<close>

lemma drain_election:
  assumes "a \<in> set ids" "\<not> rn_panicked (cl_node cl a)" "cl_run cl a = Electing el"
  obtains cl' el' where "elects B ids cl cl'" "cl_run cl' a = Electing el'" "el_waiting el' = []"
    "el_won el' = el_won el" "cl_node cl' = cl_node cl" "\<forall>x. x \<noteq> a \<longrightarrow> cl_run cl' x = cl_run cl x"
    "cl_elected cl' = cl_elected cl"
  using assms
proof (induction "el_waiting el" arbitrary: cl el thesis)
  case Nil
  show ?case by (rule Nil.prems(1) [of cl el]) (use Nil in simp_all)
next
  case (Cons p ps)
  let ?el = "el\<lparr>el_waiting := ps\<rparr>"
  let ?cl = "set_node a (cl_node cl a) (set_run a (Electing ?el) cl)"
  have v: "vote_reply B p None el (cl_node cl a) = (cl_node cl a, ?el)"
    using Cons.hyps(2) [symmetric] by (simp add: vote_reply_def)
  have step: "election_step B ids cl ?cl"
    by (rule vote_response [OF Cons.prems(2-4) _ _ v]) (use Cons.hyps(2) [symmetric] in simp_all)
  have "ps = el_waiting ?el" by simp
  then show ?case
  proof (rule Cons.hyps(1))
    show "a \<in> set ids" by (rule Cons.prems(2))
    show "\<not> rn_panicked (cl_node ?cl a)" using Cons.prems(3) by simp
    show "cl_run ?cl a = Electing ?el" by simp
    fix cl' el'
    assume "elects B ids ?cl cl'" "cl_run cl' a = Electing el'" "el_waiting el' = []"
      "el_won el' = el_won ?el" "cl_node cl' = cl_node ?cl" "\<forall>x. x \<noteq> a \<longrightarrow> cl_run cl' x = cl_run ?cl x"
      "cl_elected cl' = cl_elected ?cl"
    then show thesis using converse_rtranclp_into_rtranclp [of "election_step B ids", OF step]
      by (intro Cons.prems(1) [of cl' el']) auto
  qed
qed

text \<open>The three parts of an election: its start, the vote of one new peer, and its end.\<close>

definition campaign :: "'db bolt \<Rightarrow> ('db, 'st) raft_node \<Rightarrow> ('db, 'st) raft_node \<Rightarrow> election \<Rightarrow> bool" where
  "campaign B n n1 el \<longleftrightarrow> startElection B n = (n1, Some el) \<and> rn_state n1 = Candidate \<and> rn_currentTerm n1 = 1 \<and>
     node_ok B n1 \<and> \<not> rn_panicked n1 \<and> el_votes el = 1 \<and> el_quorum el = election_quorum (rn_peers n) \<and>
     el_waiting el = rn_peers n"

definition new_request :: "request_vote_request \<Rightarrow> bool" where
  "new_request req \<longleftrightarrow> rvr_Term req = 1 \<and> rvr_LastLogIndex req = 0 \<and> rvr_LastLogTerm req = 0"

lemma election_begins:
  assumes "bolt_writes_ok B" "a \<in> set ids" "fresh_node B (cl_node cl a)" "cl_run cl a = Idle"
  obtains cl' n1 el where "elects B ids cl cl'" "campaign B (cl_node cl a) n1 el" "new_request (el_req el)"
    "el_req el \<in> cl_requests cl'" "cl_node cl' = (cl_node cl)(a := n1)" "cl_run cl' = (cl_run cl)(a := Electing el)"
    "cl_elected cl' = cl_elected cl"
proof -
  let ?na = "cl_node cl a"
  have n: "\<not> rn_panicked ?na" "rn_state ?na = Follower" "rn_currentTerm ?na = 0" "rn_electionTimer ?na \<in> range Armed"
    using assms(3) by (simp_all add: fresh_node_def)
  let ?cl1 = "set_node a ?na (set_run a Starting cl)"
  have "run_electionTick ?na = (?na, True)" using n(2) by (simp add: run_electionTick_def)
  from tick [OF assms(2) n(1) assms(4) this n(4)] have r1: "election_step B ids cl ?cl1" by simp
  obtain n1 el where s: "campaign B ?na n1 el" "new_request (el_req el)"
    by (rule fresh_start [OF assms(1,3)]) (simp add: campaign_def new_request_def)
  let ?cl2 = "set_node a n1 (set_run a (Electing el) (?cl1\<lparr>cl_requests := insert (el_req el) (cl_requests ?cl1)\<rparr>))"
  have "election_step B ids ?cl1 ?cl2"
    by (rule start [OF assms(2)]) (use n s(1) in \<open>simp_all add: campaign_def\<close>)
  then have "elects B ids cl ?cl2" by (rule elects_two [OF r1])
  then show ?thesis using s by (rule that) simp_all
qed

lemma vote_counts:
  assumes "bolt_writes_ok B" "a \<in> set ids" "\<not> rn_panicked (cl_node cl a)"
    "rn_currentTerm (cl_node cl a) = 1" "cl_run cl a = Electing el" "el_req el \<in> cl_requests cl" "new_request (el_req el)"
    "p \<in> set (el_waiting el)" "p_ID p \<in> set ids" "p_ID p \<noteq> a" "fresh_node B (cl_node cl (p_ID p))"
  obtains cl' where "elects B ids cl cl'" "cl_requests cl' = cl_requests cl" "cl_elected cl' = cl_elected cl"
    "cl_node cl' = (cl_node cl)(p_ID p := fst (HandleRequestVote B (el_req el) (cl_node cl (p_ID p))))"
    "cl_run cl' = (cl_run cl)(a := Electing (count_vote (el\<lparr>el_waiting := remove1 p (el_waiting el)\<rparr>)))"
proof -
  let ?b = "p_ID p" and ?req = "el_req el" and ?n1 = "cl_node cl a"
  have live: "\<not> rn_panicked (cl_node cl ?b)" using assms(11) by (simp add: fresh_node_def)
  obtain n2 resp where v: "HandleRequestVote B ?req (cl_node cl ?b) = (n2, resp)" "rvs_VoteGranted resp" "rvs_Term resp = 1"
    using fresh_vote [OF assms(1,11)] assms(7) unfolding new_request_def by blast
  define cl1 where "cl1 = set_node ?b n2 (cl\<lparr>cl_replies := insert (?b, ?req, resp) (cl_replies cl)\<rparr>)"
  have r1: "election_step B ids cl cl1"
    unfolding cl1_def by (rule request_vote [OF assms(9) live assms(6) v(1)])
  have c1: "cl_node cl1 a = ?n1" "cl_run cl1 a = Electing el" "(?b, ?req, resp) \<in> cl_replies cl1"
    using assms(5,10) by (simp_all add: cl1_def)
  let ?el = "count_vote (el\<lparr>el_waiting := remove1 p (el_waiting el)\<rparr>)"
  have vr: "vote_reply B p (Some resp) el (cl_node cl1 a) = (?n1, ?el)"
    using c1(1) assms(4) v(2,3) by (simp add: vote_reply_def)
  have "election_step B ids cl1 (set_node a ?n1 (set_run a (Electing ?el) cl1))"
    by (rule vote_response [OF assms(2) _ c1(2) _ _ vr]) (use c1 assms(3,8) in simp_all)
  then have "elects B ids cl (set_node a ?n1 (set_run a (Electing ?el) cl1))"
    by (rule elects_two [OF r1])
  then show ?thesis by (rule that) (use v(1) assms(10) in \<open>auto simp: cl1_def\<close>)
qed

lemma election_ends:
  assumes "a \<in> set ids" "cl_run cl a = Electing el" "el_waiting el = []" "el_won el"
    "node_ok B (cl_node cl a)" "\<not> rn_panicked (cl_node cl a)" "rn_state (cl_node cl a) = Candidate"
    "rn_currentTerm (cl_node cl a) = 1"
  obtains cl' where "elects B ids cl cl'" "cl_node cl' = (cl_node cl)(a := becomeLeader B (cl_node cl a))"
    "cl_run cl' = (cl_run cl)(a := Idle)" "cl_elected cl' = insert (1, a) (cl_elected cl)"
    "rn_state (cl_node cl' a) = Leader" "rn_currentTerm (cl_node cl' a) = 1"
proof -
  let ?n = "finishElection B el (cl_node cl a)"
  have n: "?n = becomeLeader B (cl_node cl a)" using assms(4) by (simp add: finishElection_def)
  have st: "rn_state ?n = Leader" "rn_currentTerm ?n = 1"
    unfolding n using becomeLeader_keeps(5,7) [OF assms(5)] assms(7,8) by simp_all
  have "elects B ids cl (set_node a ?n (set_run a Idle (cl\<lparr>cl_elected := cl_elected cl \<union>
      (if el_won el \<and> rn_state (cl_node cl a) = Candidate then {(rn_currentTerm ?n, a)} else {})\<rparr>)))"
    by (rule elects_one [OF finish [OF assms(1,6,2,3) refl]])
  then show ?thesis by (rule that) (use st n assms(4,7) in simp_all)
qed

lemma election_run:
  assumes "bolt_writes_ok B" "a \<in> set ids" "b \<in> set ids" "a \<noteq> b"
    "fresh_node B (cl_node cl a)" "fresh_node B (cl_node cl b)" "cl_run cl a = Idle"
    "rn_id (cl_node cl a) = a" "b \<in> p_ID ` set (rn_peers (cl_node cl a))"
    "election_quorum (rn_peers (cl_node cl a)) \<le> 2"
  obtains cl' where "elects B ids cl cl'" "(1, a) \<in> cl_elected cl'" "cl_elected cl \<subseteq> cl_elected cl'"
    "rn_state (cl_node cl' a) = Leader" "rn_currentTerm (cl_node cl' a) = 1"
    "\<forall>x. x \<noteq> a \<longrightarrow> x \<noteq> b \<longrightarrow> cl_node cl' x = cl_node cl x" "\<forall>x. x \<noteq> a \<longrightarrow> cl_run cl' x = cl_run cl x"
proof -
  obtain p where p: "p \<in> set (rn_peers (cl_node cl a))" "p_ID p = b" using assms(9) by blast
  obtain cl1 n1 el where c1: "elects B ids cl cl1" "campaign B (cl_node cl a) n1 el" "new_request (el_req el)"
      "el_req el \<in> cl_requests cl1" "cl_node cl1 = (cl_node cl)(a := n1)" "cl_run cl1 = (cl_run cl)(a := Electing el)"
      "cl_elected cl1 = cl_elected cl"
    using election_begins [OF assms(1,2,5,7)] .
  have s: "rn_state n1 = Candidate" "rn_currentTerm n1 = 1" "node_ok B n1" "\<not> rn_panicked n1" "el_votes el = 1"
      "el_quorum el = election_quorum (rn_peers (cl_node cl a))" "el_waiting el = rn_peers (cl_node cl a)"
    using c1(2) by (simp_all add: campaign_def)
  let ?el = "count_vote (el\<lparr>el_waiting := remove1 p (el_waiting el)\<rparr>)"
  obtain cl2 where c2: "elects B ids cl1 cl2" "cl_elected cl2 = cl_elected cl1"
      "cl_node cl2 = (cl_node cl1)(b := fst (HandleRequestVote B (el_req el) (cl_node cl1 b)))"
      "cl_run cl2 = (cl_run cl1)(a := Electing ?el)"
    by (rule vote_counts [OF assms(1,2) _ _ _ c1(4,3), of p]) (use c1(5,6) s p assms(3,4,6) in auto)
  have n2: "cl_node cl2 a = n1" "cl_run cl2 a = Electing ?el" using c2(3,4) c1(5) assms(4) by simp_all
  obtain cl3 el3 where d: "elects B ids cl2 cl3" "cl_run cl3 a = Electing el3" "el_waiting el3 = []"
      "el_won el3 = el_won ?el" "cl_node cl3 = cl_node cl2" "\<forall>x. x \<noteq> a \<longrightarrow> cl_run cl3 x = cl_run cl2 x"
      "cl_elected cl3 = cl_elected cl2"
    using drain_election [OF assms(2) _ n2(2), of B] n2(1) s(4) by metis
  have "el_won el3" using d(4) s(5,6) assms(10) by (simp add: count_vote_def)
  then obtain cl4 where c4: "elects B ids cl3 cl4" "cl_node cl4 = (cl_node cl3)(a := becomeLeader B n1)"
      "cl_run cl4 = (cl_run cl3)(a := Idle)" "cl_elected cl4 = insert (1, a) (cl_elected cl3)"
      "rn_state (cl_node cl4 a) = Leader" "rn_currentTerm (cl_node cl4 a) = 1"
    using election_ends [OF assms(2) d(2,3)] d(5) n2(1) s(1-4) by metis
  have "elects B ids cl cl4" using c1(1) c2(1) d(1) c4(1) by (meson rtranclp_trans)
  then show ?thesis using that [of cl4] c4(2-6) d(5-7) c2(2-4) c1(5-7) by auto
qed

text \<open>A cluster that is started for the first time, each node on an empty database and a given store.\<close>

lemma fresh_cluster:
  fixes st :: "string \<Rightarrow> 'st"
  assumes "bolt_spec B" "bolt_writes_ok B" "configured cfgs ids"
    "\<not> tx_HasBucket B db logBucket" "\<not> tx_HasBucket B db metaBucket"
  obtains cl :: "('db, 'st) cluster" where "cluster_init B cfgs ids cl" "\<forall>a. cl_run cl a = Idle"
    "\<forall>a\<in>set ids. fresh_node B (cl_node cl a) \<and> rn_id (cl_node cl a) = a \<and>
       rn_peers (cl_node cl a) = peers_of (cfgs a) \<and> boots_on B (cfgs a) db (st a) (cl_node cl a) \<and>
       rn_storage (cl_node cl a) = st a"
proof -
  let ?new = "\<lambda>a. NewRaftNode B (\<lambda>_. None) (\<lambda>_. Inr db) (\<lambda>_. 0) (cfgs a) (st a)"
  have ex: "\<exists>n. ?new a = Inr n" for a
    using NewRaftNode_starts [OF assms(1,2,4,5), of "\<lambda>_. Inr db" "cfgs a" "\<lambda>_. None"] by metis
  define nd where "nd = (\<lambda>a. Start (SOME n. ?new a = Inr n))"
  have nd: "\<exists>n. ?new a = Inr n \<and> nd a = Start n" for a
    using someI_ex [OF ex [of a]] by (auto simp: nd_def)
  define cl where "cl = \<lparr>cl_node = nd, cl_run = (\<lambda>_. Idle), cl_requests = {}, cl_replies = {}, cl_elected = {}\<rparr>"
  have bt: "boots_on B (cfgs a) db (st a) (nd a)" for a
    unfolding boots_on_def using nd [of a]
    by (intro exI [of _ "\<lambda>_. None"] exI [of _ "\<lambda>_. Inr db"] exI [of _ "\<lambda>_. 0"]) simp
  then have "cluster_init B cfgs ids cl"
    using assms(4,5) unfolding cluster_init_def boots_def cl_def by auto
  moreover have "fresh_node B (nd a) \<and> rn_id (nd a) = a \<and> rn_peers (nd a) = peers_of (cfgs a) \<and> rn_storage (nd a) = st a"
    if a: "a \<in> set ids" for a
  proof -
    obtain n where n: "?new a = Inr n" "nd a = Start n" using nd by blast
    note c = configuredD(1-3) [OF assms(3) a]
    have v: "valid_id (nc_ID (cfg_Node (cfgs a)))" using c by simp
    note f = NewRaftNode_fresh [OF assms(1,4,5) refl c(3) v n(1)]
    show ?thesis
      using steadyD(1) [OF resetElectionTimer_steady f(1)] f c resetElectionTimer_panic(1) [of n]
        resetElectionTimer_armed [of n] NewRaftNode_volatile(3) [OF n(1)] n(2)
      by (simp add: fresh_node_def Start_def)
  qed
  ultimately show ?thesis using bt by (intro that [of cl]) (simp_all add: cl_def)
qed

lemma leader_run:
  fixes E :: "'st engine"
  assumes "bolt_spec B" "bolt_writes_ok B" "configured cfgs ids" "length ids \<in> {2, 3, 4}"
    "\<not> tx_HasBucket B db logBucket" "\<not> tx_HasBucket B db metaBucket"
    "a \<in> set ids" "b \<in> set ids" "a \<noteq> b"
  shows "\<exists>cl :: ('db, 'st) cluster. reachable B E cfgs ids cl \<and> (1, a) \<in> cl_elected cl \<and>
     rn_state (cl_node cl a) = Leader \<and> rn_currentTerm (cl_node cl a) = 1"
proof -
  obtain cl :: "('db, 'st) cluster" where cl: "reachable B E cfgs ids cl" "\<forall>a. cl_run cl a = Idle"
    "\<forall>a\<in>set ids. fresh_node B (cl_node cl a) \<and> rn_id (cl_node cl a) = a \<and>
       rn_peers (cl_node cl a) = peers_of (cfgs a)"
    using fresh_cluster [OF assms(1-3,5,6)] reachable.init by metis
  have q: "b \<in> p_ID ` set (rn_peers (cl_node cl a))" "election_quorum (rn_peers (cl_node cl a)) \<le> 2"
    using cl(3) configuredD(5,6) [OF assms(3,7)] assms(4,7-9) by (auto simp: election_quorum_def)
  show ?thesis
    using election_run [OF assms(2,7-9) _ _ _ _ q] cl assms(7,8) elects_reachable by metis
qed

text \<open>In a cluster of four, two disjoint pairs of nodes each elect a leader of term 1.\<close>

lemma split_brain_run:
  fixes E :: "'st engine"
  assumes "bolt_spec B" "bolt_writes_ok B" "configured cfgs [a, b, c, d]"
    "\<not> tx_HasBucket B db logBucket" "\<not> tx_HasBucket B db metaBucket"
  shows "\<exists>cl :: ('db, 'st) cluster. reachable B E cfgs [a, b, c, d] cl \<and>
     rn_state (cl_node cl a) = Leader \<and> rn_state (cl_node cl c) = Leader \<and>
     rn_currentTerm (cl_node cl a) = 1 \<and> rn_currentTerm (cl_node cl c) = 1"
proof -
  let ?ids = "[a, b, c, d]"
  have dist: "distinct ?ids" using assms(3) unfolding configured_def by blast
  then have ne: "a \<noteq> b" "a \<noteq> c" "b \<noteq> c" "c \<noteq> d" "a \<noteq> d" "b \<noteq> d" by auto
  obtain cl :: "('db, 'st) cluster" where cl: "reachable B E cfgs ?ids cl" "\<forall>a. cl_run cl a = Idle"
    "\<forall>x\<in>set ?ids. fresh_node B (cl_node cl x) \<and> rn_id (cl_node cl x) = x \<and>
       rn_peers (cl_node cl x) = peers_of (cfgs x)"
    using fresh_cluster [OF assms(1-5)] reachable.init by metis
  have q: "y \<in> p_ID ` set (peers_of (cfgs x))" "election_quorum (peers_of (cfgs x)) \<le> 2"
    if "x \<in> set ?ids" "y \<in> set ?ids" "x \<noteq> y" for x y
    using configuredD(5,6) [OF assms(3) that(1)] that by (auto simp: election_quorum_def)
  obtain cl1 where one: "elects B ?ids cl cl1" "rn_state (cl_node cl1 a) = Leader"
      "rn_currentTerm (cl_node cl1 a) = 1" "\<forall>x. x \<noteq> a \<longrightarrow> x \<noteq> b \<longrightarrow> cl_node cl1 x = cl_node cl x"
      "\<forall>x. x \<noteq> a \<longrightarrow> cl_run cl1 x = cl_run cl x"
    using election_run [OF assms(2), of a ?ids b cl] cl(2,3) q [of a b] ne(1) by (metis list.set_intros)
  obtain cl2 where two: "elects B ?ids cl1 cl2" "rn_state (cl_node cl2 c) = Leader"
      "rn_currentTerm (cl_node cl2 c) = 1" "\<forall>x. x \<noteq> c \<longrightarrow> x \<noteq> d \<longrightarrow> cl_node cl2 x = cl_node cl1 x"
  proof (rule election_run [OF assms(2), of c ?ids d cl1])
    show "fresh_node B (cl_node cl1 c)" "fresh_node B (cl_node cl1 d)" "cl_run cl1 c = Idle"
      "rn_id (cl_node cl1 c) = c" "d \<in> p_ID ` set (rn_peers (cl_node cl1 c))"
      "election_quorum (rn_peers (cl_node cl1 c)) \<le> 2"
      using one(4,5) cl(2,3) q [of c d] ne by simp_all
  qed (use ne in simp_all)
  have "cl_node cl2 a = cl_node cl1 a" using two(4) ne by simp
  moreover have "reachable B E cfgs ?ids cl2" using cl(1) one(1) two(1) elects_reachable by metis
  ultimately show ?thesis using one(2,3) two(2,3) by (intro exI [of _ cl2]) simp
qed

end
