(* ===== verification/Replication.thy ===== *)
theory Replication
  imports Raft_Node_Spec
begin

text \<open>
  Log replication: what \<open>HandleAppendEntries\<close> does to the follower's log and what the leader makes
  of the reply. Entries arrive with consecutive indices; \<open>runs\<close> says so.
\<close>

section \<open>Batches\<close>

fun runs :: "u64 \<Rightarrow> log_entry list \<Rightarrow> bool" where
  "runs idx [] = True"
| "runs idx (e # es) \<longleftrightarrow> le_Index e = idx \<and> (es \<noteq> [] \<longrightarrow> idx \<noteq> - 1) \<and> runs (idx + 1) es"

definition batch_ok :: "log_entry list \<Rightarrow> bool" where
  "batch_ok es \<longleftrightarrow> (\<forall>e\<in>set es. le_Term e \<noteq> 0 \<and> entry_fits e)"

lemma runs_ge: "runs idx es \<Longrightarrow> e \<in> set es \<Longrightarrow> idx \<le> le_Index e"
proof (induction idx es rule: runs.induct)
  case (2 idx d es)
  show ?case
  proof (cases "e \<in> set es")
    case True
    then have "idx + 1 \<le> le_Index e" "idx \<noteq> - 1" using 2 by auto
    then show ?thesis by (simp add: word_le_nat_alt unat_inc)
  next
    case False
    then show ?thesis using 2 by simp
  qed
qed simp

lemma runs_gt:
  assumes "runs idx (d # es)" "e \<in> set es"
  shows "idx < le_Index e"
proof -
  have "idx + 1 \<le> le_Index e" "idx \<noteq> - 1" using assms runs_ge [of "idx + 1" es e] by auto
  then show ?thesis by (simp add: word_le_nat_alt word_less_nat_alt unat_inc)
qed

lemma TermAt_cong:
  "log_at B rl' i = log_at B rl i \<Longrightarrow> rl_snapshotIndex rl' = rl_snapshotIndex rl \<Longrightarrow>
   rl_snapshotTerm rl' = rl_snapshotTerm rl \<Longrightarrow> TermAt B rl' i = TermAt B rl i"
  by (simp add: TermAt_log_at)

lemma TermAt_above:
  assumes "rl_snapshotIndex rl < i"
  shows "TermAt B rl i = (case log_at B rl i of None \<Rightarrow> 0 | Some e \<Rightarrow> le_Term e)"
proof -
  have "i \<noteq> 0" "i \<noteq> rl_snapshotIndex rl"
    using assms le_less_trans [OF word_zero_le assms] by simp_all
  then show ?thesis by (simp add: TermAt_log_at)
qed

section \<open>Appending without conflict\<close>

text \<open>
  When no entry of the batch contradicts the log, every entry of the batch is in the log afterwards,
  with its term, and nothing else changes.
\<close>

definition agrees :: "'db bolt \<Rightarrow> 'db raft_log \<Rightarrow> log_entry list \<Rightarrow> bool" where
  "agrees B rl es \<longleftrightarrow> (\<forall>e\<in>set es. TermAt B rl (le_Index e) \<in> {0, le_Term e})"

definition stores :: "'db bolt \<Rightarrow> 'db raft_log \<Rightarrow> 'db raft_log \<Rightarrow> log_entry list \<Rightarrow> bool" where
  "stores B rl rl' es \<longleftrightarrow>
     (\<forall>e\<in>set es. (if TermAt B rl (le_Index e) = 0 then log_at B rl' (le_Index e) = Some (clean_entry e)
        else log_at B rl' (le_Index e) = log_at B rl (le_Index e))) \<and>
     (\<forall>i. i \<notin> le_Index ` set es \<longrightarrow> log_at B rl' i = log_at B rl i) \<and>
     rl_snapshotIndex rl' = rl_snapshotIndex rl \<and> rl_snapshotTerm rl' = rl_snapshotTerm rl"

text \<open>One entry that the log does not contradict is stored when its place is empty, and skipped otherwise.\<close>

lemma ae_append_one:
  assumes "rl_ok B rl" "bolt_writes_ok B" "le_Index e = idx" "entry_fits e" "TermAt B rl idx \<in> {0, le_Term e}"
  obtains rl1 where "rl_ok B rl1" "rl_snapshotIndex rl1 = rl_snapshotIndex rl" "rl_snapshotTerm rl1 = rl_snapshotTerm rl"
    "\<And>i. log_at B rl1 i = (if i = idx \<and> TermAt B rl idx = 0 then Some (clean_entry e) else log_at B rl i)"
    "\<And>es. ae_append B idx (e # es) rl = ae_append B (idx + 1) es rl1"
proof (cases "TermAt B rl idx = 0")
  case True
  obtain rl1 where a: "Append B e rl = (rl1, None)" using Append_ok [OF assms(1,2,4)] .
  note c = Append_commit [OF assms(1) a]
  show ?thesis by (rule that [of rl1]) (use c assms(3) a True in \<open>simp_all add: Let_def\<close>)
next
  case False
  then show ?thesis by (intro that [of rl]) (use assms(1,5) in \<open>simp_all add: Let_def\<close>)
qed

lemma stores_Cons:
  assumes "stores B rl1 rl' es" "rl_snapshotIndex rl1 = rl_snapshotIndex rl" "rl_snapshotTerm rl1 = rl_snapshotTerm rl"
    "\<And>i. log_at B rl1 i = (if i = le_Index e \<and> TermAt B rl (le_Index e) = 0 then Some (clean_entry e) else log_at B rl i)"
    "\<And>d. d \<in> set es \<Longrightarrow> TermAt B rl1 (le_Index d) = TermAt B rl (le_Index d)" "le_Index e \<notin> le_Index ` set es"
  shows "stores B rl rl' (e # es)"
  unfolding stores_def
proof (intro conjI ballI allI impI)
  fix d assume d: "d \<in> set (e # es)"
  show "if TermAt B rl (le_Index d) = 0 then log_at B rl' (le_Index d) = Some (clean_entry d)
    else log_at B rl' (le_Index d) = log_at B rl (le_Index d)"
  proof (cases "d \<in> set es")
    case True
    then have "le_Index d \<noteq> le_Index e" using assms(6) by (metis image_eqI)
    then show ?thesis using assms(1,4) assms(5) [OF True] True by (auto simp: stores_def)
  next
    case False
    then have "d = e" using d by simp
    moreover have "log_at B rl' (le_Index e) = log_at B rl1 (le_Index e)" using assms(1,6) by (simp add: stores_def)
    ultimately show ?thesis using assms(4) by simp
  qed
qed (use assms(1-4) in \<open>auto simp: stores_def\<close>)

lemma ae_append_agrees:
  assumes "rl_ok B rl" "bolt_writes_ok B" "runs idx es" "batch_ok es" "rl_snapshotIndex rl < idx"
    "agrees B rl es"
  shows "\<exists>rl'. ae_append B idx es rl = (rl', True) \<and> rl_ok B rl' \<and> stores B rl rl' es"
  using assms
proof (induction es arbitrary: idx rl)
  case Nil
  then show ?case by (simp add: stores_def)
next
  case (Cons e es)
  have e: "le_Index e = idx" "le_Term e \<noteq> 0" "entry_fits e" using Cons.prems by (simp_all add: batch_ok_def)
  have tail: "runs (idx + 1) es" "batch_ok es" using Cons.prems by (simp_all add: batch_ok_def)
  have gt: "idx < le_Index d" if "d \<in> set es" for d using runs_gt [OF Cons.prems(3) that] .
  have snap: "es \<noteq> [] \<Longrightarrow> rl_snapshotIndex rl < idx + 1"
    using Cons.prems(3,5) by (auto simp: word_less_nat_alt unat_inc)
  have "TermAt B rl idx \<in> {0, le_Term e}" using Cons.prems(6) e(1) by (auto simp: agrees_def)
  then obtain rl1 where rl1: "rl_ok B rl1" "rl_snapshotIndex rl1 = rl_snapshotIndex rl"
      "rl_snapshotTerm rl1 = rl_snapshotTerm rl"
      "\<And>i. log_at B rl1 i = (if i = idx \<and> TermAt B rl idx = 0 then Some (clean_entry e) else log_at B rl i)"
      "\<And>es. ae_append B idx (e # es) rl = ae_append B (idx + 1) es rl1"
    using ae_append_one [OF Cons.prems(1,2) e(1,3)] by blast
  have same: "TermAt B rl1 (le_Index d) = TermAt B rl (le_Index d)" if "d \<in> set es" for d
    using gt [OF that] rl1(2,3,4) by (intro TermAt_cong) auto
  have "agrees B rl1 es" using Cons.prems(6) same by (simp add: agrees_def)
  then have "\<exists>rl'. ae_append B (idx + 1) es rl1 = (rl', True) \<and> rl_ok B rl' \<and> stores B rl1 rl' es"
    using Cons.IH [OF rl1(1) Cons.prems(2) tail] snap rl1(1,2) by (cases "es = []") (simp_all add: stores_def)
  then obtain rl' where r: "ae_append B (idx + 1) es rl1 = (rl', True)" "rl_ok B rl'" "stores B rl1 rl' es" by blast
  have "le_Index e \<notin> le_Index ` set es" using gt e(1) by fastforce
  then have "stores B rl rl' (e # es)"
    by (intro stores_Cons [OF r(3) rl1(2,3)]) (use rl1(4) e(1) same in auto)
  with r(1,2) rl1(5) show ?case by auto
qed

section \<open>Appending over a conflict\<close>

text \<open>
  Whatever its log holds, a follower with a healthy disk works through the whole batch, and nothing
  appears below it.
\<close>

lemma ae_append_total:
  assumes "rl_ok B rl" "bolt_writes_ok B" "runs idx es" "batch_ok es"
  shows "\<exists>rl'. ae_append B idx es rl = (rl', True) \<and> rl_ok B rl' \<and>
    (\<forall>i. i \<notin> le_Index ` set es \<longrightarrow> log_at B rl i = None \<longrightarrow> log_at B rl' i = None)"
  using assms
proof (induction es arbitrary: idx rl)
  case (Cons e es)
  have e: "le_Index e = idx" "entry_fits e" "runs (idx + 1) es" "batch_ok es"
    using Cons.prems by (simp_all add: batch_ok_def)
  have "\<exists>rl2. rl_ok B rl2 \<and> ae_append B idx (e # es) rl = ae_append B (idx + 1) es rl2 \<and>
      (\<forall>i. i \<noteq> idx \<longrightarrow> log_at B rl i = None \<longrightarrow> log_at B rl2 i = None)"
  proof (cases "TermAt B rl idx \<in> {0, le_Term e}")
    case True
    then show ?thesis using ae_append_one [OF Cons.prems(1,2) e(1,2)] by (metis (full_types))
  next
    case False
    obtain rl1 where t: "TruncateFrom B idx rl = (rl1, None)" using TruncateFrom_ok [OF Cons.prems(1,2)] .
    note c = TruncateFrom_commit [OF Cons.prems(1) t]
    show ?thesis by (rule exI [of _ rl1]) (use False t c(1,2) in \<open>auto simp: Let_def\<close>)
  qed
  then obtain rl2 where rl2: "rl_ok B rl2" "ae_append B idx (e # es) rl = ae_append B (idx + 1) es rl2"
      "\<forall>i. i \<noteq> idx \<longrightarrow> log_at B rl i = None \<longrightarrow> log_at B rl2 i = None" by blast
  obtain rl' where "ae_append B (idx + 1) es rl2 = (rl', True)" "rl_ok B rl'"
      "\<forall>i. i \<notin> le_Index ` set es \<longrightarrow> log_at B rl2 i = None \<longrightarrow> log_at B rl' i = None"
    using Cons.IH [OF rl2(1) Cons.prems(2) e(3,4)] by blast
  then show ?case using rl2(2,3) e(1) by auto
qed simp

text \<open>
  When the first entry contradicts the log, the log is cut there, and the conflicting entry itself is
  not stored: \<open>existingTerm\<close> still holds the term of the entry that was just removed. The loop
  reports success all the same. When the conflict is at the end of the log, the rest of the batch is
  stored behind the gap.
\<close>

lemma ae_append_conflict:
  assumes "rl_ok B rl" "bolt_writes_ok B" "runs idx (e # es)" "batch_ok es" "rl_snapshotIndex rl < idx"
    "TermAt B rl idx \<noteq> 0" "TermAt B rl idx \<noteq> le_Term e"
  shows "\<exists>rl'. ae_append B idx (e # es) rl = (rl', True) \<and> rl_ok B rl' \<and> log_at B rl' idx = None \<and>
     (LastIndex B rl = idx \<longrightarrow> (\<forall>d\<in>set es. log_at B rl' (le_Index d) = Some (clean_entry d)))"
proof -
  obtain rl1 where t: "TruncateFrom B idx rl = (rl1, None)" using TruncateFrom_ok [OF assms(1,2)] .
  note c = TruncateFrom_commit [OF assms(1) t]
  have go: "ae_append B idx (e # es) rl = ae_append B (idx + 1) es rl1"
    using t assms(6,7) by (simp add: Let_def)
  have gt: "idx < le_Index d" if "d \<in> set es" for d using runs_gt [OF assms(3) that] .
  have ne: "idx \<notin> le_Index ` set es" using gt by fastforce
  have "log_at B rl idx \<noteq> None" using assms(6) TermAt_above [OF assms(5), of B] by (auto split: option.splits)
  then have gone: "log_at B rl1 idx = None" using c(2) truncate_keys_at [OF assms(1)] by simp
  have run: "runs (idx + 1) es" using assms(3) by simp
  obtain rl' where r: "ae_append B (idx + 1) es rl1 = (rl', True)" "rl_ok B rl'" "log_at B rl' idx = None"
    using ae_append_total [OF c(1) assms(2) run assms(4)] ne gone by blast
  have "log_at B rl' (le_Index d) = Some (clean_entry d)" if last: "LastIndex B rl = idx" and d: "d \<in> set es" for d
  proof -
    have zero: "TermAt B rl1 (le_Index d) = 0" if "d \<in> set es" for d
    proof -
      have "log_at B rl (le_Index d) = None"
        using LastIndex_greatest(1) [OF assms(1), of "le_Index d"] gt [OF that] last leD by (metis not_None_eq)
      then show ?thesis using gt [OF that] assms(5) c(2,4) by (subst TermAt_above) auto
    qed
    have "agrees B rl1 es" using zero by (simp add: agrees_def)
    moreover have "rl_snapshotIndex rl1 < idx + 1"
      using assms(3,5) c(4) d by (auto simp: word_less_nat_alt unat_inc)
    ultimately have "stores B rl1 rl' es" using ae_append_agrees [OF c(1) assms(2) run assms(4)] r(1) by auto
    then show ?thesis using zero d by (simp add: stores_def)
  qed
  then show ?thesis using go r by auto
qed

section \<open>Rejection\<close>

text \<open>The first index of a run of entries of the same term.\<close>

lemma conflict_loop_spec:
  assumes "c = conflict_loop B rl t ci"
  shows "c \<le> ci" "\<forall>i. c \<le> i \<and> i < ci \<longrightarrow> TermAt B rl i = t"
    "rl_snapshotIndex rl + 1 < c \<longrightarrow> TermAt B rl (c - 1) \<noteq> t"
proof -
  have "c \<le> ci \<and> (\<forall>i. c \<le> i \<and> i < ci \<longrightarrow> TermAt B rl i = t) \<and>
      (rl_snapshotIndex rl + 1 < c \<longrightarrow> TermAt B rl (c - 1) \<noteq> t)"
    using assms
  proof (induction B rl t ci arbitrary: c rule: conflict_loop.induct)
    case (1 B rl t ci)
    show ?case
    proof (cases "SnapshotIndex rl + 1 < ci \<and> TermAt B rl (ci - 1) = t")
      case True
      then have pos: "0 < ci" using le_less_trans [OF word_zero_le] by blast
      have c: "c = conflict_loop B rl t (ci - 1)" using 1(2) True by (subst (asm) conflict_loop.simps) simp
      note ih = 1(1) [OF _ _ c]
      have le: "c \<le> ci - 1" and run: "\<And>i. c \<le> i \<Longrightarrow> i < ci - 1 \<Longrightarrow> TermAt B rl i = t"
          and stop: "rl_snapshotIndex rl + 1 < c \<longrightarrow> TermAt B rl (c - 1) \<noteq> t"
        using ih True by auto
      have "TermAt B rl i = t" if "c \<le> i" "i < ci" for i
      proof (cases "i = ci - 1")
        case False
        then have "i < ci - 1" using that(2) word_less_iff_le_dec [OF pos, of i] by simp
        then show ?thesis using run that(1) by blast
      qed (use True in simp)
      moreover have "c \<le> ci" using le pos by (auto simp: word_le_nat_alt unat_dec)
      ultimately show ?thesis using stop by blast
    next
      case False
      then have "c = ci" using 1(2) by (subst (asm) conflict_loop.simps) auto
      moreover have "rl_snapshotIndex rl + 1 < ci \<longrightarrow> TermAt B rl (ci - 1) \<noteq> t"
        using False by (simp add: SnapshotIndex_def)
      ultimately show ?thesis using leD by blast
    qed
  qed
  then show "c \<le> ci" "\<forall>i. c \<le> i \<and> i < ci \<longrightarrow> TermAt B rl i = t"
    "rl_snapshotIndex rl + 1 < c \<longrightarrow> TermAt B rl (c - 1) \<noteq> t" by blast+
qed

section \<open>The same log in another file\<close>

text \<open>Saving the term and the vote rewrites the file but not the log that it holds.\<close>

definition same_log :: "'db bolt \<Rightarrow> 'db raft_log \<Rightarrow> 'db raft_log \<Rightarrow> bool" where
  "same_log B rl rl' \<longleftrightarrow> rl_ok B rl \<and> rl_ok B rl' \<and> log_at B rl' = log_at B rl \<and>
     rl_snapshotIndex rl' = rl_snapshotIndex rl \<and> rl_snapshotTerm rl' = rl_snapshotTerm rl"

lemma same_log_LastIndex:
  assumes "same_log B rl rl'"
  shows "LastIndex B rl' = LastIndex B rl"
proof -
  have ok: "rl_ok B rl" "rl_ok B rl'" and at: "log_at B rl' = log_at B rl"
      and snap: "rl_snapshotIndex rl' = rl_snapshotIndex rl"
    using assms by (simp_all add: same_log_def)
  show ?thesis
  proof (cases "\<forall>i. log_at B rl i = None")
    case True
    then show ?thesis using LastIndex_empty [OF ok(1)] LastIndex_empty [OF ok(2)] at snap by simp
  next
    case False
    then obtain i e where i: "log_at B rl i = Some e" by auto
    obtain d where d: "log_at B rl (LastIndex B rl) = Some d" using LastIndex_greatest(2) [OF ok(1) i] by blast
    obtain d' where d': "log_at B rl' (LastIndex B rl') = Some d'"
      using LastIndex_greatest(2) [OF ok(2)] i at by metis
    have "LastIndex B rl \<le> LastIndex B rl'" using LastIndex_greatest(1) [OF ok(2)] d at by metis
    moreover have "LastIndex B rl' \<le> LastIndex B rl" using LastIndex_greatest(1) [OF ok(1)] d' at by metis
    ultimately show ?thesis by simp
  qed
qed

lemma same_log_LastTerm:
  assumes "same_log B rl rl'"
  shows "LastTerm B rl' = LastTerm B rl"
proof -
  have "Get B i rl' = Get B i rl" for i
    using assms by (simp only: same_log_def Get_log_at)
  then show ?thesis using same_log_LastIndex [OF assms] assms
    by (simp add: LastTerm_def Let_def same_log_def split: sum.split)
qed

lemma same_log_TermAt: "same_log B rl rl' \<Longrightarrow> TermAt B rl' i = TermAt B rl i"
  by (intro TermAt_cong) (simp_all add: same_log_def)

lemma same_log_agrees: "same_log B rl rl' \<Longrightarrow> agrees B rl' es = agrees B rl es"
  by (simp add: agrees_def same_log_TermAt)

lemma same_log_stores: "same_log B rl rl' \<Longrightarrow> stores B rl' rl'' es = stores B rl rl'' es"
  by (simp add: stores_def same_log_TermAt) (simp add: same_log_def)

lemma ae_enter_same_log:
  assumes "node_ok B n" "bolt_writes_ok B"
  shows "same_log B (rn_raftLog n) (rn_raftLog (ae_enter B req n))"
proof -
  have "rl_ok B (rn_raftLog n)" using assms(1) by (simp add: node_ok_def)
  then show ?thesis
    using SaveMeta_saved [OF _ assms(2) utf8_valid_Nil, of "rn_raftLog n" "aer_Term req"]
    by (simp add: same_log_def)
qed

section \<open>The handler\<close>

text \<open>Rule 2 of the handler: the previous entry is present with the right term.\<close>

definition prev_ok :: "'db bolt \<Rightarrow> 'db raft_log \<Rightarrow> append_entries_request \<Rightarrow> bool" where
  "prev_ok B rl req \<longleftrightarrow> aer_PrevLogIndex req = 0 \<or>
     aer_PrevLogIndex req \<le> LastIndex B rl \<and> TermAt B rl (aer_PrevLogIndex req) = aer_PrevLogTerm req"

lemma ae_check_None_iff: "ae_check B rl req resp = None \<longleftrightarrow> prev_ok B rl req"
  by (auto simp: ae_check_def prev_ok_def Let_def word_gt_0)

lemma same_log_prev_ok: "same_log B rl rl' \<Longrightarrow> prev_ok B rl' req = prev_ok B rl req"
  by (simp add: prev_ok_def same_log_LastIndex same_log_TermAt)

definition follower_commit :: "append_entries_request \<Rightarrow> u64 \<Rightarrow> u64" where
  "follower_commit req c =
     max c (min (aer_LeaderCommit req) (aer_PrevLogIndex req + of_nat (length (aer_Entries req))))"

lemma ae_commit_value: "rn_commitIndex (ae_commit req n) = follower_commit req (rn_commitIndex n)"
  by (auto simp: ae_commit_def follower_commit_def Let_def max_def min_def)

lemma HandleAppendEntries_accepts:
  assumes "node_ok B n" "\<not> rn_panicked n" "bolt_writes_ok B" "rn_currentTerm n \<le> aer_Term req"
    and prev: "prev_ok B (rn_raftLog n) req"
    and app: "\<And>rl. same_log B (rn_raftLog n) rl \<Longrightarrow>
      \<exists>rl'. ae_append B (aer_PrevLogIndex req + 1) (aer_Entries req) rl = (rl', True) \<and> P rl'"
  shows "\<exists>n' resp. HandleAppendEntries B req n = (n', resp) \<and> aes_Success resp \<and>
    aes_Term resp = aer_Term req \<and> rn_currentTerm n' = aer_Term req \<and> rn_leaderID n' = aer_LeaderID req \<and>
    rn_commitIndex n' = follower_commit req (rn_commitIndex n) \<and>
    aes_MatchIndex resp = LastIndex B (rn_raftLog n') \<and> P (rn_raftLog n')"
proof -
  have tm: "timer_ok (rn_cfg n)" using assms(1) by (simp add: node_ok_def)
  note same = ae_enter_same_log [OF assms(1,3), of req]
  obtain n' resp where h: "HandleAppendEntries B req n = (n', resp)" by fastforce
  from tm assms(2) h show ?thesis
  proof (cases rule: HandleAppendEntries_cases)
    case stale
    show ?thesis using leD [OF assms(4)] stale(1) by blast
  next
    case reject
    have "ae_check B (rn_raftLog (ae_enter B req n)) req (ae_reply req n) = None"
      using prev same_log_prev_ok [OF same] by (simp only: ae_check_None_iff)
    then show ?thesis using reject(3) by simp
  next
    case (failed rl)
    show ?thesis using app [OF same] failed(3) by simp
  next
    case (accept rl)
    let ?m = "(ae_enter B req n)\<lparr>rn_raftLog := rl\<rparr>"
    have "P rl" using app [OF same] accept(3) by simp
    moreover have t: "(if rn_currentTerm n < aer_Term req then aer_Term req else rn_currentTerm n) = aer_Term req"
      using assms(4) by (cases "rn_currentTerm n < aer_Term req") (simp_all add: not_less)
    have "rn_currentTerm n' = aer_Term req" using accept(4) t by simp
    moreover have "rn_commitIndex n' = follower_commit req (rn_commitIndex n)"
      using accept(4) by (simp add: ae_commit_value)
    moreover have "rn_leaderID n' = aer_LeaderID req" "rn_raftLog n' = rl"
      using accept(4) by (simp_all add: ae_commit_def Let_def)
    moreover have "aes_Success resp" "aes_Term resp = aer_Term req" "aes_MatchIndex resp = LastIndex B rl"
      using accept(5) t by (simp_all add: ae_reply_def)
    ultimately show ?thesis using h by simp
  qed
qed

text \<open>Commit indices never decrease on this path.\<close>

lemma HandleAppendEntries_commit_mono:
  assumes "timer_ok (rn_cfg n)" "\<not> rn_panicked n" "HandleAppendEntries B req n = (n', resp)"
  shows "rn_commitIndex n \<le> rn_commitIndex n'"
  using assms
  by (cases rule: HandleAppendEntries_cases) (simp_all add: ae_commit_value follower_commit_def)

section \<open>The leader's side\<close>

text \<open>
  While a node leads, \<open>matchIndex\<close> has exactly one slot per peer, so \<open>len(matchIndex) + 1\<close> is the
  size of the cluster.
\<close>

definition leader_wf :: "('db, 'st) raft_node \<Rightarrow> bool" where
  "leader_wf n \<longleftrightarrow> (\<forall>ls. rn_leader n = Some ls \<longrightarrow> distinct (map fst (matchIndex ls)) \<and>
     fst ` set (matchIndex ls) = p_ID ` set (rn_peers n))"

lemma update_keys: "k \<in> fst ` set m \<Longrightarrow> fst ` set (AList.update k v m) = fst ` set m"
  by (metis insert_absorb dom_map_of_conv_image_fst dom_fun_upd option.distinct(1) update_conv')

lemma newLeaderState_keys: "fst ` set (matchIndex (newLeaderState ps i)) = p_ID ` set ps"
  using newLeaderState_maps(2) [of ps i]
  by (auto simp: dom_map_of_conv_image_fst [symmetric] dom_def split: if_splits)

lemma leader_wf_becomeLeader: "leader_wf n \<Longrightarrow> leader_wf (becomeLeader B n)"
  by (simp add: leader_wf_def becomeLeader_def Let_def resetHeartbeatTimer_def newLeaderState_keys
      newLeaderState_distinct)

lemma note_match_wf:
  assumes "distinct (map fst (matchIndex ls))" "k \<in> fst ` set (matchIndex ls)"
  shows "distinct (map fst (matchIndex (note_match k m ls)))"
    "fst ` set (matchIndex (note_match k m ls)) = fst ` set (matchIndex ls)"
  using assms by (simp_all add: note_match_def Let_def distinct_update update_keys)

lemma note_match_value:
  "index_get (matchIndex (note_match k m ls)) j =
     (if j = k then max m (index_get (matchIndex ls) k) else index_get (matchIndex ls) j)"
  by (auto simp: note_match_def Let_def index_get_def update_conv' max_def)

lemma note_match_next: "index_get (nextIndex (note_match k m ls)) k = index_get (matchIndex (note_match k m ls)) k + 1"
  by (simp add: note_match_def Let_def index_get_def update_conv')

lemma back_up_match [simp]: "matchIndex (back_up k c ls) = matchIndex ls"
  by (simp add: back_up_def)

text \<open>What a leader commits, it may commit: an entry of its own term that a majority reported.\<close>

lemma append_reply_commits:
  assumes "leader_wf n" "p \<in> set (rn_peers n)" "n' = append_reply B p resp n"
    "rn_commitIndex n' \<noteq> rn_commitIndex n"
  shows "\<exists>ls. rn_leader n' = Some ls \<and> rn_state n' = Leader \<and>
    committable (matchIndex ls) (rn_commitIndex n) (rn_currentTerm n) (TermAt B (rn_raftLog n))
      (LastIndex B (rn_raftLog n)) (rn_commitIndex n') \<and>
    (\<forall>c. committable (matchIndex ls) (rn_commitIndex n) (rn_currentTerm n) (TermAt B (rn_raftLog n))
      (LastIndex B (rn_raftLog n)) c \<longrightarrow> c \<le> rn_commitIndex n')"
proof -
  obtain ls where ls: "rn_leader n = Some ls" "rn_state n = Leader" "\<not> rn_currentTerm n < aes_Term resp"
      "aes_Success resp"
    using assms(3,4) by (auto simp: append_reply_def split: if_splits option.splits)
  let ?ls = "note_match (p_ID p) (aes_MatchIndex resp) ls"
  let ?c = "commitCandidate ?ls (rn_commitIndex n) (LastIndex B (rn_raftLog n)) (rn_currentTerm n)
    (TermAt B (rn_raftLog n))"
  have n': "n' = (if 0 < ?c then n\<lparr>rn_leader := Some ?ls, rn_commitIndex := ?c,
      rn_tasks := rn_tasks n @ [TApplyCommitted]\<rparr> else n\<lparr>rn_leader := Some ?ls\<rparr>)"
    using assms(3) ls by (simp add: append_reply_def Let_def)
  then have c: "0 < ?c" "rn_commitIndex n' = ?c" "rn_leader n' = Some ?ls" "rn_state n' = Leader"
    using assms(4) ls(2) by (auto split: if_splits)
  have "distinct (map fst (matchIndex ?ls))"
    using note_match_wf(1) assms(1,2) ls(1) by (simp add: leader_wf_def)
  from commit_loop_spec [OF this] c show ?thesis
    by (auto simp: commitCandidate_def word_gt_0)
qed

lemma append_reply_commit_mono: "rn_commitIndex n \<le> rn_commitIndex (append_reply B p resp n)"
  if "leader_wf n" "p \<in> set (rn_peers n)"
  using append_reply_commits [OF that refl, of B resp]
  by (cases "rn_commitIndex (append_reply B p resp n) = rn_commitIndex n") (auto simp: committable_def)

end
