(* ===== verification/Replication_Round.thy ===== *)
theory Replication_Round
  imports Replication
begin

text \<open>
  One round of replication, from the leader's log to the follower's: \<open>replicateToPeer\<close> reads a
  range of the log and \<open>HandleAppendEntries\<close> stores it. The batch that a leader with a gapless log
  sends has consecutive indices and ends at the last index, which is what the lemmas about the
  follower ask for.
\<close>

section \<open>Reading a range\<close>

definition entries_from :: "'db bolt \<Rightarrow> 'db raft_log \<Rightarrow> u64 \<Rightarrow> u64 \<Rightarrow> log_entry list" where
  "entries_from B rl i to = map (\<lambda>k. the (log_at B rl (of_nat k))) [unat i ..< Suc (unat to)]"

lemma entries_from_step:
  assumes "i < to"
  shows "entries_from B rl i to = the (log_at B rl i) # entries_from B rl (i + 1) to"
  using assms less_not_max [OF assms] unfolding entries_from_def
  by (subst upt_conv_Cons) (simp_all add: word_less_nat_alt unat_inc)

lemma entries_from_last: "entries_from B rl i i = [the (log_at B rl i)]"
  by (simp add: entries_from_def)

lemma GetRange_entry:
  assumes "rl_ok B rl" "log_at B rl i = Some e" "i \<le> to"
  shows "GetRange B i to rl = (if i = to then Inr [e]
    else (case GetRange B (i + 1) to rl of Inl err \<Rightarrow> Inl err | Inr rest \<Rightarrow> Inr (e # rest)))"
proof -
  obtain data where "bk_Get B (rl_db rl) logBucket (indexKey i) = Some data"
      "unmarshal dec_entry zero_entry data = Inr e"
    using assms(2) by (auto simp: log_at_def Get_def split: if_splits option.splits sum.splits)
  then show ?thesis using assms(3) rl_okD(4) [OF assms(1)] by (subst GetRange.simps) simp
qed

text \<open>Induction along a range of indices, from its end.\<close>

lemma range_induct [consumes 1, case_names last step]:
  fixes i :: u64
  assumes "i \<le> to" "P to" "\<And>i. i < to \<Longrightarrow> i \<noteq> - 1 \<Longrightarrow> unat (i + 1) = Suc (unat i) \<Longrightarrow> P (i + 1) \<Longrightarrow> P i"
  shows "P i"
  using assms(1)
proof (induction "unat to - unat i" arbitrary: i)
  case 0
  then have "i = to" by (simp add: word_le_nat_alt word_unat_eq_iff)
  then show ?case using assms(2) by simp
next
  case (Suc k)
  have lt: "i < to" using Suc.hyps(2) by (simp add: word_less_nat_alt)
  then have nm: "i \<noteq> - 1" by (rule less_not_max)
  note inc = unat_inc [OF nm]
  have le: "i + 1 \<le> to" using lt inc by (simp add: word_le_nat_alt word_less_nat_alt)
  have "k = unat to - unat (i + 1)" using Suc.hyps(2) inc by simp
  then show ?case using Suc.hyps(1) le assms(3) [OF lt nm inc] by blast
qed

definition filled :: "'db bolt \<Rightarrow> 'db raft_log \<Rightarrow> u64 \<Rightarrow> u64 \<Rightarrow> bool" where
  "filled B rl i to \<longleftrightarrow> (\<forall>j. i \<le> j \<and> j \<le> to \<longrightarrow> log_at B rl j \<noteq> None)"

lemma filled_step: "filled B rl i to \<Longrightarrow> unat (i + 1) = Suc (unat i) \<Longrightarrow> filled B rl (i + 1) to"
  by (simp add: filled_def word_le_nat_alt)

lemma filled_head: "filled B rl i to \<Longrightarrow> i \<le> to \<Longrightarrow> \<exists>e. log_at B rl i = Some e"
  by (auto simp: filled_def)

lemma GetRange_full:
  assumes "i \<le> to" "rl_ok B rl" "filled B rl i to"
  shows "GetRange B i to rl = Inr (entries_from B rl i to) \<and> runs i (entries_from B rl i to)"
  using assms(1,3)
proof (induction rule: range_induct)
  case last
  obtain e where e: "log_at B rl to = Some e" using filled_head [OF last] by auto
  then show ?case using GetRange_entry [OF assms(2) e] log_at_index [OF assms(2) e]
    by (simp add: entries_from_last)
next
  case (step i)
  obtain e where e: "log_at B rl i = Some e" using filled_head [OF step.prems less_imp_le [OF step.hyps(1)]] by blast
  have "GetRange B (i + 1) to rl = Inr (entries_from B rl (i + 1) to) \<and> runs (i + 1) (entries_from B rl (i + 1) to)"
    using step.IH filled_step [OF step.prems step.hyps(3)] by blast
  moreover have "entries_from B rl i to = e # entries_from B rl (i + 1) to"
    using entries_from_step [OF step.hyps(1), of B rl] e by simp
  ultimately show ?case
    using GetRange_entry [OF assms(2) e less_imp_le [OF step.hyps(1)]] less_imp_neq [OF step.hyps(1)] step.hyps(2) log_at_index [OF assms(2) e]
    by simp
qed

lemma entries_from_mem:
  assumes "filled B rl i to"
  shows "e \<in> set (entries_from B rl i to) \<longleftrightarrow> (\<exists>j. i \<le> j \<and> j \<le> to \<and> log_at B rl j = Some e)"
proof
  assume "e \<in> set (entries_from B rl i to)"
  then obtain k where k: "unat i \<le> k" "k \<le> unat to" "e = the (log_at B rl (of_nat k))"
    by (auto simp: entries_from_def)
  have "unat (of_nat k :: u64) = k"
    using k(2) unsigned_less [of to, where ?'a = nat] by (simp add: unat_of_nat)
  then have "i \<le> of_nat k" "of_nat k \<le> to" using k by (simp_all add: word_le_nat_alt)
  then show "\<exists>j. i \<le> j \<and> j \<le> to \<and> log_at B rl j = Some e"
    using assms k(3) unfolding filled_def by (intro exI [of _ "of_nat k"]) auto
next
  assume "\<exists>j. i \<le> j \<and> j \<le> to \<and> log_at B rl j = Some e"
  then obtain j where j: "i \<le> j" "j \<le> to" "log_at B rl j = Some e" by blast
  then have "unat j \<in> set [unat i ..< Suc (unat to)]" by (auto simp: word_le_nat_alt)
  then have "the (log_at B rl (of_nat (unat j))) \<in> set (entries_from B rl i to)"
    unfolding entries_from_def set_map by (rule imageI)
  then show "e \<in> set (entries_from B rl i to)" using j(3) by simp
qed

section \<open>A round\<close>

text \<open>What a leader with a gapless log sends to a peer that lacks the entries from \<open>i\<close> on.\<close>

definition round_request :: "'db bolt \<Rightarrow> ('db, 'st) raft_node \<Rightarrow> u64 \<Rightarrow> append_entries_request" where
  "round_request B n i =
     \<lparr>aer_Term = rn_currentTerm n, aer_LeaderID = rn_id n, aer_PrevLogIndex = i - 1,
      aer_PrevLogTerm = TermAt B (rn_raftLog n) (i - 1),
      aer_Entries = entries_from B (rn_raftLog n) i (LastIndex B (rn_raftLog n)),
      aer_LeaderCommit = rn_commitIndex n\<rparr>"

lemma contiguous_filled:
  assumes "rlog.contiguous B rl" "rl_snapshotIndex rl < i"
  shows "filled B rl i (LastIndex B rl)"
  using assms less_le_trans unfolding filled_def rlog.contiguous_def by blast

lemma replicateToPeer_request:
  assumes "rn_state n = Leader" "rn_leader n = Some ls" "index_get (nextIndex ls) (p_ID p) = i"
    "rlog.contiguous B (rn_raftLog n)" "rl_snapshotIndex (rn_raftLog n) < i" "i \<le> LastIndex B (rn_raftLog n)"
  shows "replicateToPeer B p n = (n, Some (RpcAppendEntries (round_request B n i)))"
proof -
  have "rl_ok B (rn_raftLog n)" using assms(4) by (simp add: rlog.contiguous_def)
  then have "GetRange B i (LastIndex B (rn_raftLog n)) (rn_raftLog n) =
      Inr (entries_from B (rn_raftLog n) i (LastIndex B (rn_raftLog n)))"
    using GetRange_full [OF assms(6) _ contiguous_filled [OF assms(4,5)]] by blast
  moreover have "\<not> i \<le> SnapshotIndex (rn_raftLog n)" using assms(5) by (simp add: SnapshotIndex_def)
  ultimately show ?thesis
    using assms(1-3,6) by (simp add: replicateToPeer_def round_request_def Let_def)
qed

text \<open>
  The follower's log holds the previous entry and nothing that contradicts the batch; afterwards its
  terms are those of the leader on the whole range, and entries that it lacked are the leader's.
\<close>

definition caught_up :: "'db bolt \<Rightarrow> 'db raft_log \<Rightarrow> 'db raft_log \<Rightarrow> 'db raft_log \<Rightarrow> u64 \<Rightarrow> bool" where
  "caught_up B leader old new i \<longleftrightarrow> (\<forall>j. i \<le> j \<and> j \<le> LastIndex B leader \<longrightarrow>
     (\<exists>e. log_at B leader j = Some e \<and> TermAt B new j = le_Term e \<and>
        (TermAt B old j = 0 \<longrightarrow> log_at B new j = Some (clean_entry e)))) \<and>
     (\<forall>j. j < i \<longrightarrow> log_at B new j = log_at B old j)"

lemma stores_caught_up:
  assumes "rl_ok B leader" "filled B leader i (LastIndex B leader)"
    "stores B old new (entries_from B leader i (LastIndex B leader))"
    "agrees B old (entries_from B leader i (LastIndex B leader))" "rl_snapshotIndex old < i"
  shows "caught_up B leader old new i"
  unfolding caught_up_def
proof (intro conjI allI impI)
  let ?es = "entries_from B leader i (LastIndex B leader)"
  fix j assume j: "i \<le> j \<and> j \<le> LastIndex B leader"
  then obtain e where e: "log_at B leader j = Some e" using assms(2) by (auto simp: filled_def)
  have mem: "e \<in> set ?es" and idx: "le_Index e = j"
    using entries_from_mem [OF assms(2)] j e log_at_index [OF assms(1) e] by blast+
  have st: "if TermAt B old j = 0 then log_at B new j = Some (clean_entry e) else log_at B new j = log_at B old j"
      "rl_snapshotIndex new = rl_snapshotIndex old" "rl_snapshotTerm new = rl_snapshotTerm old"
    using assms(3) mem idx unfolding stores_def by blast+
  have ag: "TermAt B old j \<in> {0, le_Term e}" using assms(4) mem idx unfolding agrees_def by blast
  have gt: "rl_snapshotIndex new < j" using assms(5) j st(2) by auto
  have "TermAt B new j = le_Term e"
  proof (cases "TermAt B old j = 0")
    case True
    then show ?thesis using st(1) TermAt_above [OF gt] by simp
  next
    case False
    then show ?thesis using st ag TermAt_cong [of B new j old] by simp
  qed
  then show "\<exists>e. log_at B leader j = Some e \<and> TermAt B new j = le_Term e \<and>
      (TermAt B old j = 0 \<longrightarrow> log_at B new j = Some (clean_entry e))" using e st(1) by auto
next
  fix j assume j: "j < i"
  have "j \<notin> le_Index ` set (entries_from B leader i (LastIndex B leader))"
    using entries_from_mem [OF assms(2)] log_at_index [OF assms(1)] j by (auto simp: leD)
  then show "log_at B new j = log_at B old j" using assms(3) by (simp add: stores_def)
qed

lemma replication_round:
  assumes L: "rlog.contiguous B (rn_raftLog n)" "rl_snapshotIndex (rn_raftLog n) < i"
      "i \<le> LastIndex B (rn_raftLog n)" "batch_ok (aer_Entries (round_request B n i))"
    and F: "node_ok B f" "\<not> rn_panicked f" "bolt_writes_ok B" "rn_currentTerm f \<le> rn_currentTerm n"
      "rl_snapshotIndex (rn_raftLog f) < i" "prev_ok B (rn_raftLog f) (round_request B n i)"
      "agrees B (rn_raftLog f) (aer_Entries (round_request B n i))"
  shows "\<exists>f' resp. HandleAppendEntries B (round_request B n i) f = (f', resp) \<and> aes_Success resp \<and>
    aes_Term resp = rn_currentTerm n \<and> aes_MatchIndex resp = LastIndex B (rn_raftLog f') \<and>
    caught_up B (rn_raftLog n) (rn_raftLog f) (rn_raftLog f') i"
proof -
  let ?rl = "rn_raftLog n" and ?req = "round_request B n i"
  have ok: "rl_ok B ?rl" using L(1) by (simp add: rlog.contiguous_def)
  note fl = contiguous_filled [OF L(1,2)]
  have es: "aer_Entries ?req = entries_from B ?rl i (LastIndex B ?rl)" "aer_PrevLogIndex ?req + 1 = i"
      "aer_Term ?req = rn_currentTerm n"
    by (simp_all add: round_request_def)
  have app: "\<exists>rl'. ae_append B (aer_PrevLogIndex ?req + 1) (aer_Entries ?req) rl = (rl', True) \<and>
      caught_up B ?rl (rn_raftLog f) rl' i" if same: "same_log B (rn_raftLog f) rl" for rl
  proof -
    have rl: "rl_ok B rl" "rl_snapshotIndex rl < i" "agrees B rl (aer_Entries ?req)"
      using same F(5,7) same_log_agrees [OF same] by (simp_all add: same_log_def)
    have rn: "runs i (aer_Entries ?req)" using GetRange_full [OF L(3) ok fl] es(1) by simp
    obtain rl' where r: "ae_append B i (aer_Entries ?req) rl = (rl', True)" "stores B rl rl' (aer_Entries ?req)"
      using ae_append_agrees [OF rl(1) F(3) rn L(4) rl(2,3)] by blast
    have "stores B (rn_raftLog f) rl' (aer_Entries ?req)" using r(2) same_log_stores [OF same] by simp
    then have "caught_up B ?rl (rn_raftLog f) rl' i"
      using stores_caught_up [OF ok fl] F(5,7) es(1) by simp
    then show ?thesis using r(1) es(2) by simp
  qed
  have "rn_currentTerm f \<le> aer_Term ?req" using F(4) es(3) by simp
  from HandleAppendEntries_accepts [OF F(1-3) this F(6) app] show ?thesis using es(3) by auto
qed

end
