(* ===== verification/State_Machine.thy ===== *)
theory State_Machine
  imports Raft_Node_Spec
begin

text \<open>
  The replicated state machine. \<open>kv_apply\<close> is its specification: a command on a finite map. Over any
  engine that honours the contract of \<open>Storage_Spec\<close>, \<open>applyCommand\<close> implements it, and
  \<open>applyCommitted\<close> runs it over exactly the entries between \<open>lastApplied\<close> and \<open>commitIndex\<close>, in
  order, answering the proposal that waits for each index.
\<close>

section \<open>Specification\<close>

type_synonym kv_map = "string \<rightharpoonup> bytes"

definition kv_apply :: "command \<Rightarrow> kv_map \<Rightarrow> kv_map \<times> go_error option" where
  "kv_apply cmd m =
     (if c_Op cmd = OpNoop then (m, None)
      else if c_Op cmd = OpPut then (m(c_Key cmd \<mapsto> c_Value cmd), None)
      else if c_Op cmd = OpDelete then (m(c_Key cmd := None), None)
      else if c_Op cmd = OpCAS then
        (if (case m (c_Key cmd) of None \<Rightarrow> [] | Some v \<Rightarrow> v) = c_PrevValue cmd
         then (m(c_Key cmd \<mapsto> c_Value cmd), None) else (m, Some CASMismatch))
      else (m, Some (UnknownOp (c_Op cmd))))"

definition kv_exec :: "log_entry list \<Rightarrow> kv_map \<Rightarrow> kv_map" where
  "kv_exec es m = fold (\<lambda>e m. fst (kv_apply (le_Command e) m)) es m"

lemma kv_exec_simps [simp]:
  "kv_exec [] m = m" "kv_exec (e # es) m = kv_exec es (fst (kv_apply (le_Command e) m))"
  by (simp_all add: kv_exec_def)

lemma op_distinct [simp]:
  "OpPut \<noteq> OpNoop" "OpDelete \<noteq> OpNoop" "OpCAS \<noteq> OpNoop" "OpDelete \<noteq> OpPut" "OpCAS \<noteq> OpPut" "OpCAS \<noteq> OpDelete"
  "OpNoop \<noteq> OpPut" "OpNoop \<noteq> OpDelete" "OpNoop \<noteq> OpCAS" "OpPut \<noteq> OpDelete" "OpPut \<noteq> OpCAS" "OpDelete \<noteq> OpCAS"
  by (simp_all add: OpPut_def OpDelete_def OpCAS_def OpNoop_def)

lemma kv_apply_no_panic: "\<not> is_panic (snd (kv_apply cmd m))"
  by (simp add: kv_apply_def)

section \<open>Commands on an engine\<close>

text \<open>The error of the write that a command makes when it makes one.\<close>

definition write_error :: "'st engine \<Rightarrow> command \<Rightarrow> 'st \<Rightarrow> go_error option" where
  "write_error E cmd s =
     (if c_Op cmd = OpDelete then snd (eng_Delete E (c_Key cmd) s)
      else if c_Op cmd \<in> {OpPut, OpCAS} then snd (eng_Put E (c_Key cmd) (c_Value cmd) s)
      else None)"

context storage_engine
begin

text \<open>Either the command takes its specified effect, or a write failed and nothing changed.\<close>

lemma apply_CAS:
  assumes "ok s" "c_Op cmd = OpCAS"
  shows "applyCommand E cmd s =
    (if (case contents s (c_Key cmd) of None \<Rightarrow> [] | Some v \<Rightarrow> v) = c_PrevValue cmd
     then eng_Put E (c_Key cmd) (c_Value cmd) s else (s, Some CASMismatch))"
  using assms(2) by (simp add: applyCommand_def get_contents [OF assms(1)] split: option.split)

lemma apply_refines:
  assumes "ok s" "applyCommand E cmd s = (s', err)"
  shows "ok s' \<and> ((contents s', err) = kv_apply cmd (contents s) \<or>
    s' = s \<and> err = write_error E cmd s \<and> err \<noteq> None)"
proof -
  have put: "ok t \<and> (e = None \<and> contents t = (contents s)(k \<mapsto> v) \<or> t = s \<and> e \<noteq> None)"
    if "eng_Put E k v s = (t, e)" for k v t e
    using put_fail [OF assms(1)] put_commit [OF assms(1)] that assms(1) by (cases e) blast+
  have del: "ok t \<and> (e = None \<and> contents t = (contents s)(k := None) \<or> t = s \<and> e \<noteq> None)"
    if "eng_Delete E k s = (t, e)" for k t e
    using delete_fail [OF assms(1)] delete_commit [OF assms(1)] that assms(1) by (cases e) blast+
  consider "c_Op cmd = OpPut" | "c_Op cmd = OpDelete" | "c_Op cmd = OpCAS"
    | "c_Op cmd = OpNoop \<or> c_Op cmd \<notin> {OpPut, OpDelete, OpCAS, OpNoop}" by blast
  then show ?thesis
  proof cases
    case 1
    then show ?thesis using put [of "c_Key cmd" "c_Value cmd" s' err] assms(2)
      by (auto simp: applyCommand_def kv_apply_def write_error_def)
  next
    case 2
    then show ?thesis using del [of "c_Key cmd" s' err] assms(2)
      by (auto simp: applyCommand_def kv_apply_def write_error_def)
  next
    case 3
    then show ?thesis using put [of "c_Key cmd" "c_Value cmd" s' err] assms
      by (auto simp: apply_CAS kv_apply_def write_error_def split: if_splits)
  next
    case 4
    then show ?thesis using assms by (auto simp: applyCommand_def kv_apply_def)
  qed
qed

end

text \<open>An engine whose writes succeed for admissible keys and values. A no-op needs no key.\<close>

definition runnable :: "(command \<Rightarrow> bool) \<Rightarrow> command \<Rightarrow> bool" where
  "runnable cmd_ok cmd \<longleftrightarrow> cmd_ok cmd \<or> c_Op cmd = OpNoop"

locale healthy_engine = storage_engine E ok contents
  for E :: "'st engine" and ok :: "'st \<Rightarrow> bool" and contents :: "'st \<Rightarrow> string \<rightharpoonup> bytes" +
  fixes cmd_ok :: "command \<Rightarrow> bool"
  assumes put_succeeds: "ok s \<Longrightarrow> cmd_ok cmd \<Longrightarrow> \<exists>s'. eng_Put E (c_Key cmd) (c_Value cmd) s = (s', None)"
    and delete_succeeds: "ok s \<Longrightarrow> cmd_ok cmd \<Longrightarrow> \<exists>s'. eng_Delete E (c_Key cmd) s = (s', None)"
    and restore_succeeds: "ok s \<Longrightarrow> snapshot_denotes d m \<Longrightarrow>
      (\<And>k v. m k = Some v \<Longrightarrow> \<exists>cmd. cmd_ok cmd \<and> c_Key cmd = k \<and> c_Value cmd = v) \<Longrightarrow>
      \<exists>s'. eng_RestoreSnapshot E d s = (s', None)"
begin

text \<open>A snapshot of one store can be restored into another, which then has the same contents.\<close>

lemma restore_exact:
  assumes "ok s" "snapshot_denotes d m" "\<And>k v. m k = Some v \<Longrightarrow> \<exists>cmd. cmd_ok cmd \<and> c_Key cmd = k \<and> c_Value cmd = v"
  obtains s' where "eng_RestoreSnapshot E d s = (s', None)" "ok s'" "contents s' = m"
  using restore_succeeds [OF assms] restore_commit [OF assms(1,2)] by blast

lemma apply_exact:
  assumes "ok s" "runnable cmd_ok cmd" "applyCommand E cmd s = (s', err)"
  shows "ok s'" "contents s' = fst (kv_apply cmd (contents s))" "err = snd (kv_apply cmd (contents s))"
proof -
  show "ok s'" using apply_refines [OF assms(1,3)] by blast
  have "contents s' = fst (kv_apply cmd (contents s)) \<and> err = snd (kv_apply cmd (contents s))"
  proof (cases "c_Op cmd = OpNoop")
    case True
    then show ?thesis using assms(3) by (simp add: applyCommand_def kv_apply_def)
  next
    case False
    then have cmd: "cmd_ok cmd" using assms(2) by (simp add: runnable_def)
    obtain p where p: "eng_Put E (c_Key cmd) (c_Value cmd) s = (p, None)" using put_succeeds [OF assms(1) cmd] ..
    obtain d where d: "eng_Delete E (c_Key cmd) s = (d, None)" using delete_succeeds [OF assms(1) cmd] ..
    note pc = put_commit [OF assms(1) p] and dc = delete_commit [OF assms(1) d]
    consider "c_Op cmd = OpPut" | "c_Op cmd = OpDelete" | "c_Op cmd = OpCAS"
      | "c_Op cmd \<notin> {OpPut, OpDelete, OpCAS, OpNoop}" using False by blast
    then show ?thesis
    proof cases
      case 3
      then show ?thesis using assms(3) p pc by (auto simp: apply_CAS [OF assms(1)] kv_apply_def split: if_splits)
    qed (use assms(3) p d pc dc in \<open>auto simp: applyCommand_def kv_apply_def\<close>)
  qed
  then show "contents s' = fst (kv_apply cmd (contents s))" "err = snd (kv_apply cmd (contents s))" by blast+
qed

end

section \<open>The apply loop\<close>

definition entries_between :: "'db bolt \<Rightarrow> 'db raft_log \<Rightarrow> nat \<Rightarrow> nat \<Rightarrow> log_entry list" where
  "entries_between B rl a b = map (\<lambda>k. the (log_at B rl (of_nat k))) [Suc a ..< Suc b]"

lemma entries_between_Cons:
  "a < b \<Longrightarrow> entries_between B rl a b = the (log_at B rl (of_nat (Suc a))) # entries_between B rl (Suc a) b"
  unfolding entries_between_def by (subst upt_conv_Cons) simp_all

lemma entries_between_Nil [simp]: "entries_between B rl a a = []"
  by (simp add: entries_between_def)

lemma entries_between_snoc:
  "a \<le> b \<Longrightarrow> entries_between B rl a (Suc b) = entries_between B rl a b @ [the (log_at B rl (of_nat (Suc b)))]"
  by (simp add: entries_between_def)

lemma kv_exec_snoc: "kv_exec (es @ [e]) m = fst (kv_apply (le_Command e) (kv_exec es m))"
  by (simp add: kv_exec_def)

lemma entries_between_cong:
  assumes "\<And>i. a < i \<Longrightarrow> i \<le> b \<Longrightarrow> log_at B rl i = log_at C rl' i"
  shows "entries_between B rl (unat a) (unat b) = entries_between C rl' (unat a) (unat b)"
  unfolding entries_between_def
proof (rule map_cong [OF refl])
  fix k assume "k \<in> set [Suc (unat a) ..< Suc (unat b)]"
  then have k: "unat a < k" "k \<le> unat b" by auto
  then have "unat (of_nat k :: u64) = k"
    using unsigned_less [of b, where ?'a = nat] by (simp add: unat_of_nat)
  then show "the (log_at B rl (of_nat k)) = the (log_at C rl' (of_nat k))"
    using assms [of "of_nat k"] k by (simp add: word_less_nat_alt word_le_nat_alt)
qed

text \<open>Channels of pending proposals: no two indices share one.\<close>

definition pending_ok :: "('db, 'st) raft_node \<Rightarrow> bool" where
  "pending_ok n \<longleftrightarrow> (\<forall>i j c. rn_pending n i = Some c \<longrightarrow> rn_pending n j = Some c \<longrightarrow> i = j) \<and>
     (\<forall>i c. rn_pending n i = Some c \<longrightarrow> c < rn_nextChan n)"

lemma pending_ok_apply: "pending_ok n \<Longrightarrow> pending_ok (apply_entry E e n)"
  by (simp add: pending_ok_def apply_entry_def Let_def split: prod.split option.split)

lemma pending_ok_propose:
  assumes "pending_ok n" "propose_append B cmd n = (n', r)"
  shows "pending_ok n'"
proof -
  have fresh: "rn_pending n i \<noteq> Some (rn_nextChan n)" for i
    using assms(1) less_irrefl unfolding pending_ok_def by blast
  have "pending_ok (n\<lparr>rn_raftLog := rl\<rparr>)" for rl using assms(1) by (simp add: pending_ok_def)
  moreover have "pending_ok (n\<lparr>rn_raftLog := rl, rn_pending := (rn_pending n)(i \<mapsto> rn_nextChan n),
      rn_nextChan := Suc (rn_nextChan n)\<rparr>)" for rl i
    using assms(1) fresh by (auto simp: pending_ok_def less_Suc_eq)
  ultimately show ?thesis
    using assms by (auto simp: propose_append_def Let_def split: if_splits prod.splits option.splits)
qed

definition range_ready ::
  "'db bolt \<Rightarrow> (command \<Rightarrow> bool) \<Rightarrow> ('db, 'st) raft_node \<Rightarrow> bool" where
  "range_ready B cmd_ok n \<longleftrightarrow> (\<forall>i. rn_lastApplied n < i \<and> i \<le> rn_commitIndex n \<longrightarrow>
     (\<exists>e. log_at B (rn_raftLog n) i = Some e \<and> runnable cmd_ok (le_Command e)))"

text \<open>One turn of the loop.\<close>

lemma applyCommitted_turn:
  assumes "rl_ok B (rn_raftLog n)" "rn_lastApplied n < rn_commitIndex n"
    "log_at B (rn_raftLog n) (rn_lastApplied n + 1) = Some e"
    "\<not> rn_panicked (apply_entry E e (n\<lparr>rn_lastApplied := rn_lastApplied n + 1\<rparr>))"
  shows "applyCommitted B E n = applyCommitted B E (apply_entry E e (n\<lparr>rn_lastApplied := rn_lastApplied n + 1\<rparr>))"
  using assms by (subst applyCommitted.simps) (simp add: Let_def Get_log_at)

lemma apply_entry_effects:
  assumes "applyCommand E (le_Command e) (rn_storage n) = (st, err)" "\<not> is_panic err"
  shows "rn_storage (apply_entry E e n) = st" "rn_panicked (apply_entry E e n) = rn_panicked n"
    "rn_pending (apply_entry E e n) i = (if i = rn_lastApplied n then None else rn_pending n i)"
    "rn_done (apply_entry E e n) c =
       (if rn_pending n (rn_lastApplied n) = Some c then Some err else rn_done n c)"
    "rn_nextChan (apply_entry E e n) = rn_nextChan n"
  using assms by (auto simp: apply_entry_def Let_def split: option.splits)

definition apply_result ::
  "'db bolt \<Rightarrow> ('st \<Rightarrow> bool) \<Rightarrow> ('st \<Rightarrow> kv_map) \<Rightarrow> ('db, 'st) raft_node \<Rightarrow> ('db, 'st) raft_node \<Rightarrow> bool" where
  "apply_result B ok contents n n' \<longleftrightarrow>
     rn_lastApplied n' = rn_commitIndex n \<and> ok (rn_storage n') \<and> \<not> rn_panicked n' \<and>
     contents (rn_storage n') = kv_exec (entries_between B (rn_raftLog n) (unat (rn_lastApplied n))
       (unat (rn_commitIndex n))) (contents (rn_storage n)) \<and>
     (\<forall>i c. rn_lastApplied n < i \<and> i \<le> rn_commitIndex n \<and> rn_pending n i = Some c \<longrightarrow>
        rn_done n' c = Some (snd (kv_apply (le_Command (the (log_at B (rn_raftLog n) i)))
          (kv_exec (entries_between B (rn_raftLog n) (unat (rn_lastApplied n)) (unat i - 1))
             (contents (rn_storage n)))))) \<and>
     (\<forall>c. (\<forall>i. rn_lastApplied n < i \<and> i \<le> rn_commitIndex n \<longrightarrow> rn_pending n i \<noteq> Some c) \<longrightarrow>
        rn_done n' c = rn_done n c)"

text \<open>
  What the loop has done after its first turn and what it does in the others make up what it does
  in all: the first entry, then the others on the contents that it left; its proposer is told the
  outcome, and no later turn overwrites it.
\<close>

lemma apply_result_step:
  assumes "rn_lastApplied n < rn_commitIndex n" "log_at B (rn_raftLog n) (rn_lastApplied n + 1) = Some e" "pending_ok n"
    "rn_lastApplied n2 = rn_lastApplied n + 1" "rn_commitIndex n2 = rn_commitIndex n" "rn_raftLog n2 = rn_raftLog n"
    "contents (rn_storage n2) = fst (kv_apply (le_Command e) (contents (rn_storage n)))"
    "\<And>i. rn_pending n2 i = (if i = rn_lastApplied n + 1 then None else rn_pending n i)"
    "\<And>c. rn_done n2 c = (if rn_pending n (rn_lastApplied n + 1) = Some c
       then Some (snd (kv_apply (le_Command e) (contents (rn_storage n)))) else rn_done n c)"
    "apply_result B ok contents n2 n'"
  shows "apply_result B ok contents n n'"
proof -
  let ?la = "rn_lastApplied n" and ?ci = "rn_commitIndex n" and ?rl = "rn_raftLog n" and ?m = "contents (rn_storage n)"
  note inc = unat_inc [OF less_not_max [OF assms(1)]]
  note r = assms(10) [unfolded apply_result_def assms(4-7) inc]
  have la1: "?la < ?la + 1" "?la + 1 \<le> ?ci"
    using inc assms(1) by (simp_all add: word_less_nat_alt word_le_nat_alt)
  have "of_nat (Suc (unat ?la)) = ?la + 1" by (simp flip: inc)
  then have split: "entries_between B ?rl (unat ?la) b = e # entries_between B ?rl (Suc (unat ?la)) b"
    if "unat ?la < b" for b
    using entries_between_Cons [OF that, of B ?rl] assms(2) by (simp add: add.commute)
  have told: "rn_done n' c = Some (snd (kv_apply (le_Command (the (log_at B ?rl i)))
      (kv_exec (entries_between B ?rl (unat ?la) (unat i - 1)) ?m)))"
    if i: "?la < i" "i \<le> ?ci" "rn_pending n i = Some c" for i c
  proof (cases "i = ?la + 1")
    case True
    have "rn_pending n2 j \<noteq> Some c" for j
      using assms(8) [of j] assms(3) i(3) True unfolding pending_ok_def by (metis option.distinct(1))
    then have "rn_done n' c = rn_done n2 c" using r by blast
    then show ?thesis using assms(2,9) i True inc by simp
  next
    case False
    then have gt: "?la + 1 < i" "unat ?la < unat i - 1"
      using i(1) inc by (simp_all add: word_less_nat_alt word_unat_eq_iff)
    have "rn_pending n2 i = Some c" using assms(8) False i by simp
    then show ?thesis using r gt(1) i(2) split [OF gt(2)] by simp
  qed
  have quiet: "rn_done n' c = rn_done n c" if none: "\<forall>i. ?la < i \<and> i \<le> ?ci \<longrightarrow> rn_pending n i \<noteq> Some c" for c
  proof -
    have "rn_pending n2 j \<noteq> Some c" if "?la + 1 < j" "j \<le> ?ci" for j
      using none less_trans [OF la1(1) that(1)] that(2) assms(8) [of j] by (simp split: if_splits)
    then have "rn_done n' c = rn_done n2 c" using r by blast
    then show ?thesis using assms(9) none la1 by simp
  qed
  show ?thesis
    unfolding apply_result_def using r told quiet split [of "unat ?ci"] assms(1) by (simp add: word_less_nat_alt)
qed

context healthy_engine
begin

lemma applyCommitted_exact:
  assumes "rl_ok B (rn_raftLog n)" "ok (rn_storage n)" "\<not> rn_panicked n" "pending_ok n"
    "rn_lastApplied n \<le> rn_commitIndex n" "range_ready B cmd_ok n"
  shows "apply_result B ok contents n (applyCommitted B E n)"
  using assms
proof (induction "unat (rn_commitIndex n) - unat (rn_lastApplied n)" arbitrary: n)
  case 0
  then have eq: "rn_lastApplied n = rn_commitIndex n"
    by (simp add: word_le_nat_alt word_unat_eq_iff)
  then have id: "applyCommitted B E n = n" by (subst applyCommitted.simps) simp
  show ?case unfolding apply_result_def id eq using 0(3,4) leD by simp blast
next
  case (Suc k)
  let ?la = "rn_lastApplied n" and ?ci = "rn_commitIndex n" and ?rl = "rn_raftLog n"
  have less: "?la < ?ci" using Suc.hyps(2) by (simp add: word_less_nat_alt)
  note inc = unat_inc [OF less_not_max [OF less]]
  have la1: "?la < ?la + 1" "?la + 1 \<le> ?ci"
    using inc less by (simp_all add: word_less_nat_alt word_le_nat_alt)
  then obtain e where e: "log_at B ?rl (?la + 1) = Some e" "runnable cmd_ok (le_Command e)"
    using Suc.prems(6) unfolding range_ready_def by blast
  let ?n1 = "n\<lparr>rn_lastApplied := ?la + 1\<rparr>"
  obtain st err where a: "applyCommand E (le_Command e) (rn_storage ?n1) = (st, err)" by fastforce
  have "ok (rn_storage ?n1)" using Suc.prems(2) by simp
  note ex = apply_exact [OF this e(2) a]
  have np: "\<not> is_panic err" using ex(3) kv_apply_no_panic by simp
  define n2 where "n2 = apply_entry E e ?n1"
  note fx = apply_entry_effects [OF a np, folded n2_def]
  have f2: "rn_lastApplied n2 = ?la + 1" "rn_commitIndex n2 = ?ci" "rn_raftLog n2 = ?rl"
    by (simp_all add: n2_def)
  have "pending_ok ?n1" using Suc.prems(4) by (simp add: pending_ok_def)
  then have pend: "pending_ok n2" unfolding n2_def by (rule pending_ok_apply)
  have ready: "range_ready B cmd_ok n2"
    using Suc.prems(6) f2 la1 unfolding range_ready_def by (metis less_trans)
  have "apply_result B ok contents n2 (applyCommitted B E n2)"
    by (rule Suc.hyps(1)) (use Suc.hyps(2) Suc.prems f2 fx ex(1) inc la1 pend ready in simp_all)
  then have "apply_result B ok contents n (applyCommitted B E n2)"
    by (rule apply_result_step [OF less e(1) Suc.prems(4) f2, rotated 3]) (use fx ex in simp_all)
  also have "applyCommitted B E n2 = applyCommitted B E n"
    using applyCommitted_turn [OF Suc.prems(1) less e(1), of E] fx(2) Suc.prems(3) by (simp add: n2_def)
  finally show ?case .
qed

end

section \<open>The two engines\<close>

interpretation memh: healthy_engine memory_ops mem_ok mem_contents "\<lambda>_. True"
  by unfold_locales (auto simp: memory_ops_def mem_Put_def mem_Delete_def mem_RestoreSnapshot_def
      snapshot_denotes_def mem_ok_def)

definition disk_ok :: "'db bolt \<Rightarrow> 'db \<Rightarrow> bool" where
  "disk_ok B db \<longleftrightarrow> bolt_ok B db \<and> bolt_writes_ok B"

definition disk_cmd :: "command \<Rightarrow> bool" where
  "disk_cmd cmd \<longleftrightarrow> c_Key cmd \<noteq> [] \<and> length (c_Key cmd) \<le> max_key_size \<and> length (c_Value cmd) \<le> max_value_size"

interpretation diskh: healthy_engine "bolt_ops B" "disk_ok B" "bolt_contents B" disk_cmd
  for B :: "'db bolt"
proof (rule healthy_engine.intro)
  show "storage_engine (bolt_ops B) (disk_ok B) (bolt_contents B)"
    by (rule storage_engine.intro; unfold disk_ok_def;
        blast dest: blt.put_fail blt.put_commit blt.delete_fail blt.delete_commit blt.restore_fail
          blt.restore_commit intro: blt.get_contents blt.scan_contents blt.snapshot_contents)
  show "healthy_engine_axioms (bolt_ops B) (disk_ok B) disk_cmd"
  proof
    fix s cmd assume s: "disk_ok B s" "disk_cmd cmd"
    then have h: "bolt_writes_ok B" "tx_HasBucket B s kvBucket" by (simp_all add: disk_ok_def bolt_ok_def)
    obtain t where "bk_Put B s kvBucket (c_Key cmd) (c_Value cmd) = Inr t"
      using put_ok [OF h] s(2) unfolding disk_cmd_def by blast
    then show "\<exists>s'. eng_Put (bolt_ops B) (c_Key cmd) (c_Value cmd) s = (s', None)"
      using db_Update_ok [OF h(1)] by (auto simp: bolt_ops_def bolt_Put_def)
    obtain t where "bk_Delete B s kvBucket (c_Key cmd) = Inr t" using delete_ok [OF h] by blast
    then show "\<exists>s'. eng_Delete (bolt_ops B) (c_Key cmd) s = (s', None)"
      using db_Update_ok [OF h(1)] by (auto simp: bolt_ops_def bolt_Delete_def)
  next
    fix s d m
    assume s: "disk_ok B s" "snapshot_denotes d m"
      and m: "\<And>k v. m k = Some v \<Longrightarrow> \<exists>cmd. disk_cmd cmd \<and> c_Key cmd = k \<and> c_Value cmd = v"
    have "k \<noteq> [] \<and> length k \<le> max_key_size \<and> length v \<le> max_value_size" if "m k = Some v" for k v
      using m [OF that] by (auto simp: disk_cmd_def)
    then show "\<exists>s'. eng_RestoreSnapshot (bolt_ops B) d s = (s', None)"
      using bolt_Restore_ok [of B s d m] s by (simp add: disk_ok_def bolt_ops_def)
  qed
qed

end
