(* ===== verification/Transaction.thy ===== *)
theory Transaction
  imports State_Machine Cluster
begin

text \<open>
  The blocking \<open>Propose\<close> call as its callers see it, and \<open>internal/transaction\<close>: \<open>txn.go\<close> (a batch of
  commands) and \<open>manager.go\<close> (\<open>Commit\<close>, one proposal per command).

  What happens between the append and the moment the \<open>select\<close> of \<open>Propose\<close> fires is up to the other
  goroutines and nodes; it is the argument \<open>wait\<close>, and \<open>admissible\<close> says that it consists of steps
  of the node, votes and elections included, followed by one of the three cases of the \<open>select\<close>.
\<close>

section \<open>The blocking call\<close>

type_synonym ('db, 'st) wait = "u64 \<times> nat \<Rightarrow> ('db, 'st) raft_node \<Rightarrow> ('db, 'st) raft_node \<times> go_error option"

definition propose_call ::
  "'db bolt \<Rightarrow> ('db, 'st) wait \<Rightarrow> command \<Rightarrow> ('db, 'st) raft_node \<Rightarrow>
   ('db, 'st) raft_node \<times> go_error option" where
  "propose_call B wait cmd n =
     (case Propose B cmd n of
        (n1, Inl e) \<Rightarrow> (n1, Some e)
      | (n1, Inr w) \<Rightarrow> wait w n1)"

definition admissible :: "'db bolt \<Rightarrow> 'st engine \<Rightarrow> ('db, 'st) wait \<Rightarrow> bool" where
  "admissible B E wait \<longleftrightarrow> (\<forall>w n. \<exists>wk n2. (live_step B E)\<^sup>*\<^sup>* n n2 \<and>
     Propose_wait wk w n2 = (fst (wait w n), Some (snd (wait w n))))"

lemma propose_not_leader:
  "rn_state n \<noteq> Leader \<Longrightarrow> propose_call B wait cmd n = (n, Some (NotLeaderError (rn_leaderID n)))"
  by (simp add: propose_call_def Propose_def propose_append_def)

lemma propose_call_advances:
  assumes "bolt_writes_ok B" "admissible B E wait" "propose_call B wait cmd n = (n', r)"
  shows "advances B n n'"
proof -
  obtain n1 q where a: "propose_append B cmd n = (n1, q)" by fastforce
  note s1 = propose_append_steady [OF a]
  show ?thesis
  proof (cases q)
    case (Inl e)
    with a assms(3) s1 show ?thesis by (simp add: propose_call_def Propose_def steady_advances)
  next
    case (Inr w)
    let ?m = "broadcastAppendEntries n1"
    have s2: "advances B n ?m" by (rule steady_advances) (rule steady_trans [OF s1 broadcast_steady])
    have n': "wait w ?m = (n', r)" using Inr a assms(3) by (simp add: propose_call_def Propose_def)
    obtain wk n2 where st: "(live_step B E)\<^sup>*\<^sup>* ?m n2" "Propose_wait wk w n2 = (fst (wait w ?m), Some (snd (wait w ?m)))"
      using assms(2) unfolding admissible_def by blast
    have "advances B n n2" using s2 live_steps_advances [OF st(1) assms(1)] by (rule advances_trans)
    moreover have "advances B n2 n'" using steady_advances [OF Propose_wait_steady [OF st(2)]] n' by simp
    ultimately show ?thesis by (rule advances_trans)
  qed
qed

section \<open>Transactions\<close>

record txn =
  txn_ops :: "command list"

definition NewTxn :: txn where
  "NewTxn = \<lparr>txn_ops = []\<rparr>"

definition txn_Put :: "string \<Rightarrow> bytes \<Rightarrow> txn \<Rightarrow> txn" where
  "txn_Put key value t =
     t\<lparr>txn_ops := txn_ops t @ [zero_command\<lparr>c_Op := OpPut, c_Key := key, c_Value := value\<rparr>]\<rparr>"

definition txn_Delete :: "string \<Rightarrow> txn \<Rightarrow> txn" where
  "txn_Delete key t = t\<lparr>txn_ops := txn_ops t @ [zero_command\<lparr>c_Op := OpDelete, c_Key := key\<rparr>]\<rparr>"

definition txn_CAS :: "string \<Rightarrow> bytes \<Rightarrow> bytes \<Rightarrow> txn \<Rightarrow> txn" where
  "txn_CAS key prevValue newValue t =
     t\<lparr>txn_ops := txn_ops t @
       [zero_command\<lparr>c_Op := OpCAS, c_Key := key, c_Value := newValue, c_PrevValue := prevValue\<rparr>]\<rparr>"

definition txn_Ops :: "txn \<Rightarrow> command list" where
  "txn_Ops t = txn_ops t"

definition txn_Len :: "txn \<Rightarrow> nat" where
  "txn_Len t = length (txn_ops t)"

section \<open>Commit\<close>

text \<open>
  A loop over commands that stops at the first error and labels it with the position; \<open>Commit\<close> and the
  transaction endpoint of the API share its shape. The world \<open>'s\<close> is whatever \<open>propose\<close> changes.
\<close>

fun propose_all ::
  "(nat \<Rightarrow> command \<Rightarrow> string) \<Rightarrow> (command \<Rightarrow> 's \<Rightarrow> 's \<times> go_error option) \<Rightarrow> nat \<Rightarrow> command list \<Rightarrow> 's \<Rightarrow>
   's \<times> go_error option" where
  "propose_all lbl propose i [] s = (s, None)"
| "propose_all lbl propose i (op # ops) s =
     (case propose op s of
        (s', Some e) \<Rightarrow> (s', Some (Wrapped (lbl i op) e))
      | (s', None) \<Rightarrow> propose_all lbl propose (Suc i) ops s')"

text \<open>\<open>quote\<close> is the formatting verb \<open>%q\<close>.\<close>

definition commit_label :: "(string \<Rightarrow> string) \<Rightarrow> nat \<Rightarrow> command \<Rightarrow> string" where
  "commit_label quote i cmd =
     ''txn op['' @ show_nat i @ ''] ('' @ c_Op cmd @ '' '' @ quote (c_Key cmd) @ '')''"

definition Commit ::
  "(string \<Rightarrow> string) \<Rightarrow> (command \<Rightarrow> 's \<Rightarrow> 's \<times> go_error option) \<Rightarrow> txn \<Rightarrow> 's \<Rightarrow> 's \<times> go_error option" where
  "Commit quote propose t s =
     (if txn_Len t = 0 then (s, None)
      else propose_all (commit_label quote) propose 0 (txn_Ops t) s)"

section \<open>What a commit does\<close>

text \<open>The state after commands all of which succeed.\<close>

fun all_succeed :: "(command \<Rightarrow> 's \<Rightarrow> 's \<times> go_error option) \<Rightarrow> command list \<Rightarrow> 's \<Rightarrow> 's option" where
  "all_succeed propose [] s = Some s"
| "all_succeed propose (op # ops) s =
     (case propose op s of (s', None) \<Rightarrow> all_succeed propose ops s' | (_, Some _) \<Rightarrow> None)"

lemma Commit_eq: "Commit quote propose t = propose_all (commit_label quote) propose 0 (txn_ops t)"
  by (auto simp: Commit_def txn_Len_def txn_Ops_def fun_eq_iff)

text \<open>
  The log that a transaction leaves on a leader, when the node stays in office and nobody else proposes
  meanwhile.
\<close>

definition quiet :: "('db, 'st) wait \<Rightarrow> bool" where
  "quiet wait \<longleftrightarrow> (\<forall>w n. rn_raftLog (fst (wait w n)) = rn_raftLog n \<and> rn_state (fst (wait w n)) = rn_state n \<and>
     rn_currentTerm (fst (wait w n)) = rn_currentTerm n)"

lemma propose_call_logs:
  assumes "rl_ok B (rn_raftLog n)" "bolt_writes_ok B" "rn_state n = Leader" "quiet wait"
    and "entry_fits \<lparr>le_Index = LastIndex B (rn_raftLog n) + 1, le_Term = rn_currentTerm n, le_Command = cmd\<rparr>"
    and "propose_call B wait cmd n = (n', r)"
  shows "Append B \<lparr>le_Index = LastIndex B (rn_raftLog n) + 1, le_Term = rn_currentTerm n, le_Command = cmd\<rparr>
      (rn_raftLog n) = (rn_raftLog n', None)" "rn_state n' = Leader" "rn_currentTerm n' = rn_currentTerm n"
proof -
  obtain rl1 where a: "Append B \<lparr>le_Index = LastIndex B (rn_raftLog n) + 1, le_Term = rn_currentTerm n, le_Command = cmd\<rparr>
      (rn_raftLog n) = (rl1, None)" using Append_ok [OF assms(1,2,5)] .
  let ?m = "broadcastAppendEntries (n\<lparr>rn_raftLog := rl1,
    rn_pending := (rn_pending n)(LastIndex B (rn_raftLog n) + 1 \<mapsto> rn_nextChan n),
    rn_nextChan := rn_nextChan n + 1\<rparr>)"
  have w: "wait (LastIndex B (rn_raftLog n) + 1, rn_nextChan n) ?m = (n', r)"
    using assms(3,6) a
    by (simp add: propose_call_def Propose_def propose_append_def broadcastAppendEntries_def Let_def)
  have m: "rn_raftLog ?m = rl1" "rn_state ?m = Leader" "rn_currentTerm ?m = rn_currentTerm n"
    using assms(3) by (simp_all add: broadcastAppendEntries_def)
  have "rn_raftLog n' = rn_raftLog ?m" "rn_state n' = rn_state ?m" "rn_currentTerm n' = rn_currentTerm ?m"
    using assms(4) w unfolding quiet_def by (metis fst_conv)+
  with a m show "Append B \<lparr>le_Index = LastIndex B (rn_raftLog n) + 1, le_Term = rn_currentTerm n, le_Command = cmd\<rparr>
      (rn_raftLog n) = (rn_raftLog n', None)" "rn_state n' = Leader" "rn_currentTerm n' = rn_currentTerm n" by simp_all
qed

text \<open>\<open>logged\<close>: the log \<open>rl'\<close> is \<open>rl\<close> with the first \<open>k\<close> commands behind its last index.\<close>

definition logged :: "'db bolt \<Rightarrow> u64 \<Rightarrow> 'db raft_log \<Rightarrow> command list \<Rightarrow> nat \<Rightarrow> 'db raft_log \<Rightarrow> bool" where
  "logged B t rl ops k rl' \<longleftrightarrow> LastIndex B rl' = LastIndex B rl + of_nat k \<and>
     (\<forall>j<k. log_at B rl' (LastIndex B rl + of_nat (Suc j)) =
        Some (clean_entry \<lparr>le_Index = LastIndex B rl + of_nat (Suc j), le_Term = t, le_Command = ops ! j\<rparr>)) \<and>
     (\<forall>x. (\<forall>j<k. x \<noteq> LastIndex B rl + of_nat (Suc j)) \<longrightarrow> log_at B rl' x = log_at B rl x)"

lemma not_last_index: "unat (i :: u64) + Suc k < 2 ^ 64 \<Longrightarrow> i \<noteq> - 1"
  by (auto simp: unsigned_minus_1_eq_mask mask_eq_exp_minus_1)

lemma logged_Cons:
  assumes "rl_ok B rl" "unat (LastIndex B rl) + Suc k < 2 ^ 64"
    and "Append B \<lparr>le_Index = LastIndex B rl + 1, le_Term = t, le_Command = op\<rparr> rl = (rl1, None)"
    and "logged B t rl1 ops k rl'"
  shows "logged B t rl (op # ops) (Suc k) rl'"
proof -
  let ?l = "LastIndex B rl"
  have max: "?l \<noteq> - 1" using assms(2) by (rule not_last_index)
  have up: "i \<le> ?l + 1" if "log_at B rl i \<noteq> None" for i
    using that LastIndex_greatest(1) [OF assms(1)] word_le_inc_iff [OF max, of i] by blast
  have last: "LastIndex B rl1 = ?l + 1" using rlog.last_index_append [OF assms(1,3)] up by simp
  have log1: "log_at B rl1 i = (if i = ?l + 1
      then Some (clean_entry \<lparr>le_Index = ?l + 1, le_Term = t, le_Command = op\<rparr>) else log_at B rl i)" for i
    using Append_commit(2) [OF assms(1,3)] by simp
  have ne: "?l + 1 \<noteq> ?l + 1 + of_nat (Suc j)" if "j < k" for j
  proof -
    have "unat (of_nat (Suc j) :: u64) = Suc j" using that assms(2) by (simp add: unat_of_nat del: of_nat_Suc)
    then show ?thesis by (metis add_cancel_right_right nat.distinct(1) unat_0)
  qed
  have idx: "?l + 1 + of_nat (Suc j) = ?l + of_nat (Suc (Suc j))" for j by (simp add: algebra_simps)
  note L = assms(4) [unfolded logged_def last]
  have "log_at B rl' (?l + of_nat (Suc j)) =
      Some (clean_entry \<lparr>le_Index = ?l + of_nat (Suc j), le_Term = t, le_Command = (op # ops) ! j\<rparr>)" if "j < Suc k" for j
  proof (cases j)
    case 0
    then show ?thesis using L ne log1 by simp
  next
    case (Suc i)
    then show ?thesis using L that idx [of i] by (metis Suc_less_eq nth_Cons_Suc)
  qed
  moreover have "log_at B rl' x = log_at B rl x" if x: "\<forall>j<Suc k. x \<noteq> ?l + of_nat (Suc j)" for x
  proof -
    have "x \<noteq> ?l + 1" using x by (metis of_nat_1 One_nat_def zero_less_Suc)
    moreover have "\<forall>j<k. x \<noteq> ?l + 1 + of_nat (Suc j)" using x idx by (metis Suc_less_eq)
    ultimately show ?thesis using L log1 by simp
  qed
  ultimately show ?thesis using L by (simp add: logged_def algebra_simps)
qed

lemma propose_all_logs:
  assumes "rl_ok B (rn_raftLog n)" "bolt_writes_ok B" "rn_state n = Leader" "quiet wait"
    and "\<And>i op. op \<in> set ops \<Longrightarrow> entry_fits \<lparr>le_Index = i, le_Term = rn_currentTerm n, le_Command = op\<rparr>"
    and "unat (LastIndex B (rn_raftLog n)) + length ops < 2 ^ 64"
    and "propose_all lbl (propose_call B wait) i ops n = (n', r)"
  shows "\<exists>k\<le>length ops. logged B (rn_currentTerm n) (rn_raftLog n) ops k (rn_raftLog n') \<and>
    (case r of None \<Rightarrow> k = length ops \<and> all_succeed (propose_call B wait) ops n = Some n'
     | Some err \<Rightarrow> \<exists>j u e. k = Suc j \<and> all_succeed (propose_call B wait) (take j ops) n = Some u \<and>
         propose_call B wait (ops ! j) u = (n', Some e) \<and> err = Wrapped (lbl (i + j) (ops ! j)) e)"
  using assms
proof (induction ops arbitrary: n i)
  case Nil
  then show ?case by (auto simp: logged_def)
next
  case (Cons op ops)
  let ?rl = "rn_raftLog n" and ?t = "rn_currentTerm n"
  obtain n1 q where p: "propose_call B wait op n = (n1, q)" by fastforce
  have fits: "entry_fits \<lparr>le_Index = LastIndex B ?rl + 1, le_Term = ?t, le_Command = op\<rparr>" using Cons.prems(5) by simp
  note c = propose_call_logs [OF Cons.prems(1-4) fits p]
  note ok1 = Append_commit(1) [OF Cons.prems(1) c(1)]
  show ?case
  proof (cases q)
    case (Some e)
    have "logged B ?t (rn_raftLog n1) ops 0 (rn_raftLog n1)" by (simp add: logged_def)
    from logged_Cons [OF Cons.prems(1) _ c(1) this]
    have "logged B ?t ?rl (op # ops) (Suc 0) (rn_raftLog n1)" using Cons.prems(6) by simp
    then show ?thesis using Cons.prems(7) p Some by (intro exI [of _ "Suc 0"]) auto
  next
    case None
    have "LastIndex B ?rl \<noteq> - 1" by (rule not_last_index [of _ "length ops"]) (use Cons.prems(6) in simp)
    moreover have "x \<le> LastIndex B ?rl + 1" if "log_at B ?rl x \<noteq> None" for x
      using that LastIndex_greatest(1) [OF Cons.prems(1)] word_le_inc_iff [OF calculation, of x] by blast
    ultimately have len: "unat (LastIndex B (rn_raftLog n1)) + length ops < 2 ^ 64"
      using rlog.last_index_append [OF Cons.prems(1) c(1)] Cons.prems(6) by (simp add: unat_inc)
    have "propose_all lbl (propose_call B wait) (Suc i) ops n1 = (n', r)" using Cons.prems(7) p None by simp
    moreover have "entry_fits \<lparr>le_Index = x, le_Term = rn_currentTerm n1, le_Command = d\<rparr>" if "d \<in> set ops" for x d
      using Cons.prems(5) that c(3) by simp
    ultimately obtain k where k: "k \<le> length ops" "logged B ?t (rn_raftLog n1) ops k (rn_raftLog n')"
        "case r of None \<Rightarrow> k = length ops \<and> all_succeed (propose_call B wait) ops n1 = Some n'
         | Some err \<Rightarrow> \<exists>j u e. k = Suc j \<and> all_succeed (propose_call B wait) (take j ops) n1 = Some u \<and>
             propose_call B wait (ops ! j) u = (n', Some e) \<and> err = Wrapped (lbl (Suc i + j) (ops ! j)) e"
      using Cons.IH [OF ok1 Cons.prems(2) c(2) Cons.prems(4) _ len, of "Suc i"] c(3) by auto
    have "logged B ?t ?rl (op # ops) (Suc k) (rn_raftLog n')"
      by (rule logged_Cons [OF Cons.prems(1) _ c(1) k(2)]) (use Cons.prems(6) k(1) in simp)
    then show ?thesis using k(1,3) p None by (intro exI [of _ "Suc k"]) (auto split: option.splits)
  qed
qed

end
