(* ===== verification/Membership.thy ===== *)
theory Membership
  imports Types Config
begin

text \<open>
  \<open>internal/cluster/member.go\<close>, \<open>heartbeat.go\<close> and \<open>discovery.go\<close>: the health record of each peer,
  the tracker that inspects the records, and the HTTP transport that feeds them. Times are
  nanoseconds; the current time is an argument. What the HTTP client returns for a request is an
  argument too: the network and \<open>net/http\<close> are outside the repository.

  The lemmas characterise the health of a peer by the number of failures since the last success,
  and give the effect of an RPC on every path.
\<close>

section \<open>Members\<close>

datatype peer_state = PeerAlive | PeerUnreachable | PeerDead

record member =
  m_Peer :: peer
  m_state :: peer_state
  m_lastSeen :: int
  m_missedRPCs :: int

definition NewMember :: "int \<Rightarrow> peer \<Rightarrow> member" where
  "NewMember now p = \<lparr>m_Peer = p, m_state = PeerAlive, m_lastSeen = now, m_missedRPCs = 0\<rparr>"

definition RecordSuccess :: "int \<Rightarrow> member \<Rightarrow> member" where
  "RecordSuccess now m = m\<lparr>m_state := PeerAlive, m_lastSeen := now, m_missedRPCs := 0\<rparr>"

definition RecordFailure :: "member \<Rightarrow> member" where
  "RecordFailure m =
     (let missed = int64 (m_missedRPCs m + 1) in
      m\<lparr>m_missedRPCs := missed,
        m_state := (if 5 \<le> missed then PeerDead
                    else if 2 \<le> missed then PeerUnreachable
                    else m_state m)\<rparr>)"

definition IsAlive :: "member \<Rightarrow> bool" where
  "IsAlive m \<longleftrightarrow> m_state m = PeerAlive"

definition State :: "member \<Rightarrow> peer_state" where
  "State m = m_state m"

definition LastSeen :: "member \<Rightarrow> int" where
  "LastSeen m = m_lastSeen m"

section \<open>Transport\<close>

record transport =
  tr_members :: "(string \<times> member) list"

definition NewHTTPTransport :: "int \<Rightarrow> peer list \<Rightarrow> transport" where
  "NewHTTPTransport now peers =
     \<lparr>tr_members = foldl (\<lambda>ms p. AList.update (p_ID p) (NewMember now p) ms) [] peers\<rparr>"

text \<open>\<open>Members\<close> returns the pointers, in the (unspecified) order of the Go map.\<close>

definition Members :: "transport \<Rightarrow> string list" where
  "Members t = map fst (tr_members t)"

definition recordSuccess :: "int \<Rightarrow> string \<Rightarrow> transport \<Rightarrow> transport" where
  "recordSuccess now k t =
     (case map_of (tr_members t) k of
        None \<Rightarrow> t
      | Some m \<Rightarrow> t\<lparr>tr_members := AList.update k (RecordSuccess now m) (tr_members t)\<rparr>)"

definition recordFailure :: "string \<Rightarrow> transport \<Rightarrow> transport" where
  "recordFailure k t =
     (case map_of (tr_members t) k of
        None \<Rightarrow> t
      | Some m \<Rightarrow> t\<lparr>tr_members := AList.update k (RecordFailure m) (tr_members t)\<rparr>)"

text \<open>
  \<open>newRequest\<close> tells whether \<open>http.NewRequestWithContext\<close> rejects the URL; \<open>do_post\<close> is the answer of
  the HTTP client to a POST, a transport error or a status code and a body.
\<close>

record http_client =
  hc_newRequest :: "string \<Rightarrow> go_error option"
  hc_do :: "string \<Rightarrow> bytes \<Rightarrow> (nat \<times> bytes) go"

definition rpc_url :: "peer \<Rightarrow> string \<Rightarrow> string" where
  "rpc_url p path = ''http://'' @ p_Addr p @ path"

definition rpc_context :: "string \<Rightarrow> peer \<Rightarrow> string" where
  "rpc_context path p = ''rpc '' @ path @ '' to '' @ p_ID p"

definition rpc ::
  "http_client \<Rightarrow> int \<Rightarrow> peer \<Rightarrow> string \<Rightarrow> json \<Rightarrow> 'r decoder \<Rightarrow> 'r \<Rightarrow> transport \<Rightarrow> transport \<times> 'r go" where
  "rpc H now p path body dec zero t =
     (let url = rpc_url p path;
          data = print_json body in
      case hc_newRequest H url of
        Some e \<Rightarrow> (t, Inl e)
      | None \<Rightarrow>
          (case hc_do H url data of
             Inl e \<Rightarrow> (recordFailure (p_ID p) t, Inl (Wrapped (rpc_context path p) e))
           | Inr (status, reply) \<Rightarrow>
               (if status \<noteq> 200
                then (recordFailure (p_ID p) t,
                      Inl (ErrMsg (rpc_context path p @ '': status '' @ show_nat status)))
                else (case decode dec zero reply of
                        Inl e \<Rightarrow> (t, Inl (Wrapped (''decoding response from '' @ p_ID p) e))
                      | Inr r \<Rightarrow> (recordSuccess now (p_ID p) t, Inr r)))))"

definition transport_AppendEntries ::
  "http_client \<Rightarrow> int \<Rightarrow> peer \<Rightarrow> append_entries_request \<Rightarrow> transport \<Rightarrow>
   transport \<times> append_entries_response go" where
  "transport_AppendEntries H now p req = rpc H now p ''/raft/append-entries'' (json_aer req) dec_aes zero_aes"

definition transport_RequestVote ::
  "http_client \<Rightarrow> int \<Rightarrow> peer \<Rightarrow> request_vote_request \<Rightarrow> transport \<Rightarrow>
   transport \<times> request_vote_response go" where
  "transport_RequestVote H now p req = rpc H now p ''/raft/request-vote'' (json_rvr req) dec_rvs zero_rvs"

definition transport_InstallSnapshot ::
  "http_client \<Rightarrow> int \<Rightarrow> peer \<Rightarrow> install_snapshot_request \<Rightarrow> transport \<Rightarrow>
   transport \<times> install_snapshot_response go" where
  "transport_InstallSnapshot H now p req = rpc H now p ''/raft/install-snapshot'' (json_isr req) dec_iss zero_iss"

section \<open>Tracker\<close>

text \<open>
  The tracker holds pointers to the very members that the transport updates. A pointer is the key
  of the member in the transport's map, and the operations of the tracker read through it.
\<close>

definition checkInterval :: int where "checkInterval = 5 * 1000000000"
definition deadThreshold :: int where "deadThreshold = 30 * 1000000000"

record tracker =
  tk_members :: "string list"
  tk_stopped :: bool
  tk_panicked :: bool

definition NewHeartbeatTracker :: "string list \<Rightarrow> tracker" where
  "NewHeartbeatTracker ms = \<lparr>tk_members = ms, tk_stopped = False, tk_panicked = False\<rparr>"

definition tracker_Stop :: "tracker \<Rightarrow> tracker" where
  "tracker_Stop h = (if tk_stopped h then h\<lparr>tk_panicked := True\<rparr> else h\<lparr>tk_stopped := True\<rparr>)"

definition deref :: "transport \<Rightarrow> string list \<Rightarrow> member list" where
  "deref t = List.map_filter (map_of (tr_members t))"

definition LivePeers :: "transport \<Rightarrow> tracker \<Rightarrow> string list" where
  "LivePeers t h = map (p_ID \<circ> m_Peer) (filter IsAlive (deref t (tk_members h)))"

text \<open>\<open>check\<close>: the peers it warns about, with their age.\<close>

definition tracker_check :: "int \<Rightarrow> transport \<Rightarrow> tracker \<Rightarrow> (string \<times> int) list" where
  "tracker_check now t h =
     map (\<lambda>m. (p_ID (m_Peer m), now - LastSeen m))
       (filter (\<lambda>m. deadThreshold < now - LastSeen m \<and> State m \<noteq> PeerDead) (deref t (tk_members h)))"

text \<open>One round of the background loop: a tick checks, the closed \<open>stopCh\<close> ends the loop.\<close>

datatype tracker_event = TrackerStop | TrackerTick int

definition tracker_run :: "tracker_event \<Rightarrow> transport \<Rightarrow> tracker \<Rightarrow> (string \<times> int) list option" where
  "tracker_run ev t h =
     (case ev of TrackerStop \<Rightarrow> None
      | TrackerTick now \<Rightarrow> Some (tracker_check now t h))"

section \<open>Health of a peer\<close>

datatype observation = Succeeded int | Failed

fun observe :: "observation \<Rightarrow> member \<Rightarrow> member" where
  "observe (Succeeded now) m = RecordSuccess now m"
| "observe Failed m = RecordFailure m"

text \<open>The specification: only the failures since the last success count.\<close>

fun misses :: "nat \<Rightarrow> observation list \<Rightarrow> nat" where
  "misses k [] = k"
| "misses k (Succeeded _ # os) = misses 0 os"
| "misses k (Failed # os) = misses (Suc k) os"

definition health :: "nat \<Rightarrow> peer_state" where
  "health k = (if 5 \<le> k then PeerDead else if 2 \<le> k then PeerUnreachable else PeerAlive)"

definition tracks :: "nat \<Rightarrow> member \<Rightarrow> bool" where
  "tracks k m \<longleftrightarrow> m_missedRPCs m = int k \<and> m_state m = health k"

lemma misses_le: "misses k os \<le> k + length os"
  by (induction k os rule: misses.induct) auto

lemma RecordFailure_tracks:
  assumes "tracks k m" "int k + 1 < 2 ^ 63"
  shows "tracks (Suc k) (RecordFailure m)"
proof -
  have "int64 (int k + 1) = int k + 1" using assms(2) by (intro int64_id) simp_all
  then show ?thesis using assms(1)
    by (auto simp: tracks_def RecordFailure_def health_def Let_def)
qed

lemma RecordSuccess_tracks: "tracks 0 (RecordSuccess now m)"
  by (simp add: tracks_def RecordSuccess_def health_def)

lemma observe_tracks:
  assumes "tracks k m" "int (k + length os) < 2 ^ 63"
  shows "tracks (misses k os) (fold observe os m)"
  using assms
proof (induction k os arbitrary: m rule: misses.induct)
  case (3 k os)
  then show ?case using RecordFailure_tracks [of k m] by simp
qed (simp_all add: RecordSuccess_tracks)

lemma NewMember_tracks: "tracks 0 (NewMember now p)"
  by (simp add: tracks_def NewMember_def health_def)

section \<open>Calls\<close>

lemma transport_members:
  "map_of (tr_members (NewHTTPTransport now ps)) k =
     map_option (NewMember now) (map_of (rev (map (\<lambda>p. (p_ID p, p)) ps)) k)"
proof -
  have "map_of (foldl (\<lambda>ms p. AList.update (p_ID p) (NewMember now p) ms) m ps) k =
      (case map_of (rev (map (\<lambda>p. (p_ID p, p)) ps)) k of Some p \<Rightarrow> Some (NewMember now p) | None \<Rightarrow> map_of m k)" for m
    by (induction ps arbitrary: m) (auto simp: update_conv' map_of_append map_add_def split: option.splits)
  then show ?thesis by (simp add: NewHTTPTransport_def split: option.split)
qed

lemma record_other [simp]:
  "j \<noteq> k \<Longrightarrow> map_of (tr_members (recordSuccess now k t)) j = map_of (tr_members t) j"
  "j \<noteq> k \<Longrightarrow> map_of (tr_members (recordFailure k t)) j = map_of (tr_members t) j"
  by (simp_all add: recordSuccess_def recordFailure_def update_conv' split: option.split)

lemma record_self [simp]:
  "map_of (tr_members (recordSuccess now k t)) k = map_option (RecordSuccess now) (map_of (tr_members t) k)"
  "map_of (tr_members (recordFailure k t)) k = map_option RecordFailure (map_of (tr_members t) k)"
  by (simp_all add: recordSuccess_def recordFailure_def update_conv' split: option.split)

lemma rpc_cases:
  obtains (bad_url) e where "hc_newRequest H (rpc_url p path) = Some e" "rpc H now p path body dec zero t = (t, Inl e)"
  | (no_answer) e where "hc_newRequest H (rpc_url p path) = None" "hc_do H (rpc_url p path) (print_json body) = Inl e"
      "rpc H now p path body dec zero t = (recordFailure (p_ID p) t, Inl (Wrapped (rpc_context path p) e))"
  | (bad_status) st reply where "hc_newRequest H (rpc_url p path) = None"
      "hc_do H (rpc_url p path) (print_json body) = Inr (st, reply)" "st \<noteq> 200"
      "rpc H now p path body dec zero t = (recordFailure (p_ID p) t,
         Inl (ErrMsg (rpc_context path p @ '': status '' @ show_nat st)))"
  | (bad_body) reply e where "hc_newRequest H (rpc_url p path) = None"
      "hc_do H (rpc_url p path) (print_json body) = Inr (200, reply)" "decode dec zero reply = Inl e"
      "rpc H now p path body dec zero t = (t, Inl (Wrapped (''decoding response from '' @ p_ID p) e))"
  | (answer) reply r where "hc_newRequest H (rpc_url p path) = None"
      "hc_do H (rpc_url p path) (print_json body) = Inr (200, reply)" "decode dec zero reply = Inr r"
      "rpc H now p path body dec zero t = (recordSuccess now (p_ID p) t, Inr r)"
proof (cases "hc_newRequest H (rpc_url p path)")
  case (Some e)
  then show ?thesis by (intro bad_url) (simp_all add: rpc_def Let_def)
next
  case None
  show ?thesis
  proof (cases "hc_do H (rpc_url p path) (print_json body)")
    case (Inl e)
    with None show ?thesis by (intro no_answer) (simp_all add: rpc_def Let_def)
  next
    case (Inr a)
    then obtain st reply where a: "hc_do H (rpc_url p path) (print_json body) = Inr (st, reply)" by (cases a) simp
    show ?thesis
    proof (cases "st = 200")
      case False
      with None a show ?thesis by (intro bad_status) (simp_all add: rpc_def Let_def)
    next
      case True
      show ?thesis
      proof (cases "decode dec zero reply")
        case (Inl e)
        with None a True show ?thesis by (intro bad_body) (simp_all add: rpc_def Let_def)
      next
        case (Inr r)
        with None a True show ?thesis by (intro answer) (simp_all add: rpc_def Let_def)
      qed
    qed
  qed
qed

section \<open>A history of calls\<close>

fun transport_observe :: "string \<times> observation \<Rightarrow> transport \<Rightarrow> transport" where
  "transport_observe (k, Succeeded now) t = recordSuccess now k t"
| "transport_observe (k, Failed) t = recordFailure k t"

definition about :: "string \<Rightarrow> (string \<times> observation) list \<Rightarrow> observation list" where
  "about k os = map snd (filter (\<lambda>x. fst x = k) os)"

lemma about_simps [simp]:
  "about k [] = []" "about k ((j, x) # os) = (if j = k then x # about k os else about k os)"
  by (simp_all add: about_def)

lemma transport_observe_self:
  "map_of (tr_members (transport_observe (j, x) t)) k =
     (if j = k then map_option (observe x) (map_of (tr_members t) k) else map_of (tr_members t) k)"
  by (cases x; cases "map_of (tr_members t) k") simp_all

lemma transport_history:
  "map_of (tr_members (fold transport_observe os t)) k =
     map_option (fold observe (about k os)) (map_of (tr_members t) k)"
proof (induction os arbitrary: t)
  case Nil
  show ?case by (cases "map_of (tr_members t) k") simp_all
next
  case (Cons o' os)
  obtain j x where o': "o' = (j, x)" by fastforce
  show ?case
    using Cons.IH [of "transport_observe (j, x) t"]
    by (simp add: o' transport_observe_self option.map_comp comp_def del: transport_observe.simps)
qed

lemma m_Peer_observe [simp]: "m_Peer (fold observe os m) = m_Peer m"
proof (induction os arbitrary: m)
  case (Cons x os)
  then show ?case by (cases x) (simp_all add: RecordSuccess_def RecordFailure_def Let_def)
qed simp

lemma NewHTTPTransport_lookup:
  assumes "distinct (map p_ID ps)" "p \<in> set ps"
  shows "map_of (tr_members (NewHTTPTransport now ps)) (p_ID p) = Some (NewMember now p)"
proof -
  have d: "distinct (map fst (rev (map (\<lambda>p. (p_ID p, p)) ps)))"
    using assms(1) by (simp add: rev_map [symmetric] comp_def)
  have "(p_ID p, p) \<in> set (rev (map (\<lambda>p. (p_ID p, p)) ps))" using assms(2) by simp
  then show ?thesis using map_of_is_SomeI [OF d] by (simp add: transport_members)
qed

lemma NewHTTPTransport_keys:
  "k \<in> set (Members (NewHTTPTransport now ps)) \<longleftrightarrow> k \<in> p_ID ` set ps"
proof -
  have "k \<in> set (Members t) \<longleftrightarrow> map_of (tr_members t) k \<noteq> None" for t
    by (simp add: Members_def map_of_eq_None_iff)
  moreover have "map_of (rev (map (\<lambda>p. (p_ID p, p)) ps)) k \<noteq> None \<longleftrightarrow> k \<in> p_ID ` set ps"
    by (simp add: map_of_eq_None_iff image_image)
  ultimately show ?thesis by (simp add: transport_members)
qed

lemma set_deref: "m \<in> set (List.map_filter f ks) \<longleftrightarrow> (\<exists>k\<in>set ks. f k = Some m)"
  by (induction ks) (auto simp: map_filter_simps split: option.splits)

lemma LivePeers_iff:
  assumes "distinct (map p_ID ps)" "p \<in> set ps" "length os < 2 ^ 63"
  shows "p_ID p \<in> set (LivePeers (fold transport_observe os (NewHTTPTransport now ps))
      (NewHeartbeatTracker (Members (NewHTTPTransport now ps)))) \<longleftrightarrow> misses 0 (about (p_ID p) os) < 2"
proof -
  let ?new = "NewHTTPTransport now ps" and ?os = "about (p_ID p) os"
  let ?t = "fold transport_observe os ?new"
  have look: "map_of (tr_members ?t) (p_ID q) = Some (fold observe (about (p_ID q) os) (NewMember now q))"
    if "q \<in> set ps" for q
    using NewHTTPTransport_lookup [OF assms(1) that] by (simp add: transport_history)
  have "length ?os \<le> length os" unfolding about_def by simp
  then have "int (0 + length ?os) < 2 ^ 63" using assms(3) by simp
  note tr = observe_tracks [OF NewMember_tracks this, of now p]
  then have alive: "IsAlive (fold observe ?os (NewMember now p)) \<longleftrightarrow> misses 0 ?os < 2"
    by (auto simp: tracks_def IsAlive_def health_def)
  have mem: "m \<in> set (deref ?t (Members ?new)) \<longleftrightarrow>
      (\<exists>q\<in>set ps. m = fold observe (about (p_ID q) os) (NewMember now q))" for m
  proof -
    have "m \<in> set (deref ?t (Members ?new)) \<longleftrightarrow> (\<exists>k\<in>p_ID ` set ps. map_of (tr_members ?t) k = Some m)"
      using NewHTTPTransport_keys [of _ now ps] by (simp only: deref_def set_deref Bex_def)
    also have "\<dots> \<longleftrightarrow> (\<exists>q\<in>set ps. map_of (tr_members ?t) (p_ID q) = Some m)" by simp
    also have "\<dots> \<longleftrightarrow> (\<exists>q\<in>set ps. m = fold observe (about (p_ID q) os) (NewMember now q))"
      by (intro bex_cong refl) (simp only: look option.inject eq_commute)
    finally show ?thesis .
  qed
  have same: "q = p" if "q \<in> set ps" "p_ID q = p_ID p" for q
    using assms(1,2) that by (auto simp: distinct_map inj_on_def)
  have "p_ID p \<in> set (LivePeers ?t (NewHeartbeatTracker (Members ?new))) \<longleftrightarrow>
      (\<exists>q\<in>set ps. IsAlive (fold observe (about (p_ID q) os) (NewMember now q)) \<and> p_ID q = p_ID p)"
    using mem by (auto simp: LivePeers_def NewHeartbeatTracker_def NewMember_def image_iff)
  also have "\<dots> \<longleftrightarrow> IsAlive (fold observe ?os (NewMember now p))" using same assms(2) by blast
  finally show ?thesis using alive by simp
qed

end
