(* ===== verification/Api.thy ===== *)
theory Api
  imports Transaction Membership
begin

text \<open>
  \<open>pkg/api/v1/kvstore.go\<close>: the HTTP server of a node. A handler takes a request and the node and
  returns the node and the response. The server and the node share one storage engine, so local
  reads go to \<open>rn_storage\<close>; writes go through \<^const>\<open>propose_call\<close>. \<open>ext\<close> is the text of errors
  that do not originate in the repository (\<open>encoding/json\<close>, bbolt, \<open>context\<close>), \<open>upper\<close> is
  \<open>strings.ToUpper\<close> on strings outside ASCII. Request paths are clean (no \<open>.\<close>, \<open>..\<close> or empty segments),
  so the mux does not rewrite them. When a handler panics (\<^const>\<open>rn_panicked\<close> of the node it returns
  tells), \<open>net/http\<close> closes the connection and the response below is not sent.
\<close>

section \<open>Requests and responses\<close>

record http_request =
  rq_Method :: string
  rq_Path :: string
  rq_prefix :: string
  rq_Body :: bytes

record http_response =
  rs_Status :: nat
  rs_ContentType :: string
  rs_Body :: bytes

text \<open>
  A server of \<open>net/http\<close>: its settings (durations in nanoseconds), and whether it listens. A server
  that was shut down does not listen again.
\<close>

datatype listening = NotStarted | Serving | Shut

record http_server =
  hs_Addr :: string
  hs_ReadTimeout :: int
  hs_WriteTimeout :: int
  hs_IdleTimeout :: int
  hs_state :: listening

definition second :: int where
  "second = 1000000000"

definition http_listen :: "http_server \<Rightarrow> http_server" where
  "http_listen s = (if hs_state s = Shut then s else s\<lparr>hs_state := Serving\<rparr>)"

definition http_Shutdown :: "http_server \<Rightarrow> http_server" where
  "http_Shutdown s = s\<lparr>hs_state := Shut\<rparr>"

text \<open>The \<open>http.Server\<close> that \<open>NewServer\<close> sets up; its handlers are \<open>routes\<close> below.\<close>

definition NewServer :: "string \<Rightarrow> http_server" where
  "NewServer addr = \<lparr>hs_Addr = addr, hs_ReadTimeout = 5 * second, hs_WriteTimeout = 10 * second,
     hs_IdleTimeout = 60 * second, hs_state = NotStarted\<rparr>"

definition writeJSON :: "nat \<Rightarrow> json \<Rightarrow> http_response" where
  "writeJSON status v =
     \<lparr>rs_Status = status, rs_ContentType = ''application/json'', rs_Body = print_json v @ [CHR 0x0A]\<rparr>"

definition writeError :: "nat \<Rightarrow> string \<Rightarrow> http_response" where
  "writeError status msg = writeJSON status (JObj [(''error'', JStr msg)])"

definition http_Error :: "string \<Rightarrow> nat \<Rightarrow> http_response" where
  "http_Error msg status =
     \<lparr>rs_Status = status, rs_ContentType = ''text/plain; charset=utf-8'', rs_Body = msg @ [CHR 0x0A]\<rparr>"

definition ok_response :: http_response where
  "ok_response = writeJSON 200 (JObj [(''ok'', JBool True)])"

text \<open>\<open>err.Error()\<close> for the errors of the program.\<close>

fun error_text :: "(go_error \<Rightarrow> string) \<Rightarrow> go_error \<Rightarrow> string" where
  "error_text ext ErrKeyNotFound = ''key not found''"
| "error_text ext ErrLogEntryNotFound = ''log entry not found''"
| "error_text ext CASMismatch = ''CAS failed: value mismatch''"
| "error_text ext (UnknownOp op) = ''unknown op: '' @ op"
| "error_text ext (NotLeaderError l) = NotLeaderError_Error l"
| "error_text ext NodeStopped = ''node stopped''"
| "error_text ext (ErrMsg m) = m"
| "error_text ext (Wrapped m e) = m @ '': '' @ error_text ext e"
| "error_text ext e = ext e"

text \<open>\<open>errors.As\<close> with a \<open>*NotLeaderError\<close> target looks through wrapped errors.\<close>

fun as_not_leader :: "go_error \<Rightarrow> string option" where
  "as_not_leader (NotLeaderError l) = Some l"
| "as_not_leader (Wrapped m e) = as_not_leader e"
| "as_not_leader e = None"

definition handleProposeError :: "(go_error \<Rightarrow> string) \<Rightarrow> go_error \<Rightarrow> http_response" where
  "handleProposeError ext err =
     (case as_not_leader err of
        Some l \<Rightarrow> writeJSON 307 (JObj [(''error'', JStr ''not leader''), (''leader_id'', JStr l)])
      | None \<Rightarrow> writeError 500 (error_text ext err))"

definition TrimPrefix :: "string \<Rightarrow> string \<Rightarrow> string" where
  "TrimPrefix s p = (if has_prefix s p then drop (length p) s else s)"

definition ToUpper :: "(string \<Rightarrow> string) \<Rightarrow> string \<Rightarrow> string" where
  "ToUpper upper s = (if list_all (\<lambda>c. (of_char c :: nat) < 128) s then map upper_ascii s else upper s)"

section \<open>Request bodies\<close>

record put_body =
  pb_Value :: string

record cas_body =
  cb_PrevValue :: string
  cb_NewValue :: string

record txn_op =
  to_Op :: string
  to_Key :: string
  to_Value :: string
  to_PrevValue :: string

record txn_body =
  tb_Ops :: "txn_op list"

definition dec_put_body :: "put_body decoder" where
  "dec_put_body = decode_struct [(''value'', dec_string pb_Value_update)]"

definition dec_cas_body :: "cas_body decoder" where
  "dec_cas_body = decode_struct [(''prev_value'', dec_string cb_PrevValue_update),
     (''new_value'', dec_string cb_NewValue_update)]"

definition dec_txn_op :: "txn_op decoder" where
  "dec_txn_op = decode_struct [(''op'', dec_string to_Op_update), (''key'', dec_string to_Key_update),
     (''value'', dec_string to_Value_update), (''prev_value'', dec_string to_PrevValue_update)]"

definition dec_txn_body :: "txn_body decoder" where
  "dec_txn_body = decode_struct [(''ops'',
     dec_list dec_txn_op \<lparr>to_Op = [], to_Key = [], to_Value = [], to_PrevValue = []\<rparr> tb_Ops_update)]"

section \<open>Client handlers\<close>

text \<open>The propose-and-answer tail that the write handlers share.\<close>

definition answer_proposal ::
  "(go_error \<Rightarrow> string) \<Rightarrow> 's \<times> go_error option \<Rightarrow> 's \<times> http_response" where
  "answer_proposal ext r =
     (case r of
        (s, Some e) \<Rightarrow> (s, handleProposeError ext e)
      | (s, None) \<Rightarrow> (s, ok_response))"

definition getKey ::
  "(go_error \<Rightarrow> string) \<Rightarrow> 'st engine \<Rightarrow> string \<Rightarrow> ('db, 'st) raft_node \<Rightarrow> http_response" where
  "getKey ext E key n =
     (case eng_Get E key (rn_storage n) of
        Inl e \<Rightarrow> (if e = ErrKeyNotFound then writeError 404 ''key not found''
                  else writeError 500 (error_text ext e))
      | Inr val \<Rightarrow> writeJSON 200 (JObj [(''key'', JStr key), (''value'', JStr val)]))"

definition putKey ::
  "(go_error \<Rightarrow> string) \<Rightarrow> 'db bolt \<Rightarrow> ('db, 'st) wait \<Rightarrow> http_request \<Rightarrow> string \<Rightarrow> ('db, 'st) raft_node \<Rightarrow>
   ('db, 'st) raft_node \<times> http_response" where
  "putKey ext B wait rq key n =
     (case decode dec_put_body \<lparr>pb_Value = []\<rparr> (rq_Body rq) of
        Inl _ \<Rightarrow> (n, writeError 400 ''invalid JSON body'')
      | Inr body \<Rightarrow>
          answer_proposal ext (propose_call B wait
            (zero_command\<lparr>c_Op := OpPut, c_Key := key, c_Value := pb_Value body\<rparr>) n))"

definition deleteKey ::
  "(go_error \<Rightarrow> string) \<Rightarrow> 'db bolt \<Rightarrow> ('db, 'st) wait \<Rightarrow> string \<Rightarrow> ('db, 'st) raft_node \<Rightarrow>
   ('db, 'st) raft_node \<times> http_response" where
  "deleteKey ext B wait key n =
     answer_proposal ext (propose_call B wait (zero_command\<lparr>c_Op := OpDelete, c_Key := key\<rparr>) n)"

definition handleKey ::
  "(go_error \<Rightarrow> string) \<Rightarrow> 'db bolt \<Rightarrow> 'st engine \<Rightarrow> ('db, 'st) wait \<Rightarrow> http_request \<Rightarrow>
   ('db, 'st) raft_node \<Rightarrow> ('db, 'st) raft_node \<times> http_response" where
  "handleKey ext B E wait rq n =
     (let key = TrimPrefix (rq_Path rq) ''/v1/keys/'' in
      if key = [] then (n, writeError 400 ''key is required'')
      else if rq_Method rq = ''GET'' then (n, getKey ext E key n)
      else if rq_Method rq = ''PUT'' then putKey ext B wait rq key n
      else if rq_Method rq = ''DELETE'' then deleteKey ext B wait key n
      else (n, http_Error ''method not allowed'' 405))"

definition handleCAS ::
  "(go_error \<Rightarrow> string) \<Rightarrow> 'db bolt \<Rightarrow> ('db, 'st) wait \<Rightarrow> http_request \<Rightarrow>
   ('db, 'st) raft_node \<Rightarrow> ('db, 'st) raft_node \<times> http_response" where
  "handleCAS ext B wait rq n =
     (if rq_Method rq \<noteq> ''POST'' then (n, http_Error ''method not allowed'' 405)
      else
        let key = TrimPrefix (rq_Path rq) ''/v1/cas/'' in
        if key = [] then (n, writeError 400 ''key is required'')
        else
          (case decode dec_cas_body \<lparr>cb_PrevValue = [], cb_NewValue = []\<rparr> (rq_Body rq) of
             Inl _ \<Rightarrow> (n, writeError 400 ''invalid JSON body'')
           | Inr body \<Rightarrow>
               answer_proposal ext (propose_call B wait
                 \<lparr>c_Op = OpCAS, c_Key = key, c_Value = cb_NewValue body, c_PrevValue = cb_PrevValue body\<rparr> n)))"

text \<open>The result map is printed with its keys in order.\<close>

definition handleScan ::
  "(go_error \<Rightarrow> string) \<Rightarrow> 'st engine \<Rightarrow> http_request \<Rightarrow> ('db, 'st) raft_node \<Rightarrow> http_response" where
  "handleScan ext E rq n =
     (case eng_Scan E (rq_prefix rq) (rn_storage n) of
        Inl e \<Rightarrow> writeError 500 (error_text ext e)
      | Inr result \<Rightarrow>
          writeJSON 200 (JObj [(''keys'', JObj (map (\<lambda>kv. (fst kv, JStr (snd kv))) (sort_key fst result)))]))"

definition txn_command :: "(string \<Rightarrow> string) \<Rightarrow> txn_op \<Rightarrow> command" where
  "txn_command upper op = \<lparr>c_Op = ToUpper upper (to_Op op), c_Key = to_Key op, c_Value = to_Value op,
     c_PrevValue = to_PrevValue op\<rparr>"

definition txn_label :: "nat \<Rightarrow> command \<Rightarrow> string" where
  "txn_label i cmd = ''op['' @ show_nat i @ '']''"

definition handleTxn ::
  "(go_error \<Rightarrow> string) \<Rightarrow> (string \<Rightarrow> string) \<Rightarrow> 'db bolt \<Rightarrow> ('db, 'st) wait \<Rightarrow> http_request \<Rightarrow>
   ('db, 'st) raft_node \<Rightarrow> ('db, 'st) raft_node \<times> http_response" where
  "handleTxn ext upper B wait rq n =
     (if rq_Method rq \<noteq> ''POST'' then (n, http_Error ''method not allowed'' 405)
      else
        (case decode dec_txn_body \<lparr>tb_Ops = []\<rparr> (rq_Body rq) of
           Inl _ \<Rightarrow> (n, writeError 400 ''invalid JSON body'')
         | Inr body \<Rightarrow>
             answer_proposal ext (propose_all txn_label (propose_call B wait) 0
               (map (txn_command upper) (tb_Ops body)) n)))"

definition handleStatus :: "('db, 'st) raft_node \<Rightarrow> http_response" where
  "handleStatus n = writeJSON 200 (JObj
     [(''commit_index'', json_u64 (node_CommitIndex n)),
      (''is_leader'', JBool (IsLeader n)),
      (''last_applied'', json_u64 (node_LastApplied n)),
      (''leader_id'', JStr (LeaderID n)),
      (''node_id'', JStr (node_ID n)),
      (''snapshot_index'', json_u64 (node_SnapshotIndex n))])"

section \<open>Raft handlers\<close>

definition handleAppendEntries ::
  "(go_error \<Rightarrow> string) \<Rightarrow> 'db bolt \<Rightarrow> http_request \<Rightarrow> ('db, 'st) raft_node \<Rightarrow>
   ('db, 'st) raft_node \<times> http_response" where
  "handleAppendEntries ext B rq n =
     (case decode dec_aer zero_aer (rq_Body rq) of
        Inl e \<Rightarrow> (n, writeError 400 (error_text ext e))
      | Inr req \<Rightarrow> apsnd (\<lambda>resp. writeJSON 200 (json_aes resp)) (HandleAppendEntries B req n))"

definition handleRequestVote ::
  "(go_error \<Rightarrow> string) \<Rightarrow> 'db bolt \<Rightarrow> http_request \<Rightarrow> ('db, 'st) raft_node \<Rightarrow>
   ('db, 'st) raft_node \<times> http_response" where
  "handleRequestVote ext B rq n =
     (case decode dec_rvr zero_rvr (rq_Body rq) of
        Inl e \<Rightarrow> (n, writeError 400 (error_text ext e))
      | Inr req \<Rightarrow> apsnd (\<lambda>resp. writeJSON 200 (json_rvs resp)) (HandleRequestVote B req n))"

definition handleInstallSnapshot ::
  "(go_error \<Rightarrow> string) \<Rightarrow> 'db bolt \<Rightarrow> 'st engine \<Rightarrow> http_request \<Rightarrow> ('db, 'st) raft_node \<Rightarrow>
   ('db, 'st) raft_node \<times> http_response" where
  "handleInstallSnapshot ext B E rq n =
     (case decode dec_isr zero_isr (rq_Body rq) of
        Inl e \<Rightarrow> (n, writeError 400 (error_text ext e))
      | Inr req \<Rightarrow> apsnd (\<lambda>resp. writeJSON 200 (json_iss resp)) (HandleInstallSnapshot B E req n))"

section \<open>Routing\<close>

text \<open>
  The mux, for request paths in clean form: a pattern that ends in a slash matches its subtree, the
  others match exactly, and the root of a subtree without its slash is redirected to it.
\<close>

definition mux_redirect :: "http_request \<Rightarrow> http_response" where
  "mux_redirect rq =
     \<lparr>rs_Status = 301,
      rs_ContentType = (if rq_Method rq \<in> {''GET'', ''HEAD''} then ''text/html; charset=utf-8'' else []),
      rs_Body = (if rq_Method rq = ''GET''
                 then ''<a href='' @ [CHR 0x22] @ rq_Path rq @ ''/'' @ [CHR 0x22] @ ''>Moved Permanently</a>.'' @
                   [CHR 0x0A, CHR 0x0A] else [])\<rparr>"

definition routes ::
  "(go_error \<Rightarrow> string) \<Rightarrow> (string \<Rightarrow> string) \<Rightarrow> 'db bolt \<Rightarrow> 'st engine \<Rightarrow> ('db, 'st) wait \<Rightarrow> http_request \<Rightarrow>
   ('db, 'st) raft_node \<Rightarrow> ('db, 'st) raft_node \<times> http_response" where
  "routes ext upper B E wait rq n =
     (let path = rq_Path rq in
      if has_prefix path ''/v1/keys/'' then handleKey ext B E wait rq n
      else if has_prefix path ''/v1/cas/'' then handleCAS ext B wait rq n
      else if path = ''/v1/scan'' then (n, handleScan ext E rq n)
      else if path = ''/v1/txn'' then handleTxn ext upper B wait rq n
      else if path = ''/v1/status'' then (n, handleStatus n)
      else if path = ''/raft/append-entries'' then handleAppendEntries ext B rq n
      else if path = ''/raft/request-vote'' then handleRequestVote ext B rq n
      else if path = ''/raft/install-snapshot'' then handleInstallSnapshot ext B E rq n
      else if path \<in> {''/v1/keys'', ''/v1/cas''} then (n, mux_redirect rq)
      else (n, http_Error ''404 page not found'' 404))"

end
