(* ===== verification/Cluster_Invariant.thy ===== *)
theory Cluster_Invariant
  imports Cluster Replication State_Machine Election_Safety
begin

text \<open>
  The well-formedness invariant of every node of a cluster, of any size: the durable state matches
  the volatile one, the leader's bookkeeping has one slot per peer, no two pending proposals share
  a channel, requests go to peers only, and nothing is applied before it is committed. Most methods
  only shrink the volatile bookkeeping, which is the relation \<open>frame\<close>.
\<close>

definition tasks_ok :: "('db, 'st) raft_node \<Rightarrow> bool" where
  "tasks_ok n \<longleftrightarrow> (\<forall>p. TReplicate p \<in> set (rn_tasks n) \<longrightarrow> p \<in> set (rn_peers n))"

definition applied_ok :: "('db, 'st) raft_node \<Rightarrow> bool" where
  "applied_ok n \<longleftrightarrow> rn_lastApplied n \<le> rn_commitIndex n"

definition volatile_ok :: "('db, 'st) raft_node \<Rightarrow> bool" where
  "volatile_ok n \<longleftrightarrow> leader_wf n \<and> pending_ok n \<and> tasks_ok n \<and> applied_ok n"

definition node_wf :: "'db bolt \<Rightarrow> ('db, 'st) raft_node \<Rightarrow> bool" where
  "node_wf B n \<longleftrightarrow> node_ok B n \<and> volatile_ok n"

definition frame :: "('db, 'st) raft_node \<Rightarrow> ('db, 'st) raft_node \<Rightarrow> bool" where
  "frame n n' \<longleftrightarrow> rn_peers n' = rn_peers n \<and> rn_leader n' \<in> {rn_leader n, None} \<and>
     (\<forall>i c. rn_pending n' i = Some c \<longrightarrow> rn_pending n i = Some c) \<and> rn_nextChan n' = rn_nextChan n \<and>
     (tasks_ok n \<longrightarrow> tasks_ok n') \<and> (applied_ok n \<longrightarrow> applied_ok n')"

lemmas frame_defs = frame_def tasks_ok_def applied_ok_def

lemmas node_wf_defs = node_wf_def volatile_ok_def tasks_ok_def applied_ok_def

lemma frame_refl [simp, intro]: "frame n n"
  by (simp add: frame_def)

lemma frame_trans [trans]: "frame a b \<Longrightarrow> frame b c \<Longrightarrow> frame a c"
  by (auto simp: frame_def)

lemma frame_wf:
  assumes "frame n n'" "volatile_ok n"
  shows "volatile_ok n'"
proof -
  have "rn_leader n' = rn_leader n \<or> rn_leader n' = None" "rn_peers n' = rn_peers n"
    using assms(1) by (simp_all add: frame_def)
  then have "leader_wf n'" using assms(2) by (elim disjE) (simp_all add: leader_wf_def volatile_ok_def)
  moreover have "pending_ok n'" using assms unfolding frame_def pending_ok_def volatile_ok_def by metis
  ultimately show ?thesis using assms by (simp add: volatile_ok_def frame_def)
qed

lemma frame_eq:
  "rn_peers n' = rn_peers n \<Longrightarrow> rn_leader n' = rn_leader n \<Longrightarrow> rn_pending n' = rn_pending n \<Longrightarrow>
   rn_nextChan n' = rn_nextChan n \<Longrightarrow> rn_lastApplied n' = rn_lastApplied n \<Longrightarrow>
   rn_commitIndex n \<le> rn_commitIndex n' \<Longrightarrow>
   (\<And>p. TReplicate p \<in> set (rn_tasks n') \<Longrightarrow> TReplicate p \<in> set (rn_tasks n) \<or> p \<in> set (rn_peers n)) \<Longrightarrow> frame n n'"
  by (auto simp: frame_defs)

lemma drop_task_frame: "frame n (n\<lparr>rn_tasks := remove1 t (rn_tasks n)\<rparr>)"
  using set_remove1_subset [of t "rn_tasks n"] by (intro frame_eq) auto

lemma resetElectionTimer_frame: "frame n (resetElectionTimer n)"
  by (rule frame_eq) (simp_all add: resetElectionTimer_def Let_def split: if_splits)

lemma becomeFollower_frame: "frame n (becomeFollower B t n)"
proof -
  have "frame n (n\<lparr>rn_state := Follower, rn_currentTerm := t, rn_votedFor := [], rn_leader := None,
      rn_raftLog := fst (SaveMeta B t [] (rn_raftLog n))\<rparr>)" by (simp add: frame_defs)
  then show ?thesis unfolding becomeFollower_def using resetElectionTimer_frame by (rule frame_trans)
qed

lemma ae_enter_frame: "frame n (ae_enter B req n)"
proof -
  let ?m = "if rn_currentTerm (resetElectionTimer n) < aer_Term req
    then becomeFollower B (aer_Term req) (resetElectionTimer n) else resetElectionTimer n"
  have "frame n (becomeFollower B (aer_Term req) (resetElectionTimer n))"
    using frame_trans [OF resetElectionTimer_frame becomeFollower_frame] .
  then have "frame n ?m" using resetElectionTimer_frame [of n] by simp
  moreover have "frame ?m (?m\<lparr>rn_leaderID := aer_LeaderID req\<rparr>)" by (simp add: frame_defs)
  ultimately show ?thesis unfolding ae_enter_def Let_def by (rule frame_trans)
qed

lemma HandleAppendEntries_frame:
  assumes "timer_ok (rn_cfg n)" "\<not> rn_panicked n" "HandleAppendEntries B req n = (n', resp)"
  shows "frame n n'"
  using assms
proof (cases rule: HandleAppendEntries_cases)
  case (failed rl)
  have "frame (ae_enter B req n) n'" unfolding failed(4) by (rule frame_eq) simp_all
  with ae_enter_frame show ?thesis by (rule frame_trans)
next
  case (accept rl)
  have "frame (ae_enter B req n) n'"
    unfolding accept(4) by (rule frame_eq) (auto simp: ae_commit_def Let_def split: if_splits)
  with ae_enter_frame show ?thesis by (rule frame_trans)
qed (simp_all add: ae_enter_frame)

lemma HandleRequestVote_frame:
  assumes "timer_ok (rn_cfg n)" "\<not> rn_panicked n" "HandleRequestVote B req n = (n', resp)"
  shows "frame n n'"
proof -
  have enter: "frame n (rv_enter B req n)" by (simp add: rv_enter_def becomeFollower_frame)
  have "frame m (cast_vote B c m)" for c and m :: "('a, 'b) raft_node"
    unfolding cast_vote_def by (rule frame_trans [OF _ resetElectionTimer_frame]) (simp add: frame_defs)
  then have "frame n (cast_vote B c (rv_enter B req n))" for c using enter frame_trans by blast
  then show ?thesis using assms enter by (auto simp: HandleRequestVote_eq split: if_splits)
qed

lemma HandleInstallSnapshot_frame:
  assumes "HandleInstallSnapshot B E req n = (n', resp)"
  shows "frame n n'"
proof -
  define n1 where "n1 = (if rn_currentTerm n < isr_Term req then becomeFollower B (isr_Term req) n else n)"
  define n2 where "n2 = resetElectionTimer n1"
  have f1: "frame n n1" by (simp add: n1_def becomeFollower_frame)
  have f2: "frame n n2" unfolding n2_def using f1 resetElectionTimer_frame by (rule frame_trans)
  have "n' = fst (HandleInstallSnapshot B E req n)" using assms by simp
  then have "n' \<in> {n, n1} \<or> frame n2 n'"
    unfolding HandleInstallSnapshot_def Let_def n1_def [symmetric] n2_def [symmetric]
    by (auto simp: frame_defs split: prod.splits option.splits if_splits)
  then show ?thesis using f1 f2 frame_trans by auto
qed

lemma apply_entry_frame: "frame n (apply_entry E e n)"
  by (auto simp: frame_defs apply_entry_def Let_def split: prod.split option.split if_splits)

lemma applyCommitted_frame: "frame n (applyCommitted B E n)"
proof (induction B E n rule: applyCommitted.induct)
  case (1 B E n)
  let ?n1 = "n\<lparr>rn_lastApplied := rn_lastApplied n + 1\<rparr>"
  show ?case
  proof (cases "rn_lastApplied n < rn_commitIndex n")
    case True
    have f1: "frame n ?n1" using word_inc_le [OF True] by (simp add: frame_defs)
    show ?thesis
    proof (cases "Get B (rn_lastApplied ?n1) (rn_raftLog ?n1)")
      case (Inl e)
      with True f1 show ?thesis by (subst applyCommitted.simps) simp
    next
      case (Inr entry)
      have n2: "frame n (apply_entry E entry ?n1)" using f1 apply_entry_frame by (rule frame_trans)
      from Inr True have "applyCommitted B E n = (if rn_panicked (apply_entry E entry ?n1)
          then apply_entry E entry ?n1 else applyCommitted B E (apply_entry E entry ?n1))"
        by (subst applyCommitted.simps) (simp add: Let_def)
      with n2 1 [OF True refl Inr refl] show ?thesis by (auto intro: frame_trans)
    qed
  next
    case False
    then show ?thesis by (subst applyCommitted.simps) simp
  qed
qed

lemma broadcast_frame: "frame n (broadcastAppendEntries n)"
  by (rule frame_eq) (auto simp: broadcastAppendEntries_def split: if_splits)

lemma startElection_frame: "frame n (fst (startElection B n))"
proof -
  have "frame n (n\<lparr>rn_state := Candidate, rn_currentTerm := rn_currentTerm n + 1, rn_votedFor := rn_id n,
      rn_raftLog := fst (SaveMeta B (rn_currentTerm n + 1) (rn_id n) (rn_raftLog n))\<rparr>)" (is "frame n ?m")
    by (simp add: frame_defs)
  then have "frame n (resetElectionTimer ?m)" using resetElectionTimer_frame by (rule frame_trans)
  then show ?thesis by (simp add: startElection_def Let_def)
qed

lemma vote_reply_frame: "vote_reply B p r el n = (n', el') \<Longrightarrow> frame n n'"
  by (auto simp: vote_reply_def Let_def becomeFollower_frame split: option.splits if_splits)

section \<open>The steps that write the bookkeeping\<close>

lemma append_reply_leader_wf:
  assumes "leader_wf n" "p \<in> set (rn_peers n)"
  shows "leader_wf (append_reply B p resp n)"
proof -
  have nm: "distinct (map fst (matchIndex (note_match (p_ID p) m ls))) \<and>
      fst ` set (matchIndex (note_match (p_ID p) m ls)) = p_ID ` set (rn_peers n)" if "rn_leader n = Some ls" for ls m
    using assms that note_match_wf [of ls "p_ID p" m] by (simp add: leader_wf_def)
  have "leader_wf (becomeFollower B t n)" for t by (simp add: leader_wf_def)
  then show ?thesis using assms(1) nm
    by (auto simp: append_reply_def Let_def leader_wf_def split: option.splits)
qed

lemma snapshot_reply_leader_wf:
  assumes "leader_wf n" "p \<in> set (rn_peers n)"
  shows "leader_wf (snapshot_reply B p i resp n)"
proof -
  have "leader_wf (becomeFollower B t n)" for t by (simp add: leader_wf_def)
  then show ?thesis using assms
    by (auto simp: snapshot_reply_def leader_wf_def distinct_update update_keys split: option.splits)
qed

lemma append_reply_frame_rest:
  "tasks_ok n \<Longrightarrow> tasks_ok (append_reply B p resp n)" "pending_ok n \<Longrightarrow> pending_ok (append_reply B p resp n)"
  "rn_lastApplied (append_reply B p resp n) = rn_lastApplied n"
proof -
  have f: "tasks_ok n \<Longrightarrow> tasks_ok (becomeFollower B t n)" "pending_ok n \<Longrightarrow> pending_ok (becomeFollower B t n)" for t
    using becomeFollower_frame [of n B t] unfolding frame_def pending_ok_def by metis+
  show "tasks_ok n \<Longrightarrow> tasks_ok (append_reply B p resp n)"
    using f(1) by (auto simp: append_reply_def Let_def tasks_ok_def split: option.splits)
  show "pending_ok n \<Longrightarrow> pending_ok (append_reply B p resp n)"
    using f(2) by (auto simp: append_reply_def Let_def pending_ok_def split: option.splits)
  show "rn_lastApplied (append_reply B p resp n) = rn_lastApplied n"
    by (auto simp: append_reply_def Let_def split: option.splits)
qed

lemma append_reply_volatile:
  assumes "volatile_ok n" "p \<in> set (rn_peers n)"
  shows "volatile_ok (append_reply B p resp n)"
  using assms append_reply_leader_wf append_reply_frame_rest(1,2) append_reply_commit_mono [of n p B resp]
  by (auto simp: volatile_ok_def applied_ok_def append_reply_frame_rest(3))

lemma snapshot_reply_volatile:
  assumes "volatile_ok n" "p \<in> set (rn_peers n)"
  shows "volatile_ok (snapshot_reply B p i resp n)"
proof -
  have "frame n (becomeFollower B t n)" for t by (rule becomeFollower_frame)
  then have f: "volatile_ok (becomeFollower B t n)" for t using frame_wf assms(1) by blast
  have "leader_wf (snapshot_reply B p i resp n)"
    using assms snapshot_reply_leader_wf [of n p B i resp] by (simp add: volatile_ok_def)
  then show ?thesis using assms(1) f
    by (auto simp: snapshot_reply_def volatile_ok_def tasks_ok_def applied_ok_def pending_ok_def split: option.splits if_splits)
qed

lemma propose_volatile:
  assumes "volatile_ok n" "propose_append B cmd n = (n', r)"
  shows "volatile_ok n'"
proof -
  have "rn_leader n' = rn_leader n" "rn_peers n' = rn_peers n" "rn_tasks n' = rn_tasks n"
      "rn_lastApplied n' = rn_lastApplied n" "rn_commitIndex n' = rn_commitIndex n"
    using assms(2) by (auto simp: propose_append_def Let_def split: if_splits prod.splits option.splits)
  then show ?thesis using assms(1) pending_ok_propose [OF _ assms(2)]
    by (simp add: volatile_ok_def leader_wf_def tasks_ok_def applied_ok_def)
qed

section \<open>All steps\<close>

lemma node_step_wf:
  assumes "node_step B E n n'" "node_wf B n" "\<not> rn_panicked n" "bolt_writes_ok B"
  shows "node_wf B n'"
proof -
  have wf: "node_ok B n" "volatile_ok n" using assms(2) by (simp_all add: node_wf_def)
  have tm: "timer_ok (rn_cfg n)" using wf(1) by (simp add: node_ok_def)
  have "volatile_ok n'"
    using assms(1)
  proof cases
    case append_entries
    then show ?thesis using frame_wf [OF HandleAppendEntries_frame [OF tm assms(3)] wf(2)] by blast
  next
    case install_snapshot
    then show ?thesis using frame_wf [OF HandleInstallSnapshot_frame wf(2)] by blast
  next
    case heartbeat
    have "frame n n'" unfolding heartbeat
      by (rule frame_eq) (auto simp: run_heartbeatTick_def broadcastAppendEntries_def resetHeartbeatTimer_def split: if_splits)
    then show ?thesis using frame_wf wf by blast
  next
    case (replicate p rpc)
    have "frame (n\<lparr>rn_tasks := remove1 (TReplicate p) (rn_tasks n)\<rparr>) n'" using replicate(2)
      by (auto simp: replicateToPeer_def Let_def frame_defs split: if_splits option.splits sum.splits)
    then show ?thesis using frame_wf [OF frame_trans [OF drop_task_frame]] wf by blast
  next
    case apply_task
    then show ?thesis using frame_wf [OF frame_trans [OF drop_task_frame applyCommitted_frame]] wf by blast
  next
    case (snapshot_task i t snap)
    have "frame m (takeSnapshot B i t snap m)" for m :: "('a, 'b) raft_node"
      by (simp add: takeSnapshot_def frame_defs split: sum.split prod.split option.split)
    then show ?thesis unfolding snapshot_task(1) using frame_wf [OF frame_trans [OF drop_task_frame]] wf by blast
  next
    case broadcast
    then show ?thesis using frame_wf [OF broadcast_frame wf(2)] by simp
  next
    case propose_wait
    then have "frame n n'" by (auto simp: Propose_wait_def frame_defs split: wake.splits if_splits)
    then show ?thesis using frame_wf wf by blast
  next
    case stop
    have "frame n n'" unfolding stop by (simp add: Stop_signal_def frame_defs)
    then show ?thesis using frame_wf wf by blast
  next
    case append_response
    then show ?thesis using append_reply_volatile [OF wf(2)] by simp
  next
    case snapshot_response
    then show ?thesis using snapshot_reply_volatile [OF wf(2)] by simp
  next
    case propose
    then show ?thesis using propose_volatile [OF wf(2)] by blast
  qed
  then show ?thesis using steadyD(1) [OF node_step_steady [OF assms(1,4,3)] wf(1)] by (simp add: node_wf_def)
qed

definition cluster_wf :: "'db bolt \<Rightarrow> (string \<Rightarrow> config) \<Rightarrow> string list \<Rightarrow> ('db, 'st) cluster \<Rightarrow> bool" where
  "cluster_wf B cfgs ids cl \<longleftrightarrow> requests_inv ids cl \<and>
     (\<forall>a\<in>set ids. node_wf B (cl_node cl a) \<and> rn_id (cl_node cl a) = a \<and>
        rn_peers (cl_node cl a) = peers_of (cfgs a) \<and> rn_cfg (cl_node cl a) = cfgs a)"

lemma boots_frame:
  assumes "boots B cfg db n"
  shows "volatile_ok n"
proof -
  obtain mkdirAll bolt_Open rnd store n0 where n: "NewRaftNode B mkdirAll bolt_Open rnd cfg store = Inr n0" "n = Start n0"
    using bootsE [OF assms] .
  then have "volatile_ok n0" using NewRaftNode_volatile [OF n(1)]
    by (simp add: volatile_ok_def leader_wf_def pending_ok_def tasks_ok_def applied_ok_def)
  then show ?thesis using frame_wf [OF resetElectionTimer_frame [of n0]] n(2) by (simp add: Start_def)
qed

lemma cluster_wf_update:
  assumes "cluster_wf B cfgs ids cl" "a \<in> set ids" "node_wf B n'" "rn_id n' = rn_id (cl_node cl a)"
    "rn_peers n' = rn_peers (cl_node cl a)" "rn_cfg n' = rn_cfg (cl_node cl a)" "requests_inv ids cl'"
    "cl_node cl' = (cl_node cl)(a := n')"
  shows "cluster_wf B cfgs ids cl'"
  using assms by (auto simp: cluster_wf_def)

lemma cluster_wf_steady:
  assumes "cluster_wf B cfgs ids cl" "a \<in> set ids" "steady B (cl_node cl a) n'" "volatile_ok n'"
    "requests_inv ids cl'" "cl_node cl' = (cl_node cl)(a := n')"
  shows "cluster_wf B cfgs ids cl'"
proof -
  have "node_ok B (cl_node cl a)" using assms(1,2) by (simp add: cluster_wf_def node_wf_def)
  note st = steadyD [OF assms(3) this]
  show ?thesis
    by (rule cluster_wf_update [OF assms(1,2) _ st(2-4) assms(5,6)]) (use st(1) assms(4) in \<open>simp add: node_wf_def\<close>)
qed

lemma cluster_wf_init:
  assumes "cluster_init B cfgs ids cl" "configured cfgs ids" "bolt_spec B"
  shows "cluster_wf B cfgs ids cl"
proof -
  have "nodes_inv B cfgs ids cl" "requests_inv ids cl"
    using election_inv_init [OF assms] by (simp_all add: election_inv_def)
  moreover have "volatile_ok (cl_node cl a)" if "a \<in> set ids" for a
    using assms(1) that boots_frame [of B "cfgs a" _ "cl_node cl a"] unfolding cluster_init_def by blast
  ultimately show ?thesis by (simp add: cluster_wf_def nodes_inv_def node_wf_def)
qed

lemma cluster_wf_step:
  assumes "cluster_step B E cfgs ids cl cl'" "cluster_wf B cfgs ids cl" "configured cfgs ids" "bolt_writes_ok B"
  shows "cluster_wf B cfgs ids cl'"
proof -
  have wf: "node_wf B (cl_node cl a)" "node_ok B (cl_node cl a)" "leader_wf (cl_node cl a)"
      "volatile_ok (cl_node cl a)" "rn_id (cl_node cl a) = a" "rn_peers (cl_node cl a) = peers_of (cfgs a)"
      "rn_cfg (cl_node cl a) = cfgs a" if "a \<in> set ids" for a
    using assms(2) that by (simp_all add: cluster_wf_def node_wf_def volatile_ok_def)
  have rq: "requests_inv ids cl" using assms(2) by (simp add: cluster_wf_def)
  note upd = cluster_wf_steady [OF assms(2)]
  show ?thesis
    using assms(1)
  proof (cases rule: cluster_step_cases)
    case (local a n')
    have "volatile_ok n'"
      using node_step_wf [OF local(4) wf(1) [OF local(2)] local(3) assms(4)] by (simp add: node_wf_def)
    then show ?thesis
      using upd [OF local(2) node_step_steady [OF local(4) assms(4) local(3)]] local(1) rq
      by (simp add: requests_inv_def)
  next
    case (tick a n' go_on)
    have "frame (cl_node cl a) n'" using tick(5) resetElectionTimer_frame [of "cl_node cl a"]
      by (auto simp: run_electionTick_def split: if_splits)
    then have "volatile_ok n'" using frame_wf wf(4) [OF tick(2)] by blast
    moreover have "steady B (cl_node cl a) n'" using run_ticks_steady(1) [of B "cl_node cl a"] tick(5) by simp
    ultimately show ?thesis using upd [OF tick(2)] tick(1) rq by (simp add: requests_inv_def)
  next
    case (start a n' el)
    note s = startElection_keeps [OF assms(4) wf(2) [OF start(2)] start(3,6)]
    have "frame (cl_node cl a) n'" using startElection_frame [of "cl_node cl a" B] start(6) by simp
    then have "node_wf B n'" using frame_wf wf(4) [OF start(2)] s(1) by (auto simp: node_wf_def)
    moreover have "requests_inv ids cl'" using rq s(9) start(1,2) wf(5) [OF start(2)]
      by (auto simp: requests_inv_def)
    ultimately show ?thesis using cluster_wf_update [OF assms(2) start(2) _ s(2-4)] start(1) by simp
  next
    case (request_vote v req n' resp)
    have c: "rvr_CandidateID req \<in> set ids" using rq request_vote(4) by (simp add: requests_inv_def)
    note id = valid_id_savable [OF configuredD(2) [OF assms(3) c]]
    have "timer_ok (rn_cfg (cl_node cl v))" using wf(2) [OF request_vote(2)] by (simp add: node_ok_def)
    from HandleRequestVote_frame [OF this request_vote(3,5)]
    have "volatile_ok n'" using frame_wf wf(4) [OF request_vote(2)] by blast
    then show ?thesis
      using upd [OF request_vote(2) HandleRequestVote_steady [OF assms(4) id request_vote(3)
          wf(2) [OF request_vote(2)] request_vote(5)]] request_vote(1) rq
      by (simp add: requests_inv_def)
  next
    case (vote_response a el p r n' el')
    have "volatile_ok n'"
      using frame_wf [OF vote_reply_frame [OF vote_response(7)]] wf(4) [OF vote_response(2)] by blast
    then show ?thesis
      using upd [OF vote_response(2) vote_reply_steady [OF assms(4) vote_response(7)]] vote_response(1) rq
      by (simp add: requests_inv_def)
  next
    case (finish a el n')
    note l = becomeLeader_keeps [OF wf(2) [OF finish(2)]]
    have "pending_ok (becomeLeader B (cl_node cl a))" "tasks_ok (becomeLeader B (cl_node cl a))"
        "applied_ok (becomeLeader B (cl_node cl a))" using wf(4) [OF finish(2)]
      by (simp_all add: volatile_ok_def pending_ok_def tasks_ok_def applied_ok_def becomeLeader_def Let_def
          resetHeartbeatTimer_def split: prod.split)
    then have "node_wf B n'" "rn_id n' = rn_id (cl_node cl a)" "rn_peers n' = rn_peers (cl_node cl a)"
        "rn_cfg n' = rn_cfg (cl_node cl a)"
      using finish(6) l leader_wf_becomeLeader [OF wf(3) [OF finish(2)]] wf(1) [OF finish(2)]
      by (simp_all add: finishElection_def node_wf_def volatile_ok_def)
    moreover have "requests_inv ids cl'" using rq finish(1) by (simp add: requests_inv_def)
    ultimately show ?thesis using cluster_wf_update [OF assms(2) finish(2)] finish(1) by simp
  next
    case (restart a n')
    have "steady B (cl_node cl a) n'"
      using boots_steady [OF restart(3)] wf(2,5-7) [OF restart(2)] configuredD(1) [OF assms(3) restart(2)] by simp
    then show ?thesis using upd [OF restart(2) _ boots_frame [OF restart(3)]] restart(1) rq
      by (simp add: requests_inv_def)
  qed
qed

lemma cluster_wf_reachable:
  assumes "reachable B E cfgs ids cl" "configured cfgs ids" "bolt_spec B" "bolt_writes_ok B"
  shows "cluster_wf B cfgs ids cl"
  using assms(1)
  by induction (use assms(2-4) cluster_wf_init cluster_wf_step in blast)+

text \<open>Every step of the cluster, restarts and elections included, moves terms and votes forward only.\<close>

lemma cluster_step_advances:
  assumes "cluster_step B E cfgs ids cl cl'" "cluster_wf B cfgs ids cl" "configured cfgs ids" "bolt_writes_ok B"
  shows "advances B (cl_node cl x) (cl_node cl' x)"
proof -
  have wf: "node_ok B (cl_node cl a)" "rn_id (cl_node cl a) = a" "rn_peers (cl_node cl a) = peers_of (cfgs a)"
      "rn_cfg (cl_node cl a) = cfgs a" if "a \<in> set ids" for a
    using assms(2) that by (simp_all add: cluster_wf_def node_wf_def)
  have upd: "advances B (cl_node cl x) (cl_node cl' x)"
    if "cl_node cl' = (cl_node cl)(a := n')" "advances B (cl_node cl a) n'" for a n' using that by simp
  show ?thesis
    using assms(1)
  proof (cases rule: cluster_step_cases)
    case (local a n')
    then show ?thesis using steady_advances [OF node_step_steady [OF local(4) assms(4) local(3)]] by (intro upd [of a]) simp_all
  next
    case (tick a n' go_on)
    then show ?thesis using steady_advances [OF run_ticks_steady(1) [of B "cl_node cl a"]] by (intro upd [of a]) simp_all
  next
    case (start a n' el)
    then show ?thesis using startElection_advances [OF assms(4) start(3,5,6)] by (intro upd [of a]) simp_all
  next
    case (request_vote v req n' resp)
    have "rvr_CandidateID req \<in> set ids"
      using assms(2) request_vote(4) by (simp add: cluster_wf_def requests_inv_def)
    note id = valid_id_savable [OF configuredD(2) [OF assms(3) this]]
    show ?thesis
      using HandleRequestVote_advances [OF assms(4) id request_vote(3,5)] request_vote(1) by (intro upd [of v]) simp_all
  next
    case (vote_response a el p r n' el')
    then show ?thesis
      using steady_advances [OF vote_reply_steady [OF assms(4) vote_response(7)]] by (intro upd [of a]) simp_all
  next
    case (finish a el n')
    then show ?thesis using finishElection_advances by (intro upd [of a]) simp_all
  next
    case (restart a n')
    have "steady B (cl_node cl a) n'"
      using boots_steady [OF restart(3)] wf [OF restart(2)] configuredD(1) [OF assms(3) restart(2)] by simp
    then show ?thesis using steady_advances restart(1) by (intro upd [of a]) simp_all
  qed
qed

lemma cluster_steps_advance:
  assumes "(cluster_step B E cfgs ids)\<^sup>*\<^sup>* cl cl'" "reachable B E cfgs ids cl" "configured cfgs ids" "bolt_spec B"
    "bolt_writes_ok B"
  shows "reachable B E cfgs ids cl'" "advances B (cl_node cl x) (cl_node cl' x)"
proof -
  have "reachable B E cfgs ids cl' \<and> advances B (cl_node cl x) (cl_node cl' x)"
    using assms(1)
  proof induction
    case (step y z)
    then have "advances B (cl_node y x) (cl_node z x)"
      using cluster_step_advances [OF _ cluster_wf_reachable [OF _ assms(3-5)] assms(3,5)] by blast
    then show ?case using step reachable.step advances_trans by blast
  qed (simp add: assms(2) advances_refl)
  then show "reachable B E cfgs ids cl'" "advances B (cl_node cl x) (cl_node cl' x)" by simp_all
qed

lemma reachable_node:
  assumes "reachable B E cfgs ids cl" "configured cfgs ids" "bolt_spec B" "bolt_writes_ok B" "a \<in> set ids"
  shows "node_ok B (cl_node cl a)" "leader_wf (cl_node cl a)" "rn_peers (cl_node cl a) = peers_of (cfgs a)"
    "volatile_ok (cl_node cl a)" "rn_id (cl_node cl a) = a"
  using cluster_wf_reachable [OF assms(1-4)] assms(5) by (simp_all add: cluster_wf_def node_wf_def volatile_ok_def)

text \<open>The replication record of a leader covers exactly the other members of the cluster.\<close>

lemma matchIndex_members:
  assumes "configured cfgs ids" "a \<in> set ids" "leader_wf n" "rn_peers n = peers_of (cfgs a)" "rn_leader n = Some ls"
  shows "length (matchIndex ls) + 1 = length ids"
    "{p. \<exists>i. map_of (matchIndex ls) p = Some i \<and> c \<le> i} = {q \<in> set ids - {a}. c \<le> index_get (matchIndex ls) q}"
proof -
  have wf: "distinct (map fst (matchIndex ls))" "fst ` set (matchIndex ls) = set ids - {a}"
    using assms(3-5) configuredD(5) [OF assms(1,2)] by (simp_all add: leader_wf_def)
  have "length (map fst (matchIndex ls)) = card (set ids - {a})"
    using distinct_card [OF wf(1)] wf(2) by simp
  moreover have "card (set ids) = length ids" using assms(1) distinct_card unfolding configured_def by blast
  moreover have "0 < length ids" using assms(2) by (cases ids) auto
  ultimately show "length (matchIndex ls) + 1 = length ids" using assms(2) by simp
  have "(\<exists>i. map_of (matchIndex ls) p = Some i \<and> c \<le> i) \<longleftrightarrow> p \<in> set ids - {a} \<and> c \<le> index_get (matchIndex ls) p" for p
  proof (cases "map_of (matchIndex ls) p")
    case None
    then have "p \<notin> set ids - {a}" using wf(2) by (simp add: map_of_eq_None_iff)
    then show ?thesis using None by simp
  next
    case (Some i)
    then have "p \<in> set ids - {a}" using wf(2) by (metis map_of_eq_None_iff option.distinct(1))
    then show ?thesis using Some by (simp add: index_get_def)
  qed
  then show "{p. \<exists>i. map_of (matchIndex ls) p = Some i \<and> c \<le> i} =
      {q \<in> set ids - {a}. c \<le> index_get (matchIndex ls) q}" by blast
qed

end
