(* ===== verification/Api_Spec.thy ===== *)
theory Api_Spec
  imports Api Cluster_Invariant
begin

text \<open>
  What the HTTP interface guarantees. The Raft endpoints are the handlers of the node behind a JSON
  codec: a request sent by the transport of one node and answered by the server of another is a
  direct call of the handler. The client endpoints redirect writes that reach a node that is
  not the leader without touching it, and read the contents of the storage engine. No request can
  break the invariant of the node, lower its term or change the vote it gave in a term.
\<close>

section \<open>Remote procedure calls\<close>

text \<open>
  The HTTP client of a node reaches the server of peer \<open>p\<close>, whose node is \<open>n\<close>: a POST is answered by
  the handler that the mux selects.
\<close>

definition post :: "string \<Rightarrow> bytes \<Rightarrow> http_request" where
  "post path data = \<lparr>rq_Method = ''POST'', rq_Path = path, rq_prefix = [], rq_Body = data\<rparr>"

definition reaches ::
  "(http_request \<Rightarrow> ('db, 'st) raft_node \<Rightarrow> ('db, 'st) raft_node \<times> http_response) \<Rightarrow> http_client \<Rightarrow> peer \<Rightarrow>
   ('db, 'st) raft_node \<Rightarrow> bool" where
  "reaches serve H p n \<longleftrightarrow> (\<forall>path data. hc_newRequest H (rpc_url p path) = None \<and>
     hc_do H (rpc_url p path) data =
       Inr (rs_Status (snd (serve (post path data) n)), rs_Body (snd (serve (post path data) n))))"

lemma decode_plain [json_simps]:
  "json_wf j \<Longrightarrow> decode d zero (print_json j) = d (json_clean j) zero"
  using decode_print [of j "[]" d zero] by simp

lemma decode_line [json_simps]:
  "json_wf j \<Longrightarrow> decode d zero (print_json j @ [CHR 0x0A]) = d (json_clean j) zero"
  by (rule decode_print) (simp_all add: ends_value_def num_char_def is_digit_def byte_in_def)

lemma writeJSON_simps [simp]:
  "rs_Status (writeJSON st v) = st" "rs_Body (writeJSON st v) = print_json v @ [CHR 0x0A]"
  by (simp_all add: writeJSON_def)

lemma raft_paths [simp]:
  "\<not> has_prefix (''/raft/append-entries'') (''/v1/keys/'')" "\<not> has_prefix (''/raft/append-entries'') (''/v1/cas/'')"
  "\<not> has_prefix (''/raft/request-vote'') (''/v1/keys/'')" "\<not> has_prefix (''/raft/request-vote'') (''/v1/cas/'')"
  "\<not> has_prefix (''/raft/install-snapshot'') (''/v1/keys/'')" "\<not> has_prefix (''/raft/install-snapshot'') (''/v1/cas/'')"
  by (simp_all add: has_prefix_def)

lemma serve_append_entries:
  assumes "HandleAppendEntries B (clean_aer req) n = (n', resp)"
  shows "routes ext upper B E wait (post ''/raft/append-entries'' (print_json (json_aer req))) n =
    (n', writeJSON 200 (json_aes resp))"
  by (simp add: routes_def post_def handleAppendEntries_def json_simps assms)

lemma serve_request_vote:
  assumes "HandleRequestVote B (clean_rvr req) n = (n', resp)"
  shows "routes ext upper B E wait (post ''/raft/request-vote'' (print_json (json_rvr req))) n =
    (n', writeJSON 200 (json_rvs resp))"
  by (simp add: routes_def post_def handleRequestVote_def json_simps assms)

lemma serve_install_snapshot:
  assumes "HandleInstallSnapshot B E (clean_isr req) n = (n', resp)"
  shows "routes ext upper B E wait (post ''/raft/install-snapshot'' (print_json (json_isr req))) n =
    (n', writeJSON 200 (json_iss resp))"
  by (simp add: routes_def post_def handleInstallSnapshot_def json_simps assms)

lemma rpc_connected:
  assumes "reaches serve H p n" "serve (post path (print_json body)) n = (n', writeJSON 200 reply)" "json_wf reply"
    "dec (json_clean reply) zero = Inr r"
  shows "rpc H now p path body dec zero t = (recordSuccess now (p_ID p) t, Inr r)"
  using assms by (simp add: rpc_def reaches_def Let_def decode_line)

section \<open>Writes at a node that is not the leader\<close>

definition redirect :: "('db, 'st) raft_node \<Rightarrow> http_response" where
  "redirect n = writeJSON 307 (JObj [(''error'', JStr ''not leader''), (''leader_id'', JStr (rn_leaderID n))])"

lemma answer_not_leader:
  "rn_state n \<noteq> Leader \<Longrightarrow> answer_proposal ext (propose_call B wait cmd n) = (n, redirect n)"
  by (simp add: propose_not_leader answer_proposal_def handleProposeError_def redirect_def)

lemma txn_not_leader:
  assumes "rn_state n \<noteq> Leader" "cmds \<noteq> []"
  shows "answer_proposal ext (propose_all lbl (propose_call B wait) i cmds n) = (n, redirect n)"
  using assms by (cases cmds)
    (simp_all add: propose_not_leader answer_proposal_def handleProposeError_def redirect_def)

section \<open>The invariant of the node\<close>

lemma propose_all_advances:
  assumes "bolt_writes_ok B" "admissible B E wait" "propose_all lbl (propose_call B wait) i cmds n = (n', r)"
  shows "advances B n n'"
  using assms(3)
proof (induction cmds arbitrary: i n)
  case (Cons cmd cmds)
  obtain m q where p: "propose_call B wait cmd n = (m, q)" by fastforce
  note st = propose_call_advances [OF assms(1,2) p]
  show ?case
  proof (cases q)
    case None
    then show ?thesis using Cons.IH [of "Suc i" m] Cons.prems p st advances_trans by auto
  next
    case (Some e)
    then show ?thesis using Cons.prems p st by simp
  qed
qed simp

lemma answer_advances: "advances B n (fst r) \<Longrightarrow> advances B n (fst (answer_proposal ext r))"
  by (cases r; cases "snd r") (simp_all add: answer_proposal_def)

lemma write_advances:
  assumes "bolt_writes_ok B" "admissible B E wait"
  shows "advances B n (fst (answer_proposal ext (propose_call B wait cmd n)))"
    "advances B n (fst (answer_proposal ext (propose_all lbl (propose_call B wait) i cmds n)))"
  using propose_call_advances [OF assms] propose_all_advances [OF assms] by (metis answer_advances prod.collapse)+

definition vote_savable :: "http_request \<Rightarrow> bool" where
  "vote_savable rq \<longleftrightarrow> (\<forall>req. decode dec_rvr zero_rvr (rq_Body rq) = Inr req \<longrightarrow> savable (rvr_CandidateID req))"

lemma raft_handlers_advances:
  assumes "bolt_writes_ok B" "\<not> rn_panicked n" "node_ok B n"
  shows "advances B n (fst (handleAppendEntries ext B rq n))"
    "vote_savable rq \<Longrightarrow> advances B n (fst (handleRequestVote ext B rq n))"
    "advances B n (fst (handleInstallSnapshot ext B E rq n))"
proof -
  show "advances B n (fst (handleAppendEntries ext B rq n))"
    using steady_advances [OF HandleAppendEntries_steady [OF _ _ prod.collapse [symmetric], of B n]] assms
    by (simp add: handleAppendEntries_def split: sum.split)
  show "vote_savable rq \<Longrightarrow> advances B n (fst (handleRequestVote ext B rq n))"
    using HandleRequestVote_advances [OF assms(1) _ assms(2) prod.collapse [symmetric]]
    by (simp add: handleRequestVote_def vote_savable_def split: sum.split)
  show "advances B n (fst (handleInstallSnapshot ext B E rq n))"
    by (simp add: handleInstallSnapshot_def steady_advances [OF HandleInstallSnapshot_steady [OF assms(1) prod.collapse [symmetric]]]
        split: sum.split)
qed

lemma client_handlers_advances:
  assumes "bolt_writes_ok B" "admissible B E wait"
  shows "advances B n (fst (handleKey ext B E wait rq n))"
    "advances B n (fst (handleCAS ext B wait rq n))"
    "advances B n (fst (handleTxn ext upper B wait rq n))"
  using write_advances [OF assms]
  by (simp_all add: handleKey_def putKey_def deleteKey_def handleCAS_def handleTxn_def Let_def split: sum.split)

lemma routes_advances:
  assumes "bolt_writes_ok B" "admissible B E wait" "\<not> rn_panicked n" "node_ok B n" "vote_savable rq"
  shows "advances B n (fst (routes ext upper B E wait rq n))"
  using raft_handlers_advances [OF assms(1,3,4)] client_handlers_advances [OF assms(1,2)] assms(5)
  by (simp add: routes_def Let_def)

section \<open>Reads\<close>

context storage_engine
begin

lemma get_response:
  assumes "ok (rn_storage n)"
  shows "getKey ext E key n =
    (case contents (rn_storage n) key of
       None \<Rightarrow> writeError 404 ''key not found''
     | Some v \<Rightarrow> writeJSON 200 (JObj [(''key'', JStr key), (''value'', JStr v)]))"
  by (simp add: getKey_def get_contents [OF assms] split: option.split)

lemma scan_response:
  assumes "ok (rn_storage n)"
  shows "\<exists>m. map_of m = (\<lambda>k. if has_prefix k (rq_prefix rq) then contents (rn_storage n) k else None) \<and>
    handleScan ext E rq n =
      writeJSON 200 (JObj [(''keys'', JObj (map (\<lambda>kv. (fst kv, JStr (snd kv))) (sort_key fst m)))])"
  using scan_contents [OF assms, of "rq_prefix rq"] by (auto simp: handleScan_def)

end

end
