(* ===== verification/Network.thy ===== *)
theory Network
  imports Cluster_Invariant Election_Runs
begin

text \<open>
  The cluster with its messages. \<open>Cluster\<close> lets AppendEntries and InstallSnapshot requests and
  replies be arbitrary values, which is the right setting for statements about every behaviour of
  the peers. Here they are the ones that the nodes send: a request is built by \<open>replicateToPeer\<close>,
  its reply by the handler of the addressee, and the goroutine that waits for the reply is listed in
  \<open>nw_calls\<close>. Requests may be delivered late, several times or never, and a call may time out at any
  moment. Snapshots are taken in the two phases of \<open>takeSnapshot\<close>, timers fire only when they are
  armed, and a node that restarts reopens its own files. Every run of the network is a run of the
  cluster, so what holds in \<open>Cluster\<close> holds here.
\<close>

section \<open>Messages\<close>

datatype reply = ReAppend append_entries_response | ReSnapshot install_snapshot_response

text \<open>
  The receiving side: the handler behind the route of the request, between the decoding of the
  request and the encoding of the reply.
\<close>

fun serve_rpc ::
  "'db bolt \<Rightarrow> 'st engine \<Rightarrow> rpc \<Rightarrow> ('db, 'st) raft_node \<Rightarrow> ('db, 'st) raft_node \<times> reply" where
  "serve_rpc B E (RpcAppendEntries req) n =
     (case HandleAppendEntries B (clean_aer req) n of (n', resp) \<Rightarrow> (n', ReAppend (clean_aes resp)))"
| "serve_rpc B E (RpcInstallSnapshot req) n =
     (case HandleInstallSnapshot B E (clean_isr req) n of (n', resp) \<Rightarrow> (n', ReSnapshot (clean_iss resp)))"

text \<open>The sending side: the rest of \<open>replicateToPeer\<close>, after the RPC has returned.\<close>

fun receive_reply ::
  "'db bolt \<Rightarrow> peer \<Rightarrow> rpc \<Rightarrow> reply \<Rightarrow> ('db, 'st) raft_node \<Rightarrow> ('db, 'st) raft_node" where
  "receive_reply B p (RpcAppendEntries req) (ReAppend resp) n = append_reply B p resp n"
| "receive_reply B p (RpcInstallSnapshot req) (ReSnapshot resp) n =
     snapshot_reply B p (isr_LastIncludedIndex req) resp n"
| "receive_reply B p _ _ n = n"

text \<open>Whom a request names as leader, and of which term.\<close>

fun rpc_sender :: "rpc \<Rightarrow> u64 \<times> string" where
  "rpc_sender (RpcAppendEntries req) = (aer_Term req, aer_LeaderID req)"
| "rpc_sender (RpcInstallSnapshot req) = (isr_Term req, isr_LeaderID req)"

section \<open>State\<close>

text \<open>
  \<open>nw_proposed\<close> collects the commands that clients have submitted. \<open>nw_snaps\<close> lists the goroutines
  of \<open>takeSnapshot\<close> that have serialised the store and not yet compacted the log.
\<close>

record ('db, 'st) network =
  nw_cl :: "('db, 'st) cluster"
  nw_sent :: "(string \<times> rpc) set"
  nw_replies :: "(string \<times> rpc \<times> reply) set"
  nw_calls :: "(string \<times> peer \<times> rpc) list"
  nw_snaps :: "(string \<times> u64 \<times> u64 \<times> bytes go) list"
  nw_proposed :: "command set"

abbreviation nw_node :: "('db, 'st) network \<Rightarrow> string \<Rightarrow> ('db, 'st) raft_node" where
  "nw_node s \<equiv> cl_node (nw_cl s)"

abbreviation put_node ::
  "string \<Rightarrow> ('db, 'st) raft_node \<Rightarrow> ('db, 'st) network \<Rightarrow> ('db, 'st) network" where
  "put_node a n s \<equiv> s\<lparr>nw_cl := set_node a n (nw_cl s)\<rparr>"

abbreviation drop_task :: "task \<Rightarrow> ('db, 'st) raft_node \<Rightarrow> ('db, 'st) raft_node" where
  "drop_task t n \<equiv> n\<lparr>rn_tasks := remove1 t (rn_tasks n)\<rparr>"

text \<open>How the store of a node comes up: for the first time, and after a restart.\<close>

record 'st store_files =
  sf_new :: "config \<Rightarrow> 'st \<Rightarrow> bool"
  sf_reopen :: "config \<Rightarrow> 'st \<Rightarrow> 'st \<Rightarrow> bool"

definition net_init ::
  "'db bolt \<Rightarrow> 'st store_files \<Rightarrow> (string \<Rightarrow> config) \<Rightarrow> string list \<Rightarrow> ('db, 'st) network \<Rightarrow> bool" where
  "net_init B F cfgs ids s \<longleftrightarrow> cluster_init B cfgs ids (nw_cl s) \<and>
     (\<forall>a\<in>set ids. sf_new F (cfgs a) (rn_storage (nw_node s a))) \<and>
     nw_sent s = {} \<and> nw_replies s = {} \<and> nw_calls s = [] \<and> nw_snaps s = [] \<and> nw_proposed s = {}"

section \<open>Steps\<close>

inductive net_step ::
  "'db bolt \<Rightarrow> 'st engine \<Rightarrow> 'st store_files \<Rightarrow> (string \<Rightarrow> config) \<Rightarrow> string list \<Rightarrow>
   ('db, 'st) network \<Rightarrow> ('db, 'st) network \<Rightarrow> bool"
  for B :: "'db bolt" and E :: "'st engine" and F :: "'st store_files" and cfgs :: "string \<Rightarrow> config"
    and ids :: "string list" where
  election: "election_step B ids (nw_cl s) cl' \<Longrightarrow> net_step B E F cfgs ids s (s\<lparr>nw_cl := cl'\<rparr>)"
| heartbeat: "a \<in> set ids \<Longrightarrow> \<not> rn_panicked (nw_node s a) \<Longrightarrow> cl_run (nw_cl s) a = Idle \<Longrightarrow>
    rn_heartbeatTimer (nw_node s a) \<in> range Armed \<Longrightarrow>
    net_step B E F cfgs ids s (put_node a (run_heartbeatTick (nw_node s a)) s)"
| send: "a \<in> set ids \<Longrightarrow> \<not> rn_panicked (nw_node s a) \<Longrightarrow> TReplicate p \<in> set (rn_tasks (nw_node s a)) \<Longrightarrow>
    replicateToPeer B p (drop_task (TReplicate p) (nw_node s a)) = (n', Some rpc) \<Longrightarrow>
    net_step B E F cfgs ids s
      (put_node a n' (s\<lparr>nw_sent := insert (p_ID p, rpc) (nw_sent s), nw_calls := nw_calls s @ [(a, p, rpc)]\<rparr>))"
| send_nothing: "a \<in> set ids \<Longrightarrow> \<not> rn_panicked (nw_node s a) \<Longrightarrow> TReplicate p \<in> set (rn_tasks (nw_node s a)) \<Longrightarrow>
    replicateToPeer B p (drop_task (TReplicate p) (nw_node s a)) = (n', None) \<Longrightarrow>
    net_step B E F cfgs ids s (put_node a n' s)"
| deliver: "q \<in> set ids \<Longrightarrow> \<not> rn_panicked (nw_node s q) \<Longrightarrow> (q, rpc) \<in> nw_sent s \<Longrightarrow>
    serve_rpc B E rpc (nw_node s q) = (n', r) \<Longrightarrow>
    net_step B E F cfgs ids s (put_node q n' (s\<lparr>nw_replies := insert (q, rpc, r) (nw_replies s)\<rparr>))"
| answer: "a \<in> set ids \<Longrightarrow> \<not> rn_panicked (nw_node s a) \<Longrightarrow> (a, p, rpc) \<in> set (nw_calls s) \<Longrightarrow>
    (p_ID p, rpc, r) \<in> nw_replies s \<Longrightarrow>
    net_step B E F cfgs ids s
      (put_node a (receive_reply B p rpc r (nw_node s a)) (s\<lparr>nw_calls := remove1 (a, p, rpc) (nw_calls s)\<rparr>))"
| timeout: "net_step B E F cfgs ids s (s\<lparr>nw_calls := remove1 c (nw_calls s)\<rparr>)"
| apply_task: "a \<in> set ids \<Longrightarrow> \<not> rn_panicked (nw_node s a) \<Longrightarrow> TApplyCommitted \<in> set (rn_tasks (nw_node s a)) \<Longrightarrow>
    net_step B E F cfgs ids s (put_node a (applyCommitted B E (drop_task TApplyCommitted (nw_node s a))) s)"
| snapshot_read: "a \<in> set ids \<Longrightarrow> \<not> rn_panicked (nw_node s a) \<Longrightarrow>
    TTakeSnapshot i t \<in> set (rn_tasks (nw_node s a)) \<Longrightarrow>
    net_step B E F cfgs ids s
      (s\<lparr>nw_snaps := nw_snaps s @ [(a, i, t, takeSnapshot_data E (nw_node s a))]\<rparr>)"
| snapshot_write: "a \<in> set ids \<Longrightarrow> \<not> rn_panicked (nw_node s a) \<Longrightarrow> (a, i, t, data) \<in> set (nw_snaps s) \<Longrightarrow>
    TTakeSnapshot i t \<in> set (rn_tasks (nw_node s a)) \<Longrightarrow>
    net_step B E F cfgs ids s
      (put_node a (takeSnapshot B i t data (drop_task (TTakeSnapshot i t) (nw_node s a)))
        (s\<lparr>nw_snaps := remove1 (a, i, t, data) (nw_snaps s)\<rparr>))"
| propose: "a \<in> set ids \<Longrightarrow> \<not> rn_panicked (nw_node s a) \<Longrightarrow> propose_append B cmd (nw_node s a) = (n', r) \<Longrightarrow>
    net_step B E F cfgs ids s (put_node a n' (s\<lparr>nw_proposed := insert cmd (nw_proposed s)\<rparr>))"
| broadcast: "a \<in> set ids \<Longrightarrow> \<not> rn_panicked (nw_node s a) \<Longrightarrow>
    net_step B E F cfgs ids s (put_node a (broadcastAppendEntries (nw_node s a)) s)"
| propose_wait: "a \<in> set ids \<Longrightarrow> \<not> rn_panicked (nw_node s a) \<Longrightarrow> Propose_wait wk w (nw_node s a) = (n', res) \<Longrightarrow>
    net_step B E F cfgs ids s (put_node a n' s)"
| stop: "a \<in> set ids \<Longrightarrow> \<not> rn_panicked (nw_node s a) \<Longrightarrow>
    net_step B E F cfgs ids s (put_node a (Stop_signal (nw_node s a)) s)"
| restart: "a \<in> set ids \<Longrightarrow> sf_reopen F (cfgs a) (rn_storage (nw_node s a)) st \<Longrightarrow>
    boots_on B (cfgs a) (rl_db (rn_raftLog (nw_node s a))) st n' \<Longrightarrow>
    net_step B E F cfgs ids s (s\<lparr>nw_cl := set_node a n' (set_run a Idle (nw_cl s)),
      nw_calls := filter (\<lambda>c. fst c \<noteq> a) (nw_calls s), nw_snaps := filter (\<lambda>c. fst c \<noteq> a) (nw_snaps s)\<rparr>)"

inductive net_reachable ::
  "'db bolt \<Rightarrow> 'st engine \<Rightarrow> 'st store_files \<Rightarrow> (string \<Rightarrow> config) \<Rightarrow> string list \<Rightarrow> ('db, 'st) network \<Rightarrow> bool"
  for B :: "'db bolt" and E :: "'st engine" and F :: "'st store_files" and cfgs :: "string \<Rightarrow> config"
    and ids :: "string list" where
  init: "net_init B F cfgs ids s \<Longrightarrow> net_reachable B E F cfgs ids s"
| step: "net_reachable B E F cfgs ids s \<Longrightarrow> net_step B E F cfgs ids s s' \<Longrightarrow> net_reachable B E F cfgs ids s'"

section \<open>Refinement of the cluster\<close>

text \<open>Requests go to peers only, so the reply to a call comes from a peer.\<close>

definition calls_ok :: "(string \<Rightarrow> config) \<Rightarrow> ('db, 'st) network \<Rightarrow> bool" where
  "calls_ok cfgs s \<longleftrightarrow> (\<forall>(a, p, rpc)\<in>set (nw_calls s). p \<in> set (peers_of (cfgs a)))"

lemma serve_rpc_step: "serve_rpc B E rpc n = (n', r) \<Longrightarrow> node_step B E n n'"
  by (cases rpc) (auto split: prod.splits intro: node_step.append_entries node_step.install_snapshot)

lemma receive_reply_step: "p \<in> set (rn_peers n) \<Longrightarrow> receive_reply B p rpc r n = n \<or> node_step B E n (receive_reply B p rpc r n)"
  by (cases rpc; cases r) (simp_all add: node_step.append_response node_step.snapshot_response)

lemma net_step_calls:
  assumes "net_step B E F cfgs ids s s'" "calls_ok cfgs s" "cluster_wf B cfgs ids (nw_cl s)"
  shows "calls_ok cfgs s'"
  using assms(1)
proof cases
  case (send a p n' rpc)
  have "tasks_ok (nw_node s a)" "rn_peers (nw_node s a) = peers_of (cfgs a)"
    using assms(3) send(2) by (simp_all add: cluster_wf_def node_wf_def volatile_ok_def)
  then show ?thesis using send assms(2) by (auto simp: calls_ok_def tasks_ok_def)
next
  case (answer a p rpc r)
  then show ?thesis using assms(2) set_remove1_subset [of "(a, p, rpc)" "nw_calls s"] by (auto simp: calls_ok_def)
next
  case (timeout c)
  then show ?thesis using assms(2) set_remove1_subset [of c "nw_calls s"] by (auto simp: calls_ok_def)
qed (use assms(2) in \<open>auto simp: calls_ok_def\<close>)

lemma net_step_sim:
  assumes "net_step B E F cfgs ids s s'" "calls_ok cfgs s" "cluster_wf B cfgs ids (nw_cl s)"
  shows "nw_cl s' = nw_cl s \<or> cluster_step B E cfgs ids (nw_cl s) (nw_cl s')"
proof -
  have loc: "cluster_step B E cfgs ids (nw_cl s) (set_node a n' (nw_cl s))"
    if "a \<in> set ids" "\<not> rn_panicked (nw_node s a)" "node_step B E (nw_node s a) n'" for a n'
    using that by (rule cluster_step.local)
  show ?thesis
    using assms(1)
  proof cases
    case (answer a p rpc r)
    have "p \<in> set (rn_peers (nw_node s a))"
      using assms(2,3) answer(2,4) by (auto simp: calls_ok_def cluster_wf_def)
    from receive_reply_step [OF this, of B rpc r E] show ?thesis
      by (elim disjE) (use answer(1) loc [OF answer(2,3)] in simp_all)
  next
    case (deliver q rpc n' r)
    then show ?thesis using loc [OF _ _ serve_rpc_step] by auto
  next
    case (restart a st n')
    from cluster_step.restart [where cfgs = cfgs and cl = "nw_cl s", OF restart(2) boots_on_boots [OF restart(4)]]
    show ?thesis using restart(1) by simp
  qed (auto intro: loc cluster_step.election node_step.intros)
qed

lemma net_reachable_cluster:
  assumes "net_reachable B E F cfgs ids s" "configured cfgs ids" "bolt_spec B" "bolt_writes_ok B"
  shows "reachable B E cfgs ids (nw_cl s)" "calls_ok cfgs s"
proof -
  have "reachable B E cfgs ids (nw_cl s) \<and> calls_ok cfgs s"
    using assms(1)
  proof induction
    case (init s)
    then show ?case by (auto simp: net_init_def calls_ok_def intro: reachable.init)
  next
    case (step s s')
    have wf: "cluster_wf B cfgs ids (nw_cl s)" using cluster_wf_reachable step.IH assms(2-4) by blast
    show ?case
      using net_step_sim [OF step.hyps(2) _ wf] net_step_calls [OF step.hyps(2) _ wf] step.IH
      by (auto intro: reachable.step)
  qed
  then show "reachable B E cfgs ids (nw_cl s)" "calls_ok cfgs s" by blast+
qed

lemmas net_node = reachable_node [OF net_reachable_cluster(1)]

lemma net_elects:
  assumes "elects B ids (nw_cl s) cl'" "net_reachable B E F cfgs ids s"
  shows "net_reachable B E F cfgs ids (s\<lparr>nw_cl := cl'\<rparr>)"
  using assms(1)
proof induction
  case base
  then show ?case using assms(2) by simp
next
  case (step cl1 cl2)
  have "net_step B E F cfgs ids (s\<lparr>nw_cl := cl1\<rparr>) (s\<lparr>nw_cl := cl2\<rparr>)"
    using net_step.election [of B ids "s\<lparr>nw_cl := cl1\<rparr>" cl2] step.hyps(2) by simp
  with step.IH show ?case by (rule net_reachable.step)
qed

end
