(* ===== verification/Provenance.thy ===== *)
theory Provenance
  imports Network
begin

text \<open>
  Where the data of a cluster comes from. Every entry of every log carries a command that a client
  proposed, or the no-op of a new leader, and the term of an elected leader; every request was
  sent by the leader elected in its term; every value in a store was written by a proposed command,
  also when it came with a snapshot or survived a restart. Values only travel along the paths that
  the code has: \<open>Propose\<close>, \<open>AppendEntries\<close>, the apply loop, \<open>takeSnapshot\<close> and \<open>InstallSnapshot\<close>.
\<close>

section \<open>Sources\<close>

definition noop_command :: command where
  "noop_command = zero_command\<lparr>c_Op := OpNoop\<rparr>"

definition sourced_cmd :: "command set \<Rightarrow> command \<Rightarrow> bool" where
  "sourced_cmd P c \<longleftrightarrow> c = noop_command \<or> c \<in> clean_command ` P"

definition sourced :: "command set \<Rightarrow> (u64 \<times> string) set \<Rightarrow> log_entry \<Rightarrow> bool" where
  "sourced P El e \<longleftrightarrow> sourced_cmd P (le_Command e) \<and> (\<exists>a. (le_Term e, a) \<in> El)"

definition written_by :: "command set \<Rightarrow> kv_map \<Rightarrow> bool" where
  "written_by P m \<longleftrightarrow> (\<forall>k v. m k = Some v \<longrightarrow>
     (\<exists>c\<in>P. c_Op (clean_command c) \<in> {OpPut, OpCAS} \<and> c_Key (clean_command c) = k \<and> c_Value c = v))"

definition sourced_data :: "command set \<Rightarrow> bytes \<Rightarrow> bool" where
  "sourced_data P d \<longleftrightarrow> (\<exists>e. unmarshal_bytes_map d = Inl e) \<or> (\<exists>m. snapshot_denotes d m \<and> written_by P m)"

lemma sourced_data_Nil: "sourced_data P []"
proof -
  have "isl (unmarshal_bytes_map [])" by code_simp
  then show ?thesis by (cases "unmarshal_bytes_map []") (auto simp: sourced_data_def)
qed

definition sourced_rpc :: "command set \<Rightarrow> (u64 \<times> string) set \<Rightarrow> rpc \<Rightarrow> bool" where
  "sourced_rpc P El rpc \<longleftrightarrow> (case rpc of
     RpcAppendEntries req \<Rightarrow> (aer_Term req, aer_LeaderID req) \<in> El \<and> (\<forall>e\<in>set (aer_Entries req). sourced P El e)
   | RpcInstallSnapshot req \<Rightarrow> (isr_Term req, isr_LeaderID req) \<in> El \<and> sourced_data P (isr_Data req))"

definition sourced_log :: "'db bolt \<Rightarrow> command set \<Rightarrow> (u64 \<times> string) set \<Rightarrow> 'db raft_log \<Rightarrow> bool" where
  "sourced_log B P El rl \<longleftrightarrow> (\<forall>i e. log_at B rl i = Some e \<longrightarrow> sourced P El e)"

lemma sourced_rpc_sender: "sourced_rpc P El rpc \<Longrightarrow> rpc_sender rpc \<in> El"
  by (cases rpc) (simp_all add: sourced_rpc_def)

lemma sourced_mono:
  assumes "P \<subseteq> P'" "El \<subseteq> El'"
  shows "sourced P El e \<Longrightarrow> sourced P' El' e" "written_by P m \<Longrightarrow> written_by P' m"
    "sourced_data P d \<Longrightarrow> sourced_data P' d" "sourced_rpc P El rpc \<Longrightarrow> sourced_rpc P' El' rpc"
    "sourced_log B P El rl \<Longrightarrow> sourced_log B P' El' rl"
proof -
  show e: "sourced P El e \<Longrightarrow> sourced P' El' e" for e
    using assms by (auto simp: sourced_def sourced_cmd_def)
  show w: "written_by P m \<Longrightarrow> written_by P' m" for m
    using assms unfolding written_by_def by blast
  show d: "sourced_data P d \<Longrightarrow> sourced_data P' d" for d
    using w unfolding sourced_data_def by blast
  show "sourced_rpc P El rpc \<Longrightarrow> sourced_rpc P' El' rpc"
    using e d assms(2) by (cases rpc) (auto simp: sourced_rpc_def)
  show "sourced_log B P El rl \<Longrightarrow> sourced_log B P' El' rl"
    using e by (auto simp: sourced_log_def)
qed

text \<open>A trip through JSON does not change a sourced entry.\<close>

lemma clean_noop_command [simp]: "clean_command noop_command = noop_command"
  using clean_noop [of 0 0] by (simp add: clean_entry_def noop_entry_def noop_command_def)

lemma sourced_cmd_clean: "sourced_cmd P c \<Longrightarrow> clean_command c = c"
  by (auto simp: sourced_cmd_def)

lemma sourced_clean: "sourced P El e \<Longrightarrow> clean_entry e = e"
  using sourced_cmd_clean [of P "le_Command e"] by (simp add: sourced_def clean_entry_def)

lemma sourced_noop: "(t, a) \<in> El \<Longrightarrow> sourced P El (noop_entry i t)"
  by (auto simp: sourced_def sourced_cmd_def noop_entry_def noop_command_def)

lemma written_valid: "written_by P m \<Longrightarrow> \<forall>k. m k \<noteq> None \<longrightarrow> utf8_valid k"
  by (fastforce simp: written_by_def clean_command_def)

lemma kv_apply_written:
  assumes "written_by P m" "sourced_cmd P c"
  shows "written_by P (fst (kv_apply c m))"
proof (cases "c = noop_command")
  case True
  then show ?thesis using assms(1) by (simp add: kv_apply_def noop_command_def)
next
  case False
  then obtain c0 where c0: "c0 \<in> P" "c = clean_command c0" using assms(2) by (auto simp: sourced_cmd_def)
  have v: "c_Value c0 = c_Value c" using c0(2) by (simp add: clean_command_def)
  have "written_by P (m(c_Key c \<mapsto> c_Value c))" if "c_Op c \<in> {OpPut, OpCAS}"
    using assms(1) c0 v that by (auto simp: written_by_def)
  moreover have "written_by P (m(c_Key c := None))" using assms(1) by (auto simp: written_by_def)
  ultimately show ?thesis using assms(1) by (auto simp: kv_apply_def)
qed

section \<open>Operations on the log\<close>

lemma sourced_log_cong: "log_at B rl' = log_at B rl \<Longrightarrow> sourced_log B P El rl' = sourced_log B P El rl"
  by (simp add: sourced_log_def)

lemma sourced_SaveMeta: "rl_ok B rl \<Longrightarrow> sourced_log B P El (fst (SaveMeta B t v rl)) = sourced_log B P El rl"
  using SaveMeta_log(2) by (rule sourced_log_cong)

lemma sourced_Append:
  assumes "rl_ok B rl" "Append B e rl = (rl', err)" "sourced_log B P El rl" "sourced P El (clean_entry e)"
  shows "sourced_log B P El rl'"
proof (cases err)
  case None
  then show ?thesis using Append_commit(2) [OF assms(1)] assms(2-4) by (auto simp: sourced_log_def split: if_splits)
next
  case (Some e')
  then show ?thesis using Append_fail assms(2,3) by blast
qed

lemma sourced_TruncateFrom:
  assumes "rl_ok B rl" "TruncateFrom B i rl = (rl', err)" "sourced_log B P El rl"
  shows "sourced_log B P El rl'"
proof (cases err)
  case None
  then show ?thesis using TruncateFrom_commit(2) [OF assms(1)] assms(2,3) by (auto simp: sourced_log_def split: if_splits)
next
  case (Some e')
  then show ?thesis using TruncateFrom_fail assms(2,3) by blast
qed

lemma sourced_Compact:
  assumes "rl_ok B rl" "Compact B i t rl = (rl', err)" "sourced_log B P El rl"
  shows "sourced_log B P El rl'"
proof (cases err)
  case None
  then show ?thesis using Compact_commit(2) [OF assms(1)] assms(2,3) by (auto simp: sourced_log_def split: if_splits)
next
  case (Some e')
  then show ?thesis using Compact_fail assms(2,3) by blast
qed

lemma sourced_ae_append:
  assumes "rl_ok B rl" "ae_append B idx es rl = (rl', b)" "sourced_log B P El rl" "\<forall>e\<in>set es. sourced P El e"
  shows "sourced_log B P El rl'"
  using assms
proof (induction es arbitrary: idx rl)
  case (Cons e es)
  let ?t = "TermAt B rl idx"
  obtain rl1 e1 where s1: "(if ?t \<noteq> 0 \<and> ?t \<noteq> le_Term e then TruncateFrom B idx rl else (rl, None)) = (rl1, e1)"
    by fastforce
  have k1: "rl_ok B rl1" "sourced_log B P El rl1"
    using s1 Cons.prems(1,3) rl_ok_TruncateFrom sourced_TruncateFrom by (metis prod.inject)+
  obtain rl2 e2 where s2: "(if ?t = 0 then Append B e rl1 else (rl1, None)) = (rl2, e2)" by fastforce
  have "sourced P El (clean_entry e)" using Cons.prems(4) sourced_clean [of P El e] by simp
  then have k2: "rl_ok B rl2" "sourced_log B P El rl2"
    using s2 k1 rl_ok_Append sourced_Append by (metis prod.inject)+
  have "ae_append B idx (e # es) rl = (if e1 \<noteq> None then (rl1, False)
      else if e2 \<noteq> None then (rl2, False) else ae_append B (idx + 1) es rl2)"
    using s1 s2 by (cases e1; cases e2) (simp_all add: Let_def)
  then show ?case using Cons.IH [OF k2(1) _ k2(2)] Cons.prems(2,4) k1(2) k2(2) by (auto split: if_splits)
qed simp

lemma GetRange_sourced:
  assumes "GetRange B i to rl = Inr es" "sourced_log B P El rl"
  shows "\<forall>e\<in>set es. sourced P El e"
  using assms
proof (induction B i to rl arbitrary: es rule: GetRange.induct)
  case (1 B i to rl)
  have op: "\<not> rl_closed rl" using "1.prems"(1) by (subst (asm) GetRange.simps) (auto split: if_splits)
  show ?case
  proof (cases "i \<le> to \<and> bk_Get B (rl_db rl) logBucket (indexKey i) \<noteq> None")
    case False
    then have "es = []" using "1.prems"(1) by (subst (asm) GetRange.simps) (auto split: if_splits option.splits)
    then show ?thesis by simp
  next
    case True
    then obtain data where data: "bk_Get B (rl_db rl) logBucket (indexKey i) = Some data" by auto
    then obtain e where e: "unmarshal dec_entry zero_entry data = Inr e"
      using "1.prems"(1) True op by (subst (asm) GetRange.simps) (auto split: sum.splits)
    have "log_at B rl i = Some e" using data e op by (simp add: log_at_def Get_def)
    then have se: "sourced P El e" using "1.prems"(2) by (auto simp: sourced_log_def)
    show ?thesis
    proof (cases "i = to")
      case eq: True
      then have "es = [e]" using "1.prems"(1) True op data e by (subst (asm) GetRange.simps) simp
      then show ?thesis using se by simp
    next
      case ne: False
      then obtain rest where r: "GetRange B (i + 1) to rl = Inr rest" "es = e # rest"
        using "1.prems"(1) True op data e by (subst (asm) GetRange.simps) (auto split: sum.splits)
      then show ?thesis using "1.IH" [OF op _ data e ne r(1) "1.prems"(2)] True se by simp
    qed
  qed
qed

section \<open>Operations of a node\<close>

text \<open>
  What the contract of the store must say for this: a new store is empty, a restart loses all or
  nothing, and data that is no snapshot is refused.
\<close>

locale durable_engine = storage_engine E ok contents
  for E :: "'st engine" and ok :: "'st \<Rightarrow> bool" and contents :: "'st \<Rightarrow> string \<rightharpoonup> bytes" +
  fixes F :: "'st store_files"
  assumes new_store: "sf_new F cfg s \<Longrightarrow> ok s \<and> contents s = Map.empty"
    and reopened_store: "ok s \<Longrightarrow> sf_reopen F cfg s s' \<Longrightarrow> ok s' \<and> contents s' \<in> {contents s, Map.empty}"
    and restore_refuses: "unmarshal_bytes_map d = Inl e \<Longrightarrow> eng_RestoreSnapshot E d s = (s, Some e)"

definition sourced_node ::
  "'db bolt \<Rightarrow> ('st \<Rightarrow> bool) \<Rightarrow> ('st \<Rightarrow> kv_map) \<Rightarrow> command set \<Rightarrow> (u64 \<times> string) set \<Rightarrow> ('db, 'st) raft_node \<Rightarrow> bool" where
  "sourced_node B ok contents P El n \<longleftrightarrow> sourced_log B P El (rn_raftLog n) \<and> ok (rn_storage n) \<and>
     written_by P (contents (rn_storage n)) \<and> sourced_data P (rn_snapshotData n)"

lemma sourced_node_mono:
  "sourced_node B ok contents P El n \<Longrightarrow> P \<subseteq> P' \<Longrightarrow> El \<subseteq> El' \<Longrightarrow> sourced_node B ok contents P' El' n"
  using sourced_mono [of P P' El El'] by (auto simp: sourced_node_def)

lemma sourced_node_cong:
  "log_at B (rn_raftLog n') = log_at B (rn_raftLog n) \<Longrightarrow> rn_storage n' = rn_storage n \<Longrightarrow>
   rn_snapshotData n' = rn_snapshotData n \<Longrightarrow>
   sourced_node B ok contents P El n' = sourced_node B ok contents P El n"
  by (simp add: sourced_node_def sourced_log_def)

lemma sourced_node_log:
  "sourced_node B ok contents P El n \<Longrightarrow> sourced_log B P El rl \<Longrightarrow> sourced_node B ok contents P El (n\<lparr>rn_raftLog := rl\<rparr>)"
  by (simp add: sourced_node_def)

lemma sourced_becomeFollower:
  "rl_ok B (rn_raftLog n) \<Longrightarrow> sourced_node B ok contents P El (becomeFollower B t n) = sourced_node B ok contents P El n"
  by (rule sourced_node_cong) (simp_all add: SaveMeta_log(2))

lemma sourced_reset: "sourced_node B ok contents P El (resetElectionTimer n) = sourced_node B ok contents P El n"
  by (rule sourced_node_cong) simp_all

lemma sourced_startElection:
  "rl_ok B (rn_raftLog n) \<Longrightarrow>
   sourced_node B ok contents P El (fst (startElection B n)) = sourced_node B ok contents P El n"
  by (rule sourced_node_cong) (simp_all add: startElection_def Let_def SaveMeta_log(2))

lemma sourced_HandleRequestVote:
  assumes "node_ok B n" "\<not> rn_panicked n" "HandleRequestVote B req n = (n', resp)"
  shows "sourced_node B ok contents P El n' = sourced_node B ok contents P El n"
proof -
  have tm: "timer_ok (rn_cfg n)" and rl: "rl_ok B (rn_raftLog n)" using assms(1) by (simp_all add: node_ok_def)
  have e: "log_at B (rn_raftLog (rv_enter B req n)) = log_at B (rn_raftLog n)" "rl_ok B (rn_raftLog (rv_enter B req n))"
      "rn_storage (rv_enter B req n) = rn_storage n" "rn_snapshotData (rv_enter B req n) = rn_snapshotData n"
    using SaveMeta_log(1,2) [OF rl] rl by (simp_all add: rv_enter_def)
  have "log_at B (rn_raftLog n') = log_at B (rn_raftLog n) \<and> rn_storage n' = rn_storage n \<and> rn_snapshotData n' = rn_snapshotData n"
    using assms(3) e SaveMeta_log(2) [OF e(2)]
    by (auto simp: HandleRequestVote_eq [OF tm assms(2)] cast_vote_def split: if_splits)
  then show ?thesis by (intro sourced_node_cong) simp_all
qed

lemma sourced_vote_reply:
  "rl_ok B (rn_raftLog n) \<Longrightarrow> vote_reply B p r el n = (n', el') \<Longrightarrow>
   sourced_node B ok contents P El n' = sourced_node B ok contents P El n"
  by (auto simp: vote_reply_def Let_def sourced_becomeFollower split: option.splits if_splits)

lemma sourced_becomeLeader:
  assumes "rl_ok B (rn_raftLog n)" "sourced_node B ok contents P El n" "(rn_currentTerm n, a) \<in> El"
  shows "sourced_node B ok contents P El (becomeLeader B n)"
proof -
  let ?e = "noop_entry (LastIndex B (rn_raftLog n) + 1) (rn_currentTerm n)"
  obtain rl err where a: "Append B ?e (rn_raftLog n) = (rl, err)" by fastforce
  have "sourced_log B P El rl"
    using sourced_Append [OF assms(1) a] assms(2) sourced_noop [OF assms(3)] by (simp add: clean_noop sourced_node_def)
  then show ?thesis using assms(2) a
    by (simp add: becomeLeader_def Let_def sourced_node_def resetHeartbeatTimer_def)
qed

lemma sourced_HandleAppendEntries:
  assumes "node_ok B n" "\<not> rn_panicked n" "HandleAppendEntries B req n = (n', resp)"
    "sourced_node B ok contents P El n" "\<forall>e\<in>set (aer_Entries req). sourced P El e"
  shows "sourced_node B ok contents P El n'"
proof -
  have tm: "timer_ok (rn_cfg n)" and rl: "rl_ok B (rn_raftLog n)" using assms(1) by (simp_all add: node_ok_def)
  let ?m = "ae_enter B req n"
  have m: "rl_ok B (rn_raftLog ?m)" "log_at B (rn_raftLog ?m) = log_at B (rn_raftLog n)"
    using SaveMeta_log(1,2) [OF rl] rl by simp_all
  have sm: "sourced_node B ok contents P El ?m"
    using sourced_node_cong [of B ?m n] m(2) assms(4) by (simp add: ae_enter_def Let_def)
  then have "sourced_log B P El (rn_raftLog ?m)" by (simp add: sourced_node_def)
  note app = sourced_ae_append [OF m(1) _ this assms(5)]
  from tm assms(2,3) show ?thesis
  proof (cases rule: HandleAppendEntries_cases)
    case stale
    then show ?thesis using assms(4) by simp
  next
    case reject
    then show ?thesis using sm by simp
  next
    case (failed rl')
    then show ?thesis using sourced_node_log [OF sm app] by simp
  next
    case (accept rl')
    have "sourced_node B ok contents P El (?m\<lparr>rn_raftLog := rl'\<rparr>)" by (rule sourced_node_log [OF sm app [OF accept(3)]])
    then show ?thesis unfolding accept(4)
      using sourced_node_cong [of B "ae_commit req (?m\<lparr>rn_raftLog := rl'\<rparr>)" "?m\<lparr>rn_raftLog := rl'\<rparr>"]
      by (simp add: ae_commit_def Let_def)
  qed
qed

lemma sourced_replies:
  assumes "rl_ok B (rn_raftLog n)"
  shows "sourced_node B ok contents P El (append_reply B p resp n) = sourced_node B ok contents P El n"
    "sourced_node B ok contents P El (snapshot_reply B p i sresp n) = sourced_node B ok contents P El n"
  using sourced_becomeFollower [OF assms]
  by (auto simp: append_reply_def snapshot_reply_def Let_def sourced_node_def split: option.split)

lemma sourced_takeSnapshot:
  assumes "rl_ok B (rn_raftLog n)" "sourced_node B ok contents P El n" "\<And>d. data = Inr d \<Longrightarrow> sourced_data P d"
  shows "sourced_node B ok contents P El (takeSnapshot B i t data n)"
  using assms sourced_Compact [OF assms(1)]
  by (auto simp: takeSnapshot_def sourced_node_def split: sum.split prod.split option.split)

lemma sourced_propose:
  assumes "rl_ok B (rn_raftLog n)" "sourced_node B ok contents P El n" "propose_append B cmd n = (n', r)" "cmd \<in> P"
    "rn_state n = Leader \<Longrightarrow> (rn_currentTerm n, a) \<in> El"
  shows "sourced_node B ok contents P El n'"
proof (cases "rn_state n = Leader")
  case True
  let ?e = "\<lparr>le_Index = LastIndex B (rn_raftLog n) + 1, le_Term = rn_currentTerm n, le_Command = cmd\<rparr>"
  obtain rl err where a: "Append B ?e (rn_raftLog n) = (rl, err)" by fastforce
  have "sourced P El (clean_entry ?e)" using assms(4,5) True by (auto simp: sourced_def sourced_cmd_def)
  then have "sourced_log B P El rl" using sourced_Append [OF assms(1) a] assms(2) by (simp add: sourced_node_def)
  then show ?thesis using assms(2,3) True a
    by (auto simp: propose_append_def Let_def sourced_node_def split: option.splits)
qed (use assms(2,3) in \<open>simp add: propose_append_def\<close>)

lemma sourced_replicate:
  assumes "sourced_node B ok contents P El n" "replicateToPeer B p n = (n', r)" "rn_state n = Leader \<Longrightarrow> (rn_currentTerm n, rn_id n) \<in> El"
  shows "sourced_node B ok contents P El n'" "r = Some rpc \<Longrightarrow> sourced_rpc P El rpc"
proof -
  have lg: "sourced_log B P El (rn_raftLog n)" "sourced_data P (rn_snapshotData n)"
    using assms(1) by (simp_all add: sourced_node_def)
  show "sourced_node B ok contents P El n'"
    using assms(1,2) by (auto simp: replicateToPeer_def Let_def sourced_node_def split: if_splits option.splits sum.splits)
  show "r = Some rpc \<Longrightarrow> sourced_rpc P El rpc"
    using assms(2,3) lg GetRange_sourced [OF _ lg(1)]
    by (auto simp: replicateToPeer_def Let_def sourced_rpc_def split: if_splits option.splits sum.splits)
qed

section \<open>Elections\<close>

definition sourced_nodes ::
  "'db bolt \<Rightarrow> ('st \<Rightarrow> bool) \<Rightarrow> ('st \<Rightarrow> kv_map) \<Rightarrow> string list \<Rightarrow> command set \<Rightarrow> ('db, 'st) cluster \<Rightarrow> bool" where
  "sourced_nodes B ok contents ids P cl \<longleftrightarrow> (\<forall>a\<in>set ids.
     sourced_node B ok contents P (cl_elected cl) (cl_node cl a) \<and>
     (rn_state (cl_node cl a) = Leader \<longrightarrow> (rn_currentTerm (cl_node cl a), a) \<in> cl_elected cl))"

lemma sourced_nodes_update:
  assumes "sourced_nodes B ok contents ids P cl" "cl_node cl' = (cl_node cl)(a := n')" "P \<subseteq> P'"
    "cl_elected cl \<subseteq> cl_elected cl'" "sourced_node B ok contents P' (cl_elected cl') n'"
    "rn_state n' = Leader \<Longrightarrow> (rn_currentTerm n', a) \<in> cl_elected cl'"
  shows "sourced_nodes B ok contents ids P' cl'"
  using assms sourced_node_mono [OF _ assms(3,4), of B ok contents]
  unfolding sourced_nodes_def by (auto simp: subset_iff)

text \<open>Steps that leave term, role and log metadata steady make no new leader.\<close>

lemma sourced_nodes_steady:
  assumes "sourced_nodes B ok contents ids P cl" "a \<in> set ids" "node_ok B (cl_node cl a)" "steady B (cl_node cl a) n'"
    "cl_node cl' = (cl_node cl)(a := n')" "P \<subseteq> P'" "cl_elected cl' = cl_elected cl"
    "sourced_node B ok contents P' (cl_elected cl) n'"
  shows "sourced_nodes B ok contents ids P' cl'"
proof (rule sourced_nodes_update [OF assms(1,5,6)])
  show "(rn_currentTerm n', a) \<in> cl_elected cl'" if "rn_state n' = Leader"
    using assms(1,2,7) steadyD(7,8) [OF assms(4,3)] that by (simp add: sourced_nodes_def)
qed (use assms(7,8) in simp_all)

lemma sourced_election:
  assumes "election_step B ids cl cl'" "cluster_wf B cfgs ids cl" "configured cfgs ids" "bolt_writes_ok B"
    "sourced_nodes B ok contents ids P cl"
  shows "sourced_nodes B ok contents ids P cl'"
proof -
  have n: "node_ok B (cl_node cl a)" "sourced_node B ok contents P (cl_elected cl) (cl_node cl a)"
    if "a \<in> set ids" for a
    using assms(2,5) that by (simp_all add: cluster_wf_def node_wf_def sourced_nodes_def)
  have rl: "rl_ok B (rn_raftLog (cl_node cl a))" if "a \<in> set ids" for a
    using n(1) [OF that] by (simp add: node_ok_def)
  note std = sourced_nodes_steady [OF assms(5)]
  show ?thesis
    using assms(1)
  proof cases
    case (tick a n' go_on)
    have s: "steady B (cl_node cl a) n'" using run_ticks_steady(1) [of B "cl_node cl a"] tick(5) by simp
    have "sourced_node B ok contents P (cl_elected cl) n'"
      using tick(5) n(2) [OF tick(2)] by (auto simp: run_electionTick_def sourced_reset split: if_splits)
    then show ?thesis using std [OF tick(2) n(1) [OF tick(2)] s] tick(1) by simp
  next
    case (start a n' el)
    have "rn_state n' = Candidate" by (rule startElection_keeps(7) [OF assms(4) n(1) [OF start(2)] start(3,6)])
    moreover have "sourced_node B ok contents P (cl_elected cl) n'"
      using sourced_startElection [OF rl [OF start(2)], of ok contents P "cl_elected cl"] n(2) [OF start(2)] start(6) by simp
    ultimately show ?thesis using sourced_nodes_update [OF assms(5), of cl' a n'] start(1) by simp
  next
    case (request_vote v req n' resp)
    have "rvr_CandidateID req \<in> set ids"
      using assms(2) request_vote(4) by (simp add: cluster_wf_def requests_inv_def)
    note id = valid_id_savable [OF configuredD(2) [OF assms(3) this]]
    have s: "steady B (cl_node cl v) n'"
      using HandleRequestVote_steady [OF assms(4) id request_vote(3) n(1) [OF request_vote(2)] request_vote(5)] .
    have "sourced_node B ok contents P (cl_elected cl) n'"
      using sourced_HandleRequestVote [OF n(1) [OF request_vote(2)] request_vote(3,5)] n(2) [OF request_vote(2)] by blast
    then show ?thesis using std [OF request_vote(2) n(1) [OF request_vote(2)] s] request_vote(1) by simp
  next
    case (vote_response a el p r n' el')
    have "sourced_node B ok contents P (cl_elected cl) n'"
      using sourced_vote_reply [OF rl [OF vote_response(2)] vote_response(7)] n(2) [OF vote_response(2)] by blast
    then show ?thesis
      using std [OF vote_response(2) n(1) [OF vote_response(2)] vote_reply_steady [OF assms(4) vote_response(7)]]
        vote_response(1) by simp
  next
    case (finish a el n')
    show ?thesis
    proof (cases "el_won el \<and> rn_state (cl_node cl a) = Candidate")
      case True
      then have e: "cl_elected cl' = insert (rn_currentTerm n', a) (cl_elected cl)" "n' = becomeLeader B (cl_node cl a)"
        using finish(1,6) by (simp_all add: finishElection_def)
      have "rn_currentTerm n' = rn_currentTerm (cl_node cl a)"
        by (simp add: e(2) becomeLeader_def Let_def resetHeartbeatTimer_def)
      then have "sourced_node B ok contents P (cl_elected cl') n'"
        unfolding e using rl [OF finish(2)] n(2) [OF finish(2)] sourced_node_mono subset_insertI
        by (intro sourced_becomeLeader) (auto intro: sourced_node_mono)
      then show ?thesis
        by (intro sourced_nodes_update [OF assms(5), of cl' a n'])
          (simp_all add: e(1), simp add: finish(1), blast)
    next
      case False
      then have "n' = cl_node cl a" using finish(6) by (auto simp: finishElection_def becomeLeader_def)
      then show ?thesis using False finish(1) assms(5) by (auto simp: sourced_nodes_def)
    qed
  qed
qed

context durable_engine
begin

lemma sourced_apply_entry:
  assumes "sourced_node B ok contents P El n" "sourced_cmd P (le_Command e)"
  shows "sourced_node B ok contents P El (apply_entry E e n)"
proof -
  obtain st err where a: "applyCommand E (le_Command e) (rn_storage n) = (st, err)" by fastforce
  have n: "ok (rn_storage n)" "written_by P (contents (rn_storage n))" using assms(1) by (simp_all add: sourced_node_def)
  have "ok st \<and> written_by P (contents st)"
    using apply_refines [OF n(1) a] kv_apply_written [OF n(2) assms(2)] n(2) by (metis fst_conv)
  moreover have "rn_storage (apply_entry E e n) = st" "rn_snapshotData (apply_entry E e n) = rn_snapshotData n"
    using a by (simp_all add: apply_entry_def Let_def split: option.split)
  ultimately show ?thesis using assms(1) by (simp add: sourced_node_def)
qed

lemma sourced_applyCommitted:
  assumes "rl_ok B (rn_raftLog n)" "sourced_node B ok contents P El n"
  shows "sourced_node B ok contents P El (applyCommitted B E n)"
  using assms
proof (induction "unat (rn_commitIndex n) - unat (rn_lastApplied n)" arbitrary: n rule: less_induct)
  case less
  let ?n1 = "n\<lparr>rn_lastApplied := rn_lastApplied n + 1\<rparr>"
  have s1: "sourced_node B ok contents P El ?n1" using less.prems(2) by (simp add: sourced_node_def)
  show ?case
  proof (cases "rn_lastApplied n < rn_commitIndex n \<and> log_at B (rn_raftLog n) (rn_lastApplied n + 1) \<noteq> None")
    case False
    then have "applyCommitted B E n \<in> {n, ?n1}"
      by (subst applyCommitted.simps) (auto simp: Let_def log_at_def split: sum.splits)
    then show ?thesis using less.prems(2) s1 by auto
  next
    case True
    then obtain e where e: "log_at B (rn_raftLog n) (rn_lastApplied n + 1) = Some e" by auto
    let ?n2 = "apply_entry E e ?n1"
    have "sourced_cmd P (le_Command e)"
      using less.prems(2) e by (auto simp: sourced_node_def sourced_log_def sourced_def)
    then have s2: "sourced_node B ok contents P El ?n2" by (rule sourced_apply_entry [OF s1])
    have "applyCommitted B E n = (if rn_panicked ?n2 then ?n2 else applyCommitted B E ?n2)"
      using True e less.prems(1) by (subst applyCommitted.simps) (simp add: Let_def Get_log_at)
    moreover have "unat (rn_commitIndex ?n2) - unat (rn_lastApplied ?n2) < unat (rn_commitIndex n) - unat (rn_lastApplied n)"
      using True less_not_max [of "rn_lastApplied n" "rn_commitIndex n"] by (auto simp: unat_inc word_less_nat_alt)
    ultimately show ?thesis using less.hyps [of ?n2] less.prems(1) s2 by simp
  qed
qed

lemma sourced_snapshot:
  assumes "sourced_node B ok contents P El n" "takeSnapshot_data E n = Inr d"
  shows "sourced_data P d"
  using snapshot_contents [of "rn_storage n"] written_valid [of P "contents (rn_storage n)"] assms
  by (auto simp: takeSnapshot_data_def sourced_node_def sourced_data_def)

lemma sourced_restore:
  assumes "ok s" "written_by P (contents s)" "sourced_data P d" "eng_RestoreSnapshot E d s = (s', err)"
  shows "ok s' \<and> written_by P (contents s')"
proof (cases err)
  case None
  then obtain m where "snapshot_denotes d m" "written_by P m"
    using assms(3,4) restore_refuses unfolding sourced_data_def by fastforce
  then show ?thesis using restore_commit [OF assms(1)] assms(4) None by blast
next
  case (Some e)
  then show ?thesis using restore_fail [OF assms(1)] assms(1,2,4) by blast
qed

lemma sourced_HandleInstallSnapshot:
  assumes "rl_ok B (rn_raftLog n)" "HandleInstallSnapshot B E req n = (n', resp)" "sourced_node B ok contents P El n"
    "sourced_data P (isr_Data req)"
  shows "sourced_node B ok contents P El n'"
proof -
  define n1 where "n1 = (if rn_currentTerm n < isr_Term req then becomeFollower B (isr_Term req) n else n)"
  define n2 where "n2 = resetElectionTimer n1"
  have s1: "sourced_node B ok contents P El n1" "rl_ok B (rn_raftLog n1)"
    using assms(1,3) sourced_becomeFollower [OF assms(1)] SaveMeta_log(1) [OF assms(1)] by (simp_all add: n1_def)
  then have s2: "sourced_node B ok contents P El n2" "rl_ok B (rn_raftLog n2)"
    by (simp_all add: n2_def sourced_reset)
  obtain st err where r: "eng_RestoreSnapshot E (isr_Data req) (rn_storage n2) = (st, err)" by fastforce
  have st: "ok st" "written_by P (contents st)"
    using sourced_restore [OF _ _ assms(4) r] s2(1) by (simp_all add: sourced_node_def)
  obtain rl cerr where c: "Compact B (isr_LastIncludedIndex req) (isr_LastIncludedTerm req) (rn_raftLog n2) = (rl, cerr)"
    by fastforce
  have lg: "sourced_log B P El rl" using sourced_Compact [OF s2(2) c] s2(1) by (simp add: sourced_node_def)
  have "n' = fst (HandleInstallSnapshot B E req n)" using assms(2) by simp
  then show ?thesis
    unfolding HandleInstallSnapshot_def Let_def n1_def [symmetric] n2_def [symmetric]
    using assms(3,4) s1 s2 st lg r c by (auto simp: sourced_node_def split: if_splits option.splits)
qed

lemma sourced_serve:
  assumes "node_ok B n" "\<not> rn_panicked n" "serve_rpc B E rpc n = (n', r)" "sourced_node B ok contents P El n" "sourced_rpc P El rpc"
  shows "sourced_node B ok contents P El n'"
proof (cases rpc)
  case (RpcAppendEntries req)
  then have "\<forall>e\<in>set (aer_Entries (clean_aer req)). sourced P El e"
    using assms(5) sourced_clean [of P El] by (auto simp: sourced_rpc_def clean_aer_def)
  then show ?thesis using sourced_HandleAppendEntries [OF assms(1,2) _ assms(4)] assms(3) RpcAppendEntries
    by (auto split: prod.splits)
next
  case (RpcInstallSnapshot req)
  then have "sourced_data P (isr_Data (clean_isr req))" using assms(5) by (simp add: sourced_rpc_def clean_isr_def)
  then show ?thesis using sourced_HandleInstallSnapshot [OF _ _ assms(4)] assms(1,3) RpcInstallSnapshot
    by (auto simp: node_ok_def split: prod.splits)
qed

end

section \<open>The network\<close>

definition net_sourced ::
  "'db bolt \<Rightarrow> ('st \<Rightarrow> bool) \<Rightarrow> ('st \<Rightarrow> kv_map) \<Rightarrow> string list \<Rightarrow> ('db, 'st) network \<Rightarrow> bool" where
  "net_sourced B ok contents ids s \<longleftrightarrow> sourced_nodes B ok contents ids (nw_proposed s) (nw_cl s) \<and>
     (\<forall>x\<in>nw_sent s. sourced_rpc (nw_proposed s) (cl_elected (nw_cl s)) (snd x)) \<and>
     (\<forall>x\<in>set (nw_snaps s). \<forall>d. snd (snd (snd x)) = Inr d \<longrightarrow> sourced_data (nw_proposed s) d)"

lemma net_sourced_update:
  assumes "net_sourced B ok contents ids s" "sourced_nodes B ok contents ids (nw_proposed s') (nw_cl s')"
    "nw_proposed s \<subseteq> nw_proposed s'" "cl_elected (nw_cl s) \<subseteq> cl_elected (nw_cl s')"
    "\<forall>x\<in>nw_sent s'. x \<in> nw_sent s \<or> sourced_rpc (nw_proposed s') (cl_elected (nw_cl s')) (snd x)"
    "\<forall>x\<in>set (nw_snaps s'). x \<in> set (nw_snaps s) \<or> (\<forall>d. snd (snd (snd x)) = Inr d \<longrightarrow> sourced_data (nw_proposed s') d)"
  shows "net_sourced B ok contents ids s'"
  using assms sourced_mono(3,4) [OF assms(3,4)] unfolding net_sourced_def by metis

lemma election_elected: "election_step B ids cl cl' \<Longrightarrow> cl_elected cl \<subseteq> cl_elected cl'"
  by (erule election_step.cases) auto

lemma sourced_Stop: "sourced_node B ok contents P El (Stop_signal n) = sourced_node B ok contents P El n"
  by (rule sourced_node_cong) (simp_all add: Stop_signal_def)

lemma sourced_tasks: "sourced_node B ok contents P El (n\<lparr>rn_tasks := ts\<rparr>) = sourced_node B ok contents P El n"
  by (rule sourced_node_cong) simp_all

lemma sourced_wait: "Propose_wait wk w n = (n', res) \<Longrightarrow> sourced_node B ok contents P El n' = sourced_node B ok contents P El n"
  by (rule sourced_node_cong) (auto simp: Propose_wait_def split: wake.splits)

lemma sourced_heartbeat:
  "sourced_node B ok contents P El (run_heartbeatTick n) = sourced_node B ok contents P El n"
  "sourced_node B ok contents P El (broadcastAppendEntries n) = sourced_node B ok contents P El n"
  by (rule sourced_node_cong; simp add: run_heartbeatTick_def broadcastAppendEntries_def resetHeartbeatTimer_def Let_def)+

lemma sourced_receive:
  "rl_ok B (rn_raftLog n) \<Longrightarrow> sourced_node B ok contents P El (receive_reply B p rpc r n) = sourced_node B ok contents P El n"
  by (cases rpc; cases r) (simp_all add: sourced_replies)

lemma boots_on_sourced:
  assumes "boots_on B cfg (rl_db (rn_raftLog n)) st n'" "node_ok B n" "rn_id n = nc_ID (cfg_Node cfg)" "rn_cfg n = cfg"
    "sourced_log B P El (rn_raftLog n)" "ok st" "written_by P (contents st)"
  shows "sourced_node B ok contents P El n'"
proof -
  obtain mkdirAll bolt_Open rnd n0 where b: "bolt_Open (raft_db_path cfg) = Inr (rl_db (rn_raftLog n))"
      "NewRaftNode B mkdirAll bolt_Open rnd cfg st = Inr n0" "n' = Start n0"
    using assms(1) unfolding boots_on_def by blast
  have ok: "bolt_spec B" "db_ok B (rl_db (rn_raftLog n))" "timer_ok cfg" "valid_id (nc_ID (cfg_Node cfg))"
      "LoadMeta B (rn_raftLog n) = Inr (rn_currentTerm n, rn_votedFor n)"
    using assms(2-4) by (auto simp: node_ok_def rl_ok_def)
  note re = NewRaftNode_reopen(9) [OF ok(1,2) b(1) ok(5) refl ok(3,4) b(2)]
  show ?thesis
    using re NewRaftNode_volatile(3,4) [OF b(2)] assms(5-7)
    by (simp add: b(3) Start_def sourced_reset sourced_node_def sourced_log_def sourced_data_Nil)
qed

context durable_engine
begin

lemma net_sourced_local:
  assumes "net_sourced B ok contents ids s" "cluster_wf B cfgs ids (nw_cl s)" "bolt_writes_ok B"
    "a \<in> set ids" "\<not> rn_panicked (nw_node s a)" "node_step B E (nw_node s a) n'" "nw_cl s' = set_node a n' (nw_cl s)"
    "nw_proposed s \<subseteq> nw_proposed s'" "sourced_node B ok contents (nw_proposed s') (cl_elected (nw_cl s)) n'"
    "\<forall>x\<in>nw_sent s'. x \<in> nw_sent s \<or> sourced_rpc (nw_proposed s') (cl_elected (nw_cl s)) (snd x)"
    "set (nw_snaps s') \<subseteq> set (nw_snaps s)"
  shows "net_sourced B ok contents ids s'"
proof (rule net_sourced_update [OF assms(1) _ assms(8)])
  have "node_ok B (nw_node s a)" using assms(2,4) by (simp add: cluster_wf_def node_wf_def)
  moreover have "sourced_nodes B ok contents ids (nw_proposed s) (nw_cl s)" using assms(1) by (simp add: net_sourced_def)
  ultimately show "sourced_nodes B ok contents ids (nw_proposed s') (nw_cl s')"
    using sourced_nodes_steady [OF _ assms(4) _ node_step_steady [OF assms(6,3,5)] _ assms(8)] assms(7,9) by simp
qed (use assms(7,10,11) in auto)

lemma net_sourced_step:
  assumes "net_step B E F cfgs ids s s'" "calls_ok cfgs s" "cluster_wf B cfgs ids (nw_cl s)" "configured cfgs ids"
    "bolt_writes_ok B" "net_sourced B ok contents ids s"
  shows "net_sourced B ok contents ids s'"
proof -
  let ?P = "nw_proposed s" and ?El = "cl_elected (nw_cl s)"
  have n: "node_ok B (nw_node s a)" "rn_id (nw_node s a) = a" "rn_peers (nw_node s a) = peers_of (cfgs a)"
      "rn_cfg (nw_node s a) = cfgs a" "sourced_node B ok contents ?P ?El (nw_node s a)"
      "rn_state (nw_node s a) = Leader \<Longrightarrow> (rn_currentTerm (nw_node s a), a) \<in> ?El" if "a \<in> set ids" for a
    using assms(3,6) that by (simp_all add: cluster_wf_def node_wf_def net_sourced_def sourced_nodes_def)
  have rl: "rl_ok B (rn_raftLog (nw_node s a))" if "a \<in> set ids" for a using n(1) [OF that] by (simp add: node_ok_def)
  have sn: "sourced_nodes B ok contents ids ?P (nw_cl s)" using assms(6) by (simp add: net_sourced_def)
  have snt: "sourced_rpc ?P ?El rpc" if "(q, rpc) \<in> nw_sent s" for q rpc
    using assms(6) that by (auto simp: net_sourced_def)
  have snp: "sourced_data ?P d" if "(a, i, t, Inr d) \<in> set (nw_snaps s)" for a i t d
    using assms(6) that by (fastforce simp: net_sourced_def)
  note loc = net_sourced_local [OF assms(6,3,5)]
  show ?thesis
    using assms(1)
  proof cases
    case (election cl')
    have "sourced_nodes B ok contents ids ?P cl'"
      using sourced_election [OF election(2) assms(3-5) sn] .
    then show ?thesis using net_sourced_update [OF assms(6), of s'] election_elected [OF election(2)] election(1) by simp
  next
    case (heartbeat a)
    from loc [OF heartbeat(2,3) node_step.heartbeat] show ?thesis
      using heartbeat(1) n(5) [OF heartbeat(2)] by (simp add: sourced_heartbeat)
  next
    case (send a p n' rpc)
    have "sourced_node B ok contents ?P ?El (drop_task (TReplicate p) (nw_node s a))"
      using n(5) [OF send(2)] by (simp only: sourced_tasks)
    from sourced_replicate [OF this send(5)] n(2,6) [OF send(2)]
    have "sourced_node B ok contents ?P ?El n'" "sourced_rpc ?P ?El rpc" by simp_all
    with loc [OF send(2,3) node_step.replicate [OF send(4,5)], of s'] show ?thesis using send(1) by simp
  next
    case (send_nothing a p n')
    have "sourced_node B ok contents ?P ?El n'"
      using sourced_replicate(1) [OF _ send_nothing(5)] n(2,5,6) [OF send_nothing(2)] by (simp add: sourced_tasks)
    with loc [OF send_nothing(2,3) node_step.replicate [OF send_nothing(4,5)]] show ?thesis using send_nothing(1) by simp
  next
    case (deliver q rpc n' r)
    have "sourced_node B ok contents ?P ?El n'"
      using sourced_serve [OF n(1) [OF deliver(2)] deliver(3,5) n(5) [OF deliver(2)] snt [OF deliver(4)]] .
    with loc [OF deliver(2,3) serve_rpc_step [OF deliver(5)]] show ?thesis using deliver(1) by simp
  next
    case (answer a p rpc r)
    have p: "p \<in> set (rn_peers (nw_node s a))"
      using assms(2) answer(2,4) n(3) by (auto simp: calls_ok_def)
    have "sourced_node B ok contents ?P ?El (receive_reply B p rpc r (nw_node s a))"
      using sourced_receive [OF rl [OF answer(2)]] n(5) [OF answer(2)] by blast
    then show ?thesis
      using receive_reply_step [OF p, of B rpc r E] loc [OF answer(2,3), of "receive_reply B p rpc r (nw_node s a)" s'] answer(1) assms(6)
      by (elim disjE) (simp_all add: net_sourced_def sourced_nodes_def)
  next
    case (timeout c)
    then show ?thesis using assms(6) by (simp add: net_sourced_def)
  next
    case (apply_task a)
    have "sourced_node B ok contents ?P ?El (applyCommitted B E (drop_task TApplyCommitted (nw_node s a)))"
      using rl [OF apply_task(2)] n(5) [OF apply_task(2)] by (intro sourced_applyCommitted) (simp_all add: sourced_tasks)
    with loc [OF apply_task(2,3) node_step.apply_task [OF apply_task(4)]] show ?thesis using apply_task(1) by simp
  next
    case (snapshot_read a i t)
    then show ?thesis using assms(6) sourced_snapshot [OF n(5) [OF snapshot_read(2)]] by (auto simp: net_sourced_def)
  next
    case (snapshot_write a i t data)
    have "sourced_node B ok contents ?P ?El (takeSnapshot B i t data (drop_task (TTakeSnapshot i t) (nw_node s a)))"
      using rl [OF snapshot_write(2)] n(5) [OF snapshot_write(2)] snp snapshot_write(4)
      by (intro sourced_takeSnapshot) (auto simp: sourced_tasks)
    with loc [OF snapshot_write(2,3) node_step.snapshot_task [OF snapshot_write(5)]] show ?thesis
      using snapshot_write(1) set_remove1_subset [of "(a, i, t, data)" "nw_snaps s"] by simp
  next
    case (propose a cmd n' r)
    let ?P' = "insert cmd ?P"
    have "sourced_node B ok contents ?P' ?El (nw_node s a)"
      using n(5) [OF propose(2)] sourced_node_mono [of B ok contents ?P ?El _ ?P' ?El] by (simp add: subset_insertI)
    from sourced_propose [OF rl [OF propose(2)] this propose(4) _ n(6) [OF propose(2)]]
    have "sourced_node B ok contents ?P' ?El n'" by simp
    with loc [OF propose(2,3) node_step.propose [OF propose(4)]] show ?thesis using propose(1) by (simp add: subset_insertI)
  next
    case (broadcast a)
    from loc [OF broadcast(2,3) node_step.broadcast] show ?thesis
      using broadcast(1) n(5) [OF broadcast(2)] by (simp add: sourced_heartbeat)
  next
    case (propose_wait a wk w n' res)
    from loc [OF propose_wait(2,3) node_step.propose_wait [OF propose_wait(4)]] show ?thesis
      using propose_wait(1) n(5) [OF propose_wait(2)] sourced_wait [OF propose_wait(4)] by simp
  next
    case (stop a)
    from loc [OF stop(2,3) node_step.stop] show ?thesis
      using stop(1) n(5) [OF stop(2)] by (simp add: sourced_Stop)
  next
    case (restart a st n')
    have st: "ok st" "written_by ?P (contents st)"
      using reopened_store [OF _ restart(3)] n(5) [OF restart(2)] by (auto simp: sourced_node_def written_by_def)
    have "sourced_node B ok contents ?P ?El n'"
      using n(2,4,5) [OF restart(2)] configuredD(1) [OF assms(4) restart(2)] st
      by (intro boots_on_sourced [OF restart(4) n(1) [OF restart(2)]]) (simp_all add: sourced_node_def)
    moreover have "rn_state n' = Follower" by (rule boots_follower [OF boots_on_boots [OF restart(4)]])
    ultimately have "sourced_nodes B ok contents ids ?P (nw_cl s')"
      using sourced_nodes_update [OF sn, of "nw_cl s'" a n' ?P] by (simp add: restart(1))
    then show ?thesis using net_sourced_update [OF assms(6), of s'] restart(1) by auto
  qed
qed

lemma net_sourced_init:
  assumes "net_init B F cfgs ids s" "configured cfgs ids" "bolt_spec B"
  shows "net_sourced B ok contents ids s"
proof -
  have "sourced_node B ok contents {} {} (nw_node s a) \<and> rn_state (nw_node s a) = Follower" if a: "a \<in> set ids" for a
  proof -
    obtain db where db: "\<not> tx_HasBucket B db logBucket" "\<not> tx_HasBucket B db metaBucket" "boots B (cfgs a) db (nw_node s a)"
      using assms(1) a unfolding net_init_def cluster_init_def by blast
    then obtain mkdirAll bolt_Open rnd store n0 where b: "bolt_Open (raft_db_path (cfgs a)) = Inr db"
        "NewRaftNode B mkdirAll bolt_Open rnd (cfgs a) store = Inr n0" "nw_node s a = Start n0"
      using bootsE [OF db(3)] by metis
    note c = configuredD(1-3) [OF assms(2) a]
    have "valid_id (nc_ID (cfg_Node (cfgs a)))" using c by simp
    note f = NewRaftNode_fresh(9) [OF assms(3) db(1,2) b(1) c(3) this b(2)]
    have "ok (rn_storage n0)" "contents (rn_storage n0) = Map.empty"
      using assms(1) a new_store b(3) by (auto simp: net_init_def Start_def)
    then show ?thesis
      using f NewRaftNode_volatile(1,4) [OF b(2)]
      by (simp add: b(3) Start_def sourced_reset sourced_node_def sourced_log_def sourced_data_Nil written_by_def)
  qed
  then show ?thesis using assms(1) by (simp add: net_sourced_def sourced_nodes_def net_init_def cluster_init_def)
qed

lemma net_reachable_sourced:
  assumes "net_reachable B E F cfgs ids s" "configured cfgs ids" "bolt_spec B" "bolt_writes_ok B"
  shows "net_sourced B ok contents ids s"
  using assms(1)
proof induction
  case (init s)
  then show ?case using net_sourced_init assms(2,3) by blast
next
  case (step s s')
  note r = net_reachable_cluster [OF step.hyps(1) assms(2-4)]
  show ?case
    by (rule net_sourced_step [OF step.hyps(2) r(2) cluster_wf_reachable [OF r(1) assms(2-4)] assms(2,4) step.IH])
qed

end

end
