(* ===== verification/Election_Liveness.thy ===== *)
theory Election_Liveness
  imports Election_Runs Cluster_Invariant
begin

text \<open>
  Elections can succeed, in clusters of every size from two on: when the messages of an election
  are delivered, the first candidate of a new cluster gets all votes and becomes leader. A node
  without peers, on the other hand, never becomes leader.
\<close>

section \<open>Nodes without entries\<close>

definition blank :: "'db bolt \<Rightarrow> 'st \<Rightarrow> ('db, 'st) raft_node \<Rightarrow> bool" where
  "blank B st n \<longleftrightarrow> \<not> rn_panicked n \<and> rn_currentTerm n \<le> 1 \<and> (\<forall>i. log_at B (rn_raftLog n) i = None) \<and>
     rl_snapshotIndex (rn_raftLog n) = 0 \<and> rn_commitIndex n = 0 \<and> rn_lastApplied n = 0 \<and> rn_storage n = st"

lemma fresh_blank: "fresh_node B n \<Longrightarrow> blank B (rn_storage n) n"
  by (simp add: fresh_node_def blank_def)

lemma vote_blank:
  assumes "node_ok B n" "blank B st n" "rvr_Term req = 1" "HandleRequestVote B req n = (n', resp)"
  shows "blank B st n'"
proof -
  have tm: "timer_ok (rn_cfg n)" and rl: "rl_ok B (rn_raftLog n)" and live: "\<not> rn_panicked n"
    using assms(1,2) by (simp_all add: node_ok_def blank_def)
  have enter: "blank B st (rv_enter B req n)" "rl_ok B (rn_raftLog (rv_enter B req n))" "timer_ok (rn_cfg (rv_enter B req n))"
    using assms(2,3) rl SaveMeta_log [OF rl] tm by (simp_all add: rv_enter_def blank_def becomeFollower_panic)
  then have "blank B st (cast_vote B c (rv_enter B req n))" for c
    using SaveMeta_log [OF enter(2)] by (simp add: cast_vote_def blank_def resetElectionTimer_panic)
  then show ?thesis using assms(2,4) enter(1) by (auto simp: HandleRequestVote_eq [OF tm live] split: if_splits)
qed

section \<open>A full election\<close>

text \<open>The peers still to be asked are new nodes; they all answer, and all answers count.\<close>

lemma collect_votes:
  assumes "bolt_writes_ok B" "a \<in> set ids" "cl_node cl a = n1"
    "\<not> rn_panicked n1" "rn_currentTerm n1 = 1" "cl_run cl a = Electing el" "el_req el \<in> cl_requests cl"
    "new_request (el_req el)" "\<forall>q\<in>set ids - {a}. blank B (st q) (cl_node cl q)"
    "\<forall>p\<in>set (el_waiting el). p_ID p \<in> set ids \<and> p_ID p \<noteq> a \<and> fresh_node B (cl_node cl (p_ID p))"
    "distinct (map p_ID (el_waiting el))"
  shows "\<exists>cl' el'. elects B ids cl cl' \<and> cl_node cl' a = n1 \<and> cl_run cl' = (cl_run cl)(a := Electing el') \<and>
    (\<forall>q\<in>set ids - {a}. blank B (st q) (cl_node cl' q)) \<and> el_waiting el' = [] \<and> (el_won el' \<longleftrightarrow> el_won el \<or>
      el_waiting el \<noteq> [] \<and> el_quorum el \<le> el_votes el + length (el_waiting el))"
  using assms
proof (induction "el_waiting el" arbitrary: cl el)
  case Nil
  then show ?case by (intro exI [of _ cl] exI [of _ el]) (simp add: fun_upd_idem)
next
  case (Cons p ps)
  note w = Cons.hyps(2) [symmetric]
  have p: "p_ID p \<in> set ids" "p_ID p \<noteq> a" "fresh_node B (cl_node cl (p_ID p))" using Cons.prems(10) w by simp_all
  define el2 where "el2 = count_vote (el\<lparr>el_waiting := ps\<rparr>)"
  let ?n2 = "fst (HandleRequestVote B (el_req el) (cl_node cl (p_ID p)))"
  obtain cl2 where c2: "elects B ids cl cl2" "cl_requests cl2 = cl_requests cl"
      "cl_node cl2 = (cl_node cl)(p_ID p := ?n2)" "cl_run cl2 = (cl_run cl)(a := Electing el2)"
    by (rule vote_counts [OF Cons.prems(1,2) _ _ Cons.prems(6-8), of p]) (use Cons.prems(3-5) p w el2_def in auto)
  have el2: "el_waiting el2 = ps" "el_votes el2 = el_votes el + 1" "el_quorum el2 = el_quorum el" "el_req el2 = el_req el"
      "el_won el2 \<longleftrightarrow> el_won el \<or> el_quorum el \<le> el_votes el + 1"
    by (simp_all add: el2_def count_vote_def)
  have "blank B (st (p_ID p)) (cl_node cl (p_ID p))" using Cons.prems(9) p(1,2) by simp
  then have n2: "blank B (st (p_ID p)) ?n2"
    using vote_blank [of B "cl_node cl (p_ID p)" "st (p_ID p)" "el_req el" ?n2 "snd (HandleRequestVote B (el_req el) (cl_node cl (p_ID p)))"]
      p(3) Cons.prems(8) by (simp add: fresh_node_def new_request_def)
  have ps: "p_ID q \<noteq> p_ID p" if "q \<in> set ps" for q using Cons.prems(11) w that by (auto simp: image_iff)
  have "\<exists>cl' el'. elects B ids cl2 cl' \<and> cl_node cl' a = n1 \<and> cl_run cl' = (cl_run cl2)(a := Electing el') \<and>
      (\<forall>q\<in>set ids - {a}. blank B (st q) (cl_node cl' q)) \<and> el_waiting el' = [] \<and> (el_won el' \<longleftrightarrow> el_won el2 \<or>
        el_waiting el2 \<noteq> [] \<and> el_quorum el2 \<le> el_votes el2 + length (el_waiting el2))"
    by (rule Cons.hyps(1) [of el2 cl2]) (use Cons.prems c2 el2 n2 ps p(2) w in auto)
  then obtain cl' el' where cl': "elects B ids cl2 cl'" "cl_node cl' a = n1" "cl_run cl' = (cl_run cl)(a := Electing el')"
      "\<forall>q\<in>set ids - {a}. blank B (st q) (cl_node cl' q)" "el_waiting el' = []" "el_won el' \<longleftrightarrow> el_won el2 \<or>
        el_waiting el2 \<noteq> [] \<and> el_quorum el2 \<le> el_votes el2 + length (el_waiting el2)"
    unfolding c2(4) by auto
  moreover have "el_won el2 \<or> el_waiting el2 \<noteq> [] \<and> el_quorum el2 \<le> el_votes el2 + length (el_waiting el2) \<longleftrightarrow>
      el_won el \<or> el_waiting el \<noteq> [] \<and> el_quorum el \<le> el_votes el + length (el_waiting el)"
    using el2 w by (cases ps) auto
  moreover have "elects B ids cl cl'" using c2(1) cl'(1) by (rule rtranclp_trans)
  ultimately show ?case by blast
qed

lemma full_election:
  assumes "bolt_writes_ok B" "configured cfgs ids" "2 \<le> length ids" "a \<in> set ids" "\<forall>q. cl_run cl q = Idle"
    "\<forall>q\<in>set ids. fresh_node B (cl_node cl q) \<and> rn_peers (cl_node cl q) = peers_of (cfgs q)"
  obtains cl' where "elects B ids cl cl'" "(1, a) \<in> cl_elected cl'"
    "cl_node cl' a = becomeLeader B (fst (startElection B (cl_node cl a)))"
    "rn_state (cl_node cl' a) = Leader" "rn_currentTerm (cl_node cl' a) = 1"
    "\<forall>q\<in>set ids - {a}. blank B (rn_storage (cl_node cl q)) (cl_node cl' q)" "\<forall>q. cl_run cl' q = Idle"
proof -
  let ?na = "cl_node cl a"
  have na: "fresh_node B ?na" "rn_peers ?na = peers_of (cfgs a)" using assms(4,6) by auto
  obtain cl2 n1 el where c2: "elects B ids cl cl2" "campaign B ?na n1 el" "new_request (el_req el)"
      "el_req el \<in> cl_requests cl2" "cl_node cl2 = (cl_node cl)(a := n1)" "cl_run cl2 = (cl_run cl)(a := Electing el)"
      "cl_elected cl2 = cl_elected cl"
    using election_begins [OF assms(1,4) na(1) assms(5) [rule_format]] .
  have s: "startElection B ?na = (n1, Some el)" "rn_state n1 = Candidate" "rn_currentTerm n1 = 1" "node_ok B n1"
      "\<not> rn_panicked n1" "el_votes el = 1" "el_quorum el = election_quorum (rn_peers ?na)" "el_waiting el = rn_peers ?na"
    using c2(2) by (simp_all add: campaign_def)
  note peers = configuredD(4-6) [OF assms(2,4)]
  have ids: "p_ID p \<in> set ids - {a}" if "p \<in> set (el_waiting el)" for p using that s(8) na(2) peers(2) by auto
  have wait: "\<forall>p\<in>set (el_waiting el). p_ID p \<in> set ids \<and> p_ID p \<noteq> a \<and> fresh_node B (cl_node cl2 (p_ID p))"
    using ids assms(6) c2(5) by simp
  have rest: "\<forall>q\<in>set ids - {a}. blank B (rn_storage (cl_node cl q)) (cl_node cl2 q)"
    using assms(6) fresh_blank c2(5) by auto
  have c2a: "cl_node cl2 a = n1" "cl_run cl2 a = Electing el" "distinct (map p_ID (el_waiting el))"
    using c2(5,6) s(8) na(2) peers(1) by simp_all
  obtain cl3 el3 where d: "elects B ids cl2 cl3" "cl_node cl3 a = n1" "cl_run cl3 = (cl_run cl2)(a := Electing el3)"
      "\<forall>q\<in>set ids - {a}. blank B (rn_storage (cl_node cl q)) (cl_node cl3 q)" "el_waiting el3 = []"
      "el_won el3 \<longleftrightarrow> el_won el \<or> el_waiting el \<noteq> [] \<and> el_quorum el \<le> el_votes el + length (el_waiting el)"
    using collect_votes [OF assms(1,4) c2a(1) s(5,3) c2a(2) c2(4,3) rest wait c2a(3)] by blast
  have "el_won el3" using d(6) s(6-8) na(2) peers(3) assms(3) by (auto simp: election_quorum_def)
  then obtain cl4 where c4: "elects B ids cl3 cl4" "cl_node cl4 = (cl_node cl3)(a := becomeLeader B n1)"
      "cl_run cl4 = (cl_run cl3)(a := Idle)" "cl_elected cl4 = insert (1, a) (cl_elected cl3)"
      "rn_state (cl_node cl4 a) = Leader" "rn_currentTerm (cl_node cl4 a) = 1"
    using election_ends [OF assms(4) _ d(5), of cl3 B] d(2,3) s(2-5) by (metis fun_upd_same)
  have "elects B ids cl cl4" using c2(1) d(1) c4(1) by (meson rtranclp_trans)
  then show ?thesis
    by (rule that [OF _ _ _ c4(5,6)]) (use c4(2-4) s(1) d(3,4) c2(6) assms(5) in simp_all)
qed

section \<open>A cluster of one\<close>

text \<open>
  The vote that a candidate gives itself is compared with the quorum only when a peer answers, so a
  node without peers never wins.
\<close>

definition alone :: "string \<Rightarrow> ('db, 'st) cluster \<Rightarrow> bool" where
  "alone a cl \<longleftrightarrow> rn_state (cl_node cl a) \<noteq> Leader \<and> cl_elected cl = {} \<and>
     (\<forall>el. cl_run cl a = Electing el \<longrightarrow> el_waiting el = [] \<and> \<not> el_won el)"

lemma alone_step:
  assumes "cluster_step B E cfgs [a] cl cl'" "cluster_wf B cfgs [a] cl" "configured cfgs [a]" "bolt_writes_ok B" "alone a cl"
  shows "alone a cl'"
proof -
  let ?n = "cl_node cl a"
  have n: "node_ok B ?n" "rn_peers ?n = []" and rq: "\<forall>r\<in>cl_requests cl. rvr_CandidateID r = a"
    using assms(2) configuredD(6) [OF assms(3), of a] by (simp_all add: cluster_wf_def node_wf_def requests_inv_def)
  have a: "rn_state ?n \<noteq> Leader" "cl_elected cl = {}"
      "\<And>el. cl_run cl a = Electing el \<Longrightarrow> el_waiting el = [] \<and> \<not> el_won el"
    using assms(5) by (simp_all add: alone_def)
  have st: "rn_state n' \<noteq> Leader" if "steady B ?n n'" for n'
    using steadyD(7) [OF that n(1)] a(1) by (metis node_state.distinct(3))
  show ?thesis
    using assms(1)
  proof (cases rule: cluster_step_cases)
    case (local b n')
    then show ?thesis using st [OF node_step_steady [OF _ assms(4)]] a(2,3) by (simp add: alone_def)
  next
    case (tick b n' go_on)
    then show ?thesis using st run_ticks_steady(1) [of B ?n] a(2) by (simp add: alone_def)
  next
    case (start b n' el)
    then have "rn_state n' = Candidate" "el_waiting el = []" "\<not> el_won el"
      using startElection_keeps [OF assms(4) n(1), of n' "Some el"] n(2) by auto
    then show ?thesis using start a(2) by (simp add: alone_def)
  next
    case (request_vote v req n' resp)
    have "savable (rvr_CandidateID req)"
      using rq request_vote(4) valid_id_savable configuredD(2) [OF assms(3), of a] by simp
    then show ?thesis
      using request_vote st [OF HandleRequestVote_steady [OF assms(4) _ _ n(1)]] a(2,3) by (simp add: alone_def)
  next
    case (vote_response b el p r n' el')
    then show ?thesis using a(3) by simp
  next
    case (finish b el n')
    then show ?thesis using a by (simp add: alone_def finishElection_def)
  next
    case (restart b n')
    then show ?thesis using boots_follower [OF restart(3)] a(2) by (simp add: alone_def)
  qed
qed

lemma alone_reachable:
  assumes "reachable B E cfgs [a] cl" "configured cfgs [a]" "bolt_spec B" "bolt_writes_ok B"
  shows "alone a cl"
  using assms(1)
proof induction
  case (init cl)
  then obtain db where "boots B (cfgs a) db (cl_node cl a)" unfolding cluster_init_def by auto
  then show ?case using boots_follower [of B "cfgs a" db "cl_node cl a"] init by (simp add: cluster_init_def alone_def)
next
  case (step cl cl')
  then show ?case using alone_step [OF step.hyps(2) cluster_wf_reachable [OF step.hyps(1) assms(2-4)] assms(2,4)] by blast
qed

end
