(* ===== verification/Log_Image.thy ===== *)
theory Log_Image
  imports Replication_Round State_Machine
begin

text \<open>
  A log as the list of its entries. A log without snapshot that holds the list \<open>L\<close> has entry \<open>k + 1\<close>
  at index \<open>k + 1\<close>; its range reads, its terms and the work of the apply loop are then functions of
  the list. The lemmas follow one replication round on lists: what the leader sends, what the
  follower stores, what is applied.
\<close>

section \<open>Logs and lists\<close>

definition holds :: "'db bolt \<Rightarrow> log_entry list \<Rightarrow> 'db raft_log \<Rightarrow> bool" where
  "holds B L rl \<longleftrightarrow> rl_ok B rl \<and> rl_snapshotIndex rl = 0 \<and> length L < 2 ^ 64 - 1 \<and>
     (\<forall>i. log_at B rl i = (if i \<noteq> 0 \<and> unat i \<le> length L then Some (L ! (unat i - 1)) else None))"

text \<open>Entries of the first term that survive JSON and that the engine can run.\<close>

definition plain :: "(command \<Rightarrow> bool) \<Rightarrow> log_entry \<Rightarrow> bool" where
  "plain cmd_ok e \<longleftrightarrow> le_Term e = 1 \<and> clean_entry e = e \<and> entry_fits e \<and> runnable cmd_ok (le_Command e)"

lemma unat_index: "k \<le> length L \<Longrightarrow> length L < 2 ^ 64 - 1 \<Longrightarrow> unat (of_nat k :: u64) = k"
  by (simp add: unat_of_nat)

lemma unat_next:
  assumes "k \<le> length L" "length L < 2 ^ 64 - 1"
  shows "unat (of_nat k + 1 :: u64) = Suc k"
proof -
  have "unat (of_nat (Suc k) :: u64) = Suc k" using assms by (subst unat_of_nat) simp
  then show ?thesis by (simp add: add.commute)
qed

lemma holds_len: "holds B L rl \<Longrightarrow> length L < 2 ^ 64 - 1"
  by (simp add: holds_def)

lemma holds_at:
  assumes "holds B L rl" "k < length L"
  shows "log_at B rl (of_nat k + 1) = Some (L ! k)"
proof -
  have "unat (of_nat (Suc k) :: u64) = Suc k" using assms by (intro unat_index [of _ L]) (simp_all add: holds_def)
  moreover from this have "of_nat (Suc k) \<noteq> (0 :: u64)" by (metis nat.distinct(1) unat_0)
  moreover have "of_nat (Suc k) = (of_nat k + 1 :: u64)" by simp
  ultimately show ?thesis using assms by (metis (no_types, lifting) Suc_leI diff_Suc_1 holds_def)
qed

lemma holds_ok: "holds B L rl \<Longrightarrow> rl_ok B rl"
  by (simp add: holds_def)

lemma holds_index: "holds B L rl \<Longrightarrow> k < length L \<Longrightarrow> le_Index (L ! k) = of_nat k + 1"
  by (rule log_at_index [OF holds_ok holds_at])

lemma holds_last:
  assumes "holds B L rl"
  shows "LastIndex B rl = of_nat (length L)"
proof (cases "L = []")
  case True
  have "rl_ok B rl" "\<forall>i. log_at B rl i = None" "rl_snapshotIndex rl = 0"
    using assms True by (simp_all add: holds_def unat_eq_0)
  then show ?thesis using LastIndex_empty [of B rl] True by simp
next
  case False
  then obtain k where k: "length L = Suc k" by (cases L) auto
  have len: "unat (of_nat (length L) :: u64) = length L" using assms by (intro unat_index [of _ L]) (simp_all add: holds_def)
  show ?thesis
  proof (rule rlog.last_index_eqI)
    show "rl_ok B rl" using assms by (simp add: holds_def)
    show "log_at B rl (of_nat (length L)) \<noteq> None" using holds_at [OF assms, of k] k by (simp add: add.commute)
    show "i \<le> of_nat (length L)" if "log_at B rl i \<noteq> None" for i
      using that assms len by (simp add: holds_def word_le_nat_alt split: if_splits)
  qed
qed

lemma holds_contiguous:
  assumes "holds B L rl"
  shows "rlog.contiguous B rl"
proof -
  have len: "unat (of_nat (length L) :: u64) = length L" using assms by (intro unat_index [of _ L]) (simp_all add: holds_def)
  then show ?thesis
    using assms by (simp add: rlog.contiguous_def holds_last [OF assms])
      (simp add: holds_def word_le_nat_alt word_gt_0)
qed

lemma holds_TermAt:
  assumes "holds B L rl" "\<forall>e\<in>set L. le_Term e = 1"
  shows "TermAt B rl i = (if i \<noteq> 0 \<and> unat i \<le> length L then 1 else 0)"
proof -
  have "le_Term (L ! (unat i - 1)) = 1" if "i \<noteq> 0" "unat i \<le> length L"
    using assms(2) that by (simp add: unat_eq_0 [symmetric])
  then show ?thesis using assms(1) by (simp add: TermAt_log_at holds_def)
qed

lemma holds_cong: "holds B L rl \<Longrightarrow> same_log B rl rl' \<Longrightarrow> holds B L rl'"
  by (simp add: holds_def same_log_def)

lemma holds_entries_from:
  assumes "holds B L rl" "k \<le> length L"
  shows "entries_from B rl (of_nat k + 1) (of_nat (length L)) = drop k L"
proof (rule nth_equalityI)
  have len: "unat (of_nat (length L) :: u64) = length L" "unat (of_nat k + 1 :: u64) = Suc k"
    using unat_index [OF le_refl holds_len] unat_next [OF _ holds_len] assms by blast+
  show l: "length (entries_from B rl (of_nat k + 1) (of_nat (length L))) = length (drop k L)"
    by (simp add: entries_from_def len del: upt_Suc)
  fix i assume "i < length (entries_from B rl (of_nat k + 1) (of_nat (length L)))"
  then have "k + i < length L" unfolding l by simp
  then show "entries_from B rl (of_nat k + 1) (of_nat (length L)) ! i = drop k L ! i"
    using holds_at [OF assms(1), of "k + i"] unfolding entries_from_def len
    by (simp add: add.commute add.left_commute del: upt_Suc)
qed

lemma holds_entries_between:
  assumes "holds B L rl" "b \<le> length L"
  shows "entries_between B rl a b = drop a (take b L)"
proof (rule nth_equalityI)
  show l: "length (entries_between B rl a b) = length (drop a (take b L))"
    using assms(2) by (simp add: entries_between_def del: upt_Suc)
  fix i assume "i < length (entries_between B rl a b)"
  then have "a + i < b" unfolding l using assms(2) by simp
  then show "entries_between B rl a b ! i = drop a (take b L) ! i"
    using holds_at [OF assms(1), of "a + i"] assms(2)
    by (simp add: entries_between_def add.commute add.left_commute del: upt_Suc)
qed

lemma holds_runs:
  assumes "holds B L rl" "k \<le> length L"
  shows "runs (of_nat k + 1) (drop k L)"
  using assms(2)
proof (induction "length L - k" arbitrary: k)
  case (Suc d)
  then have k: "k < length L" by simp
  have "(of_nat k + 1 :: u64) < of_nat (length L) + 1"
    using unat_next [OF _ holds_len [OF assms(1)], of k] unat_next [OF le_refl holds_len [OF assms(1)]] k
    by (simp add: word_less_nat_alt)
  then have nm: "(of_nat k + 1 :: u64) \<noteq> - 1" by (rule less_not_max)
  have "runs (of_nat (Suc k) + 1) (drop (Suc k) L)" by (rule Suc.hyps(1)) (use Suc.hyps(2) k in simp_all)
  then show ?case using holds_index [OF assms(1) k] nm by (simp add: Cons_nth_drop_Suc [OF k, symmetric] add.commute)
qed simp

lemma holds_append:
  assumes "holds B L rl" "Append B e rl = (rl', None)" "le_Index e = of_nat (length L) + 1" "length L < 2 ^ 64 - 2"
  shows "holds B (L @ [clean_entry e]) rl'"
proof -
  have rl: "rl_ok B rl" using assms(1) by (simp add: holds_def)
  note c = Append_commit [OF rl assms(2)]
  have len: "unat (of_nat (length L) + 1 :: u64) = Suc (length L)"
    using assms(4) unat_index [of "Suc (length L)" "L @ [e]"] by (simp add: add.commute)
  have "log_at B rl' i = (if i \<noteq> 0 \<and> unat i \<le> length (L @ [clean_entry e])
      then Some ((L @ [clean_entry e]) ! (unat i - 1)) else None)" for i
  proof (cases "i = of_nat (length L) + 1")
    case True
    moreover have "(of_nat (length L) + 1 :: u64) \<noteq> 0" using len by (metis nat.distinct(1) unat_0)
    ultimately show ?thesis using c(2) assms(3) len by simp
  next
    case False
    then have ne: "unat i \<noteq> Suc (length L)" using len by (metis word_unat_eq_iff)
    then have "unat i - 1 < length L" if "i \<noteq> 0" "unat i \<le> Suc (length L)" using that by (simp add: unat_eq_0 [symmetric])
    then show ?thesis using False ne c(2) assms(1,3) by (auto simp: holds_def nth_append)
  qed
  then show ?thesis using c(1,4) assms(1,4) by (simp add: holds_def)
qed

section \<open>A follower catches up\<close>

lemma set_drop_nth: "e \<in> set (drop k L) \<longleftrightarrow> (\<exists>j. k \<le> j \<and> j < length L \<and> e = L ! j)"
proof
  assume "e \<in> set (drop k L)"
  then obtain i where "i < length L - k" "e = L ! (k + i)" by (auto simp: in_set_conv_nth)
  then show "\<exists>j. k \<le> j \<and> j < length L \<and> e = L ! j" by (intro exI [of _ "k + i"]) simp
next
  assume "\<exists>j. k \<le> j \<and> j < length L \<and> e = L ! j"
  then obtain j where "k \<le> j" "j < length L" "e = L ! j" by blast
  then show "e \<in> set (drop k L)" using nth_mem [of "j - k" "drop k L"] by simp
qed

lemma holds_stores:
  assumes "holds B (take k L) rl" "holds B L rl0" "k \<le> length L" "\<forall>e\<in>set L. le_Term e = 1 \<and> clean_entry e = e"
    "rl_ok B rl'" "stores B rl rl' (drop k L)"
  shows "holds B L rl'"
proof -
  note len = holds_len [OF assms(2)]
  have at: "unat (le_Index (L ! j)) = Suc j" if "j < length L" for j
    using holds_index [OF assms(2) that] unat_next [OF _ len, of j] that by simp
  have T: "TermAt B rl i = (if i \<noteq> 0 \<and> unat i \<le> k then 1 else 0)" for i
    using holds_TermAt [OF assms(1), of i] assms(3,4) in_set_takeD [of _ k L] by auto
  show ?thesis
    unfolding holds_def
  proof (intro conjI allI)
    show "rl_ok B rl'" "length L < 2 ^ 64 - 1" by (fact assms(5) len)+
    show "rl_snapshotIndex rl' = 0" using assms(1,6) by (simp add: stores_def holds_def)
    fix i
    show "log_at B rl' i = (if i \<noteq> 0 \<and> unat i \<le> length L then Some (L ! (unat i - 1)) else None)"
    proof (cases "k < unat i \<and> unat i \<le> length L")
      case True
      define j where "j = unat i - 1"
      have j: "k \<le> j" "j < length L" "unat i = Suc j" using True unfolding j_def by linarith+
      have e: "L ! j \<in> set (drop k L)" "le_Index (L ! j) = i" "clean_entry (L ! j) = L ! j"
        using j at [OF j(2)] assms(4) by (auto simp: set_drop_nth word_unat_eq_iff)
      then have "log_at B rl' i = Some (L ! j)" using assms(6) T [of i] True unfolding stores_def by fastforce
      then show ?thesis using True j by (auto simp: unat_eq_0 [symmetric])
    next
      case False
      then have "i \<notin> le_Index ` set (drop k L)" using at by (auto simp: set_drop_nth)
      then have "log_at B rl' i = log_at B rl i" using assms(6) by (simp add: stores_def)
      moreover have "unat i - 1 < k" if "i \<noteq> 0" "unat i \<le> k" using that by (simp add: unat_eq_0 [symmetric])
      ultimately show ?thesis using assms(1,3) False by (auto simp: holds_def)
    qed
  qed
qed

text \<open>The request of a leader that holds \<open>L\<close>, commits up to \<open>c\<close> and knows of \<open>k\<close> entries at the peer.\<close>

definition list_request :: "string \<Rightarrow> log_entry list \<Rightarrow> nat \<Rightarrow> nat \<Rightarrow> append_entries_request" where
  "list_request ldr L k c = \<lparr>aer_Term = 1, aer_LeaderID = ldr, aer_PrevLogIndex = of_nat k,
     aer_PrevLogTerm = (if k = 0 then 0 else 1), aer_Entries = drop k L, aer_LeaderCommit = of_nat c\<rparr>"

lemma leader_sends:
  assumes "rn_state n = Leader" "rn_currentTerm n = 1" "rn_leader n = Some ls" "index_get (nextIndex ls) (p_ID p) = of_nat k + 1"
    "holds B L (rn_raftLog n)" "\<forall>e\<in>set L. le_Term e = 1" "k \<le> length L" "rn_commitIndex n = of_nat c"
  shows "replicateToPeer B p n = (n, Some (RpcAppendEntries (list_request (rn_id n) L k c)))"
proof -
  let ?rl = "rn_raftLog n"
  note len = holds_len [OF assms(5)] and last = holds_last [OF assms(5)]
  have k: "unat (of_nat k :: u64) = k" "unat (of_nat k + 1 :: u64) = Suc k" "unat (of_nat (length L) :: u64) = length L"
    using unat_index [OF assms(7) len] unat_next [OF assms(7) len] unat_index [OF le_refl len] by simp_all
  have pt: "TermAt B ?rl (of_nat k) = (if k = 0 then 0 else 1)"
    using holds_TermAt [OF assms(5,6), of "of_nat k"] k(1) assms(7) by (auto simp: unat_eq_0 [symmetric])
  have "\<not> of_nat k + 1 \<le> SnapshotIndex ?rl" using assms(5) k(2) by (simp add: SnapshotIndex_def holds_def word_le_nat_alt)
  moreover have "(if of_nat k + 1 \<le> LastIndex B ?rl then GetRange B (of_nat k + 1) (LastIndex B ?rl) ?rl else Inr []) = Inr (drop k L)"
  proof (cases "k < length L")
    case True
    then have le: "of_nat k + 1 \<le> LastIndex B ?rl" using k last by (simp add: word_le_nat_alt)
    have "rl_snapshotIndex ?rl < of_nat k + 1" using assms(5) k(2) by (simp add: holds_def word_less_nat_alt)
    then have "GetRange B (of_nat k + 1) (LastIndex B ?rl) ?rl = Inr (entries_from B ?rl (of_nat k + 1) (LastIndex B ?rl))"
      using GetRange_full [OF le holds_ok [OF assms(5)] contiguous_filled [OF holds_contiguous [OF assms(5)]]] by blast
    then show ?thesis using le holds_entries_from [OF assms(5,7)] last by simp
  next
    case False
    then show ?thesis using assms(7) k last by (simp add: word_le_nat_alt)
  qed
  ultimately show ?thesis
    using assms(1-4,8) pt by (simp add: replicateToPeer_def Let_def list_request_def)
qed

lemma ae_append_list:
  assumes "holds B (take k L) rl" "holds B L rl0" "k \<le> length L" "\<forall>e\<in>set L. plain cmd_ok e" "bolt_writes_ok B"
  obtains rl' where "ae_append B (of_nat k + 1) (drop k L) rl = (rl', True)" "holds B L rl'"
proof -
  have pl: "\<forall>e\<in>set L. le_Term e = 1 \<and> clean_entry e = e \<and> entry_fits e" using assms(4) by (simp add: plain_def)
  note len = holds_len [OF assms(2)]
  have "batch_ok (drop k L)" using pl by (auto simp: batch_ok_def dest: in_set_dropD)
  moreover have "rl_snapshotIndex rl < of_nat k + 1"
    using assms(1) unat_next [OF assms(3) len] by (simp add: holds_def word_less_nat_alt)
  moreover have "agrees B rl (drop k L)"
    unfolding agrees_def
  proof
    fix e assume "e \<in> set (drop k L)"
    then obtain j where j: "k \<le> j" "j < length L" "e = L ! j" by (auto simp: set_drop_nth)
    then have "unat (le_Index e) = Suc j" using holds_index [OF assms(2) j(2)] unat_next [OF _ len, of j] by simp
    then show "TermAt B rl (le_Index e) \<in> {0, le_Term e}"
      using holds_TermAt [OF assms(1), of "le_Index e"] pl j(1) in_set_takeD [of _ k L] by auto
  qed
  ultimately obtain rl' where r: "ae_append B (of_nat k + 1) (drop k L) rl = (rl', True)" "rl_ok B rl'"
      "stores B rl rl' (drop k L)"
    using ae_append_agrees [OF holds_ok [OF assms(1)] assms(5) holds_runs [OF assms(2,3)]] by blast
  then show ?thesis using that holds_stores [OF assms(1-3) _ r(2,3)] pl by blast
qed

lemma follower_takes:
  assumes "node_ok B f" "\<not> rn_panicked f" "bolt_writes_ok B" "rn_currentTerm f \<le> 1"
    "holds B (take k L) (rn_raftLog f)" "holds B L rl0" "k \<le> length L" "\<forall>e\<in>set L. plain cmd_ok e"
    "rn_commitIndex f = of_nat cf" "cf \<le> c" "c \<le> length L" "HandleAppendEntries B (list_request ldr L k c) f = (f', resp)"
  shows "aes_Success resp" "aes_Term resp = 1" "aes_MatchIndex resp = of_nat (length L)" "holds B L (rn_raftLog f')"
    "rn_commitIndex f' = of_nat c" "rn_lastApplied f' = rn_lastApplied f" "rn_storage f' = rn_storage f"
    "\<not> rn_panicked f'" "rn_currentTerm f' = 1" "cf < c \<Longrightarrow> TApplyCommitted \<in> set (rn_tasks f')"
proof -
  let ?req = "list_request ldr L k c"
  have tm: "timer_ok (rn_cfg f)" using assms(1) by (simp add: node_ok_def)
  note len = holds_len [OF assms(6)]
  have u: "unat (of_nat c :: u64) = c" "unat (of_nat cf :: u64) = cf" "unat (of_nat k :: u64) = k" "unat (of_nat (length L) :: u64) = length L"
    using unat_index [OF _ len] assms(7,10,11) by simp_all
  have rq: "aer_Term ?req = 1" "aer_PrevLogIndex ?req = of_nat k" "aer_Entries ?req = drop k L" "aer_LeaderCommit ?req = of_nat c"
      "aer_PrevLogTerm ?req = (if k = 0 then 0 else 1)"
    by (simp_all add: list_request_def)
  note same = ae_enter_same_log [OF assms(1,3), of ?req]
  note h = holds_cong [OF assms(5) same]
  obtain rl' where app: "ae_append B (of_nat k + 1) (drop k L) (rn_raftLog (ae_enter B ?req f)) = (rl', True)" "holds B L rl'"
    using ae_append_list [OF h assms(6-8,3)] .
  have "\<forall>e\<in>set (take k L). le_Term e = 1" using assms(8) by (auto simp: plain_def dest: in_set_takeD)
  from holds_TermAt [OF h this, of "of_nat k"] have "prev_ok B (rn_raftLog (ae_enter B ?req f)) ?req"
    using holds_last [OF h] assms(7) u(3) rq by (auto simp: prev_ok_def unat_eq_0 [symmetric])
  then have ck: "ae_check B (rn_raftLog (ae_enter B ?req f)) ?req (ae_reply ?req f) = None"
    by (simp only: ae_check_None_iff)
  let ?m = "(ae_enter B ?req f)\<lparr>rn_raftLog := rl'\<rparr>"
  have fr: "f' = ae_commit ?req ?m \<and> resp = (ae_reply ?req f)\<lparr>aes_Success := True, aes_MatchIndex := LastIndex B rl'\<rparr>"
    using tm assms(2,12)
  proof (cases rule: HandleAppendEntries_cases)
    case stale
    then show ?thesis using assms(4) rq(1) by simp
  qed (use ck app(1) rq in simp_all)
  have "(if rn_currentTerm f < 1 then 1 else rn_currentTerm f) = 1"
    using assms(4) by (metis antisym linorder_not_less)
  then have t: "rn_currentTerm f \<noteq> 0 \<Longrightarrow> rn_currentTerm f = 1" by (simp split: if_splits)
  show "aes_Success resp" "aes_Term resp = 1" "aes_MatchIndex resp = of_nat (length L)"
    using fr t rq(1) holds_last [OF app(2)] by (simp_all add: ae_reply_def)
  have "follower_commit ?req (of_nat cf) = of_nat c"
    using u rq assms(10,11) by (simp add: follower_commit_def max_def min_def word_le_nat_alt of_nat_diff assms(7))
  then show "rn_commitIndex f' = of_nat c" using fr assms(9) by (simp add: ae_commit_value)
  have "rn_storage ?m = rn_storage f" "\<not> rn_panicked ?m"
    using assms(2) ae_enter_panic [OF tm, of B ?req] by (simp_all add: ae_enter_def Let_def)
  then show "holds B L (rn_raftLog f')" "rn_lastApplied f' = rn_lastApplied f" "rn_storage f' = rn_storage f" "\<not> rn_panicked f'"
      "rn_currentTerm f' = 1"
    using fr app(2) t rq(1) by (simp_all add: ae_commit_def Let_def)
  show "TApplyCommitted \<in> set (rn_tasks f')" if "cf < c"
    using fr u rq assms(7,9,11) that by (simp add: ae_commit_def Let_def word_less_nat_alt of_nat_diff)
qed

section \<open>The leader counts\<close>

lemma everyone_has:
  assumes "distinct (map fst ms)" "\<forall>x\<in>fst ` set ms. index_get ms x = i"
  shows "length ms + 1 < 2 * (1 + card {p. \<exists>j. map_of ms p = Some j \<and> i \<le> j})"
proof -
  have "map_of ms p = Some i" if "p \<in> fst ` set ms" for p
  proof (cases "map_of ms p")
    case None
    then show ?thesis using that by (simp add: map_of_eq_None_iff)
  next
    case (Some j)
    then show ?thesis using bspec [OF assms(2) that] by (simp add: index_get_def)
  qed
  then have "{p. \<exists>j. map_of ms p = Some j \<and> i \<le> j} = fst ` set ms"
    by (auto dest: map_of_SomeD intro: rev_image_eqI)
  then show ?thesis using distinct_card [OF assms(1)] by simp
qed

lemma note_match_next_other: "j \<noteq> k \<Longrightarrow> index_get (nextIndex (note_match k m ls)) j = index_get (nextIndex ls) j"
  by (simp add: note_match_def Let_def index_get_def update_conv')

text \<open>What the leader knows of its peers.\<close>

definition tracks :: "peer list \<Rightarrow> (string \<Rightarrow> nat) \<Rightarrow> leader_state \<Rightarrow> bool" where
  "tracks ps ks ls \<longleftrightarrow> (\<forall>p\<in>set ps. index_get (matchIndex ls) (p_ID p) = of_nat (ks (p_ID p)) \<and>
     index_get (nextIndex ls) (p_ID p) = of_nat (ks (p_ID p)) + 1)"

lemma tracks_note:
  assumes "tracks ps ks ls" "ks (p_ID p) \<le> k" "p \<in> set ps" "k < 2 ^ 64 - 1"
  shows "tracks ps (ks(p_ID p := k)) (note_match (p_ID p) (of_nat k) ls)"
proof -
  have "(of_nat (ks (p_ID p)) :: u64) \<le> of_nat k"
    using assms(2,4) by (simp add: word_le_nat_alt unat_of_nat)
  then have "index_get (matchIndex (note_match (p_ID p) (of_nat k) ls)) (p_ID p) = of_nat k"
    using assms(1,3) by (simp add: note_match_value tracks_def max_def)
  then show ?thesis
    using assms(1) note_match_next [of "p_ID p" "of_nat k" ls]
    by (auto simp: tracks_def note_match_value note_match_next_other)
qed

lemma leader_counts:
  assumes "leader_wf n" "p \<in> set (rn_peers n)" "rn_state n = Leader" "rn_currentTerm n = 1" "rn_leader n = Some ls"
    "tracks (rn_peers n) ks ls" "ks (p_ID p) \<le> length L" "holds B L (rn_raftLog n)" "\<forall>e\<in>set L. le_Term e = 1" "rn_commitIndex n = of_nat c"
    "c \<le> length L" "aes_Success resp" "aes_Term resp = 1" "aes_MatchIndex resp = of_nat (length L)"
  obtains c' ls' where "append_reply B p resp n = n\<lparr>rn_leader := Some ls', rn_commitIndex := of_nat c',
      rn_tasks := rn_tasks n @ (if c < c' then [TApplyCommitted] else [])\<rparr>"
    "c \<le> c'" "c' \<le> length L" "tracks (rn_peers n) (ks(p_ID p := length L)) ls'"
    "\<forall>q\<in>set (rn_peers n). (ks(p_ID p := length L)) (p_ID q) = length L \<Longrightarrow> c' = length L"
proof -
  define ls' where "ls' = note_match (p_ID p) (of_nat (length L)) ls"
  let ?ms = "matchIndex ls'" and ?rl = "rn_raftLog n"
  note len = holds_len [OF assms(8)] and last = holds_last [OF assms(8)]
  have u: "unat (of_nat c :: u64) = c" "unat (of_nat (length L) :: u64) = length L"
    using unat_index [OF _ len] assms(11) by simp_all
  have tr: "tracks (rn_peers n) (ks(p_ID p := length L)) ls'"
    unfolding ls'_def by (rule tracks_note [OF assms(6,7,2) len])
  have wf: "distinct (map fst ?ms)" "fst ` set ?ms = p_ID ` set (rn_peers n)"
    using note_match_wf [of ls "p_ID p"] assms(1,2,5) by (simp_all add: ls'_def leader_wf_def)
  define x where "x = commit_loop ?ms (of_nat c) 1 (TermAt B ?rl) (of_nat (length L))"
  note sp = commit_loop_spec [OF wf(1), of "of_nat c" 1 "TermAt B ?rl" "of_nat (length L)", folded x_def]
  have r: "append_reply B p resp n = (if 0 < x then n\<lparr>rn_leader := Some ls', rn_commitIndex := x,
      rn_tasks := rn_tasks n @ [TApplyCommitted]\<rparr> else n\<lparr>rn_leader := Some ls'\<rparr>)"
    using assms(3-5,10,12-14) last
    by (simp add: append_reply_def Let_def ls'_def [symmetric] commitCandidate_def x_def)
  define c' where "c' = (if x = 0 then c else unat x)"
  have c': "c < c' \<longleftrightarrow> x \<noteq> 0" "c \<le> c'" "c' \<le> length L"
    using sp u assms(11) by (auto simp: c'_def committable_def word_less_nat_alt word_le_nat_alt)
  have all: "c' = length L" if "\<forall>q\<in>set (rn_peers n). (ks(p_ID p := length L)) (p_ID q) = length L"
  proof (rule ccontr)
    assume ne: "c' \<noteq> length L"
    have "\<forall>q\<in>fst ` set ?ms. index_get ?ms q = of_nat (length L)"
      unfolding wf(2) using tr that by (simp add: tracks_def)
    moreover have "L \<noteq> []" using ne c'(3) by auto
    then have "TermAt B ?rl (of_nat (length L)) = 1"
      using holds_TermAt [OF assms(8,9), of "of_nat (length L)"] u(2) by (auto simp: unat_eq_0 [symmetric])
    moreover have "(of_nat c :: u64) < of_nat (length L)" using ne c'(2,3) u by (simp add: word_less_nat_alt)
    ultimately have "committable ?ms (of_nat c) 1 (TermAt B ?rl) (of_nat (length L)) (of_nat (length L))"
      using everyone_has [OF wf(1)] by (simp add: committable_def)
    with sp have "x \<noteq> 0" "of_nat (length L) \<le> x" by (metis, metis)
    then show False using ne c'(3) u by (simp add: c'_def word_le_nat_alt)
  qed
  have "append_reply B p resp n = n\<lparr>rn_leader := Some ls', rn_commitIndex := of_nat c',
      rn_tasks := rn_tasks n @ (if c < c' then [TApplyCommitted] else [])\<rparr>"
    using r c'(1) assms(10) by (auto simp: c'_def word_gt_0)
  with c'(2,3) tr all show ?thesis by (intro that)
qed

section \<open>The state machine\<close>

lemma apply_entry_timer: "rn_heartbeatTimer (apply_entry E e n) = rn_heartbeatTimer n"
  by (simp add: apply_entry_def Let_def split: prod.split option.split)

lemma applyCommitted_keeps:
  "rn_raftLog (applyCommitted B E n) = rn_raftLog n" "rn_commitIndex (applyCommitted B E n) = rn_commitIndex n"
  "rn_state (applyCommitted B E n) = rn_state n" "rn_currentTerm (applyCommitted B E n) = rn_currentTerm n"
  "rn_leader (applyCommitted B E n) = rn_leader n" "rn_peers (applyCommitted B E n) = rn_peers n"
  "rn_heartbeatTimer (applyCommitted B E n) = rn_heartbeatTimer n"
proof -
  let ?same = "\<lambda>n n'. rn_raftLog n' = rn_raftLog n \<and> rn_commitIndex n' = rn_commitIndex n \<and> rn_state n' = rn_state n \<and>
    rn_currentTerm n' = rn_currentTerm n \<and> rn_leader n' = rn_leader n \<and> rn_peers n' = rn_peers n \<and>
    rn_heartbeatTimer n' = rn_heartbeatTimer n"
  have "?same n (applyCommitted B E n)"
  proof (induction B E n rule: applyCommitted.induct)
    case (1 B E n)
    show ?case
      unfolding applyCommitted.simps [of B E n] using 1 by (auto simp: Let_def apply_entry_timer split: sum.split)
  qed
  then show "rn_raftLog (applyCommitted B E n) = rn_raftLog n" "rn_commitIndex (applyCommitted B E n) = rn_commitIndex n"
    "rn_state (applyCommitted B E n) = rn_state n" "rn_currentTerm (applyCommitted B E n) = rn_currentTerm n"
    "rn_leader (applyCommitted B E n) = rn_leader n" "rn_peers (applyCommitted B E n) = rn_peers n"
    "rn_heartbeatTimer (applyCommitted B E n) = rn_heartbeatTimer n" by blast+
qed

lemma kv_exec_append: "kv_exec (es @ ds) m = kv_exec ds (kv_exec es m)"
  by (simp add: kv_exec_def)

context healthy_engine
begin

lemma apply_list:
  assumes "holds B L (rn_raftLog n)" "\<forall>e\<in>set L. plain cmd_ok e" "ok (rn_storage n)" "\<not> rn_panicked n" "pending_ok n"
    "rn_lastApplied n = of_nat b" "rn_commitIndex n = of_nat c" "b \<le> c" "c \<le> length L"
    "contents (rn_storage n) = kv_exec (take b L) m"
  shows "rn_lastApplied (applyCommitted B E n) = of_nat c" "ok (rn_storage (applyCommitted B E n))"
    "\<not> rn_panicked (applyCommitted B E n)" "contents (rn_storage (applyCommitted B E n)) = kv_exec (take c L) m"
proof -
  note len = holds_len [OF assms(1)]
  have u: "unat (of_nat b :: u64) = b" "unat (of_nat c :: u64) = c" using unat_index [OF _ len] assms(8,9) by simp_all
  have "range_ready B cmd_ok n"
    unfolding range_ready_def
  proof (intro allI impI)
    fix i assume i: "rn_lastApplied n < i \<and> i \<le> rn_commitIndex n"
    then have "unat i \<le> length L" "i \<noteq> 0"
      using u assms(6,7,9) by (auto simp: word_less_nat_alt word_le_nat_alt)
    moreover from this have "unat i - 1 < length L" by (simp add: unat_eq_0 [symmetric])
    ultimately show "\<exists>e. log_at B (rn_raftLog n) i = Some e \<and> runnable cmd_ok (le_Command e)"
      using assms(1,2) by (simp add: holds_def plain_def)
  qed
  moreover have "rn_lastApplied n \<le> rn_commitIndex n" using assms(6-8) u by (simp add: word_le_nat_alt)
  ultimately have r: "apply_result B ok contents n (applyCommitted B E n)"
    by (intro applyCommitted_exact holds_ok [OF assms(1)] assms)
  then show "rn_lastApplied (applyCommitted B E n) = of_nat c" "ok (rn_storage (applyCommitted B E n))"
    "\<not> rn_panicked (applyCommitted B E n)" using assms(7) by (simp_all add: apply_result_def)
  have "take b (take c L) @ drop b (take c L) = take c L" by (rule append_take_drop_id)
  then have "kv_exec (drop b (take c L)) (kv_exec (take b L) m) = kv_exec (take c L) m"
    using assms(8) by (simp flip: kv_exec_append add: min_absorb1)
  then show "contents (rn_storage (applyCommitted B E n)) = kv_exec (take c L) m"
    using r assms(6,7,10) u holds_entries_between [OF assms(1,9), of b] by (simp add: apply_result_def)
qed

end

end
