(* ===== verification/Commit_Liveness.thy ===== *)
theory Commit_Liveness
  imports Election_Liveness Log_Image Network
begin

text \<open>
  Proposed commands reach every replica. In a new cluster a node is elected, and then, for each of a
  list of commands, the client proposes it, the leader sends it to every peer, the peers answer, the
  leader commits, and a second heartbeat tells the peers; everyone applies. The run is made of steps
  of the network, with the requests and replies that the nodes really build, and ends with the
  same log and the same contents at every node.
\<close>

section \<open>Nodes in step\<close>

text \<open>A node that has applied the first \<open>c\<close> entries of \<open>L\<close> to an empty store.\<close>

definition resting ::
  "('st \<Rightarrow> bool) \<Rightarrow> ('st \<Rightarrow> kv_map) \<Rightarrow> log_entry list \<Rightarrow> nat \<Rightarrow> ('db, 'st) raft_node \<Rightarrow> bool" where
  "resting ok contents L c n \<longleftrightarrow> \<not> rn_panicked n \<and> rn_commitIndex n = of_nat c \<and> rn_lastApplied n = of_nat c \<and>
     c \<le> length L \<and> ok (rn_storage n) \<and> contents (rn_storage n) = kv_exec (take c L) Map.empty"

text \<open>The leader knows that peer \<open>q\<close> has the first \<open>ks q\<close> entries.\<close>

definition leader_at ::
  "'db bolt \<Rightarrow> ('st \<Rightarrow> bool) \<Rightarrow> ('st \<Rightarrow> kv_map) \<Rightarrow> log_entry list \<Rightarrow> nat \<Rightarrow> (string \<Rightarrow> nat) \<Rightarrow> ('db, 'st) raft_node \<Rightarrow> bool" where
  "leader_at B ok contents L c ks n \<longleftrightarrow> resting ok contents L c n \<and> holds B L (rn_raftLog n) \<and> rn_state n = Leader \<and>
     rn_currentTerm n = 1 \<and> rn_heartbeatTimer n \<in> range Armed \<and> (\<exists>ls. rn_leader n = Some ls \<and> tracks (rn_peers n) ks ls)"

definition follower_at ::
  "'db bolt \<Rightarrow> ('st \<Rightarrow> bool) \<Rightarrow> ('st \<Rightarrow> kv_map) \<Rightarrow> log_entry list \<Rightarrow> nat \<Rightarrow> nat \<Rightarrow> ('db, 'st) raft_node \<Rightarrow> bool" where
  "follower_at B ok contents L k c n \<longleftrightarrow> resting ok contents L c n \<and> k \<le> length L \<and>
     holds B (take k L) (rn_raftLog n) \<and> rn_currentTerm n \<le> 1"

definition in_step ::
  "'db bolt \<Rightarrow> ('st \<Rightarrow> bool) \<Rightarrow> ('st \<Rightarrow> kv_map) \<Rightarrow> string list \<Rightarrow> string \<Rightarrow> log_entry list \<Rightarrow> nat \<Rightarrow>
   (string \<Rightarrow> nat) \<Rightarrow> (string \<Rightarrow> nat) \<Rightarrow> ('db, 'st) network \<Rightarrow> bool" where
  "in_step B ok contents ids a L c ks cs s \<longleftrightarrow> cl_run (nw_cl s) a = Idle \<and> leader_at B ok contents L c ks (nw_node s a) \<and>
     (\<forall>q\<in>set ids - {a}. cs q \<le> c \<and> follower_at B ok contents L (ks q) (cs q) (nw_node s q))"

lemma leader_at_cong:
  assumes "leader_at B ok contents L c ks n" "rn_panicked n' = rn_panicked n" "rn_commitIndex n' = rn_commitIndex n"
    "rn_lastApplied n' = rn_lastApplied n" "rn_storage n' = rn_storage n" "rn_raftLog n' = rn_raftLog n"
    "rn_state n' = rn_state n" "rn_currentTerm n' = rn_currentTerm n" "rn_heartbeatTimer n' \<in> range Armed"
    "rn_leader n' = rn_leader n" "rn_peers n' = rn_peers n"
  shows "leader_at B ok contents L c ks n'"
  using assms by (simp add: leader_at_def resting_def)

lemma in_step_cong:
  assumes "in_step B ok contents ids a L c ks cs s" "p_ID ` set (rn_peers (nw_node s a)) = set ids - {a}"
    "\<And>q. q \<in> set ids - {a} \<Longrightarrow> ks' q = ks q \<and> cs' q = cs q"
  shows "in_step B ok contents ids a L c ks' cs' s"
proof -
  have "tracks (rn_peers (nw_node s a)) ks' ls = tracks (rn_peers (nw_node s a)) ks ls" for ls
    using assms(2,3) unfolding tracks_def by (metis imageI)
  then show ?thesis using assms(1,3) by (simp add: in_step_def leader_at_def)
qed

lemma leader_heartbeat:
  assumes "leader_at B ok contents L c ks n" "p \<in> set (rn_peers n)"
  shows "leader_at B ok contents L c ks (run_heartbeatTick n)" "TReplicate p \<in> set (rn_tasks (run_heartbeatTick n))"
    "rn_peers (run_heartbeatTick n) = rn_peers n"
proof -
  have "rn_state n = Leader" using assms(1) by (simp add: leader_at_def)
  then have h: "run_heartbeatTick n = (resetHeartbeatTimer n)\<lparr>rn_tasks := rn_tasks n @ map TReplicate (rn_peers n)\<rparr>"
    by (simp add: run_heartbeatTick_def broadcastAppendEntries_def resetHeartbeatTimer_def)
  show "leader_at B ok contents L c ks (run_heartbeatTick n)"
    by (rule leader_at_cong [OF assms(1)]) (simp_all add: h resetHeartbeatTimer_def)
  show "TReplicate p \<in> set (rn_tasks (run_heartbeatTick n))" "rn_peers (run_heartbeatTick n) = rn_peers n"
    unfolding h using assms(2) by (simp_all add: resetHeartbeatTimer_def)
qed

lemma put_node_same: "put_node q (nw_node s q) s = s"
proof -
  have "set_node q (nw_node s q) (nw_cl s) = nw_cl s" by simp
  then show ?thesis by (simp only:) simp
qed

lemma clean_list_request:
  assumes "\<forall>e\<in>set L. plain cmd_ok e"
  shows "clean_aer (list_request ldr L k c) = list_request (to_valid_utf8 ldr) L k c"
proof -
  have "map clean_entry (drop k L) = drop k L"
    by (rule map_idI) (use assms in \<open>auto simp: plain_def dest: in_set_dropD\<close>)
  then show ?thesis by (simp add: clean_aer_def list_request_def)
qed

lemma clean_aes_simps [simp]:
  "aes_Success (clean_aes r) = aes_Success r" "aes_Term (clean_aes r) = aes_Term r"
  "aes_MatchIndex (clean_aes r) = aes_MatchIndex r"
  by (simp_all add: clean_aes_def)

section \<open>One peer\<close>

context healthy_engine
begin

lemma catch_up:
  assumes "net_reachable B E F cfgs ids s" "configured cfgs ids" "bolt_spec B" "bolt_writes_ok B" "q \<in> set ids"
    "holds B L (rn_raftLog (nw_node s q))" "\<forall>e\<in>set L. plain cmd_ok e" "\<not> rn_panicked (nw_node s q)"
    "ok (rn_storage (nw_node s q))" "contents (rn_storage (nw_node s q)) = kv_exec (take b L) Map.empty"
    "rn_lastApplied (nw_node s q) = of_nat b" "rn_commitIndex (nw_node s q) = of_nat c" "b \<le> c" "c \<le> length L"
    "b < c \<Longrightarrow> TApplyCommitted \<in> set (rn_tasks (nw_node s q))"
  obtains n' where "net_reachable B E F cfgs ids (put_node q n' s)" "resting ok contents L c n'"
    "rn_raftLog n' = rn_raftLog (nw_node s q)" "rn_state n' = rn_state (nw_node s q)"
    "rn_currentTerm n' = rn_currentTerm (nw_node s q)" "rn_leader n' = rn_leader (nw_node s q)"
    "rn_peers n' = rn_peers (nw_node s q)" "rn_heartbeatTimer n' = rn_heartbeatTimer (nw_node s q)"
proof (cases "b < c")
  case True
  let ?n = "drop_task TApplyCommitted (nw_node s q)"
  have "pending_ok ?n" using net_node(4) [OF assms(1-4,2-4,5)] by (simp add: volatile_ok_def pending_ok_def)
  note ap = apply_list [where n = ?n and m = Map.empty, OF _ assms(7) _ _ this _ _ assms(13,14), simplified, OF assms(6,9,8,11,12,10)]
  note k = applyCommitted_keeps [of B E ?n, simplified]
  show ?thesis
    by (rule that [OF net_reachable.step [OF assms(1) net_step.apply_task [OF assms(5,8) assms(15) [OF True]]]])
      (use ap k assms(12,14) in \<open>simp_all add: resting_def\<close>)
next
  case False
  then have "b = c" using assms(13) by simp
  then show ?thesis
    by (intro that [of "nw_node s q"]) (use assms in \<open>simp_all only: put_node_same resting_def simp_thms\<close>)
qed

text \<open>A heartbeat makes the leader send a peer what it lacks.\<close>

lemma request_sent:
  assumes "net_reachable B E F cfgs ids s" "configured cfgs ids" "bolt_spec B" "bolt_writes_ok B" "a \<in> set ids"
    "cl_run (nw_cl s) a = Idle" "leader_at B ok contents L c ks (nw_node s a)" "p \<in> set (peers_of (cfgs a))"
    "ks (p_ID p) = k" "k \<le> length L" "\<forall>e\<in>set L. plain cmd_ok e"
  obtains s' n rpc where "net_reachable B E F cfgs ids s'" "nw_cl s' = set_node a n (nw_cl s)"
    "leader_at B ok contents L c ks n" "rpc = RpcAppendEntries (list_request a L k c)"
    "(p_ID p, rpc) \<in> nw_sent s'" "(a, p, rpc) \<in> set (nw_calls s')"
proof -
  let ?n = "nw_node s a"
  define n1 where "n1 = run_heartbeatTick ?n"
  have "p \<in> set (rn_peers ?n)" using net_node(3) [OF assms(1-4,2-5)] assms(8) by simp
  note h = leader_heartbeat [OF assms(7) this, folded n1_def]
  have live: "\<not> rn_panicked ?n" "\<not> rn_panicked n1" "rn_heartbeatTimer ?n \<in> range Armed"
    using assms(7) h(1) by (simp_all add: leader_at_def resting_def)
  define s1 where "s1 = put_node a n1 s"
  have r1: "net_reachable B E F cfgs ids s1"
    unfolding s1_def n1_def by (rule net_reachable.step [OF assms(1) net_step.heartbeat [OF assms(5) live(1) assms(6) live(3)]])
  define n2 where "n2 = drop_task (TReplicate p) n1"
  have l2: "leader_at B ok contents L c ks n2"
    by (rule leader_at_cong [OF h(1)]) (use h(1) in \<open>simp_all add: n2_def leader_at_def\<close>)
  have L: "rn_state n2 = Leader" "rn_currentTerm n2 = 1" "holds B L (rn_raftLog n2)" "rn_commitIndex n2 = of_nat c"
    using l2 by (simp_all add: leader_at_def resting_def)
  obtain ls where ls: "rn_leader n2 = Some ls" "index_get (nextIndex ls) (p_ID p) = of_nat k + 1"
    using l2 h(3) net_node(3) [OF assms(1-4,2-5)] assms(8,9) by (auto simp: leader_at_def tracks_def n2_def)
  have id: "rn_id n2 = a" using net_node(5) [OF r1 assms(2-4,2-5)] by (simp add: s1_def n2_def)
  let ?rpc = "RpcAppendEntries (list_request a L k c)"
  have terms: "\<forall>e\<in>set L. le_Term e = 1" using assms(11) by (simp add: plain_def)
  have snd: "replicateToPeer B p n2 = (n2, Some ?rpc)"
    using leader_sends [OF L(1,2) ls L(3) terms assms(10) L(4)] id by simp
  define s2 where "s2 = put_node a n2 (s1\<lparr>nw_sent := insert (p_ID p, ?rpc) (nw_sent s1), nw_calls := nw_calls s1 @ [(a, p, ?rpc)]\<rparr>)"
  have "net_step B E F cfgs ids s1 s2"
    unfolding s2_def by (rule net_step.send [OF assms(5)]) (use live(2) h(2) snd in \<open>simp_all add: s1_def n2_def\<close>)
  then have "net_reachable B E F cfgs ids s2" by (rule net_reachable.step [OF r1])
  then show ?thesis by (rule that [where n = n2 and rpc = ?rpc]) (use l2 in \<open>simp_all add: s2_def s1_def\<close>)
qed

text \<open>The peer stores the entries, answers, and applies what the leader has committed.\<close>

lemma peer_synced:
  assumes "net_reachable B E F cfgs ids s" "configured cfgs ids" "bolt_spec B" "bolt_writes_ok B" "a \<in> set ids"
    "cl_run (nw_cl s) a = Idle" "leader_at B ok contents L c ks (nw_node s a)" "p \<in> set (peers_of (cfgs a))"
    "ks (p_ID p) = k" "follower_at B ok contents L k cf (nw_node s (p_ID p))" "cf \<le> c" "\<forall>e\<in>set L. plain cmd_ok e"
  obtains s' n f rpc resp where "net_reachable B E F cfgs ids s'" "nw_cl s' = set_node (p_ID p) f (set_node a n (nw_cl s))"
    "leader_at B ok contents L c ks n" "follower_at B ok contents L (length L) c f"
    "(a, p, rpc) \<in> set (nw_calls s')" "(p_ID p, rpc, ReAppend resp) \<in> nw_replies s'" "\<exists>req. rpc = RpcAppendEntries req"
    "aes_Success resp" "aes_Term resp = 1" "aes_MatchIndex resp = of_nat (length L)"
proof -
  have pid: "p_ID p \<in> set ids" "p_ID p \<noteq> a" using configuredD(5) [OF assms(2,5)] assms(8) by auto
  let ?f = "nw_node s (p_ID p)"
  have k: "k \<le> length L" using assms(10) by (simp add: follower_at_def)
  obtain s2 n2 rpc where r2: "net_reachable B E F cfgs ids s2" "nw_cl s2 = set_node a n2 (nw_cl s)"
      "leader_at B ok contents L c ks n2" "rpc = RpcAppendEntries (list_request a L k c)"
      "(p_ID p, rpc) \<in> nw_sent s2" "(a, p, rpc) \<in> set (nw_calls s2)"
    using request_sent [OF assms(1-9) k assms(12)] .
  have L: "holds B L (rn_raftLog n2)" "c \<le> length L" using r2(3) by (simp_all add: leader_at_def resting_def)
  have n2s: "nw_node s2 (p_ID p) = ?f" using r2(2) pid(2) by simp
  obtain f1 resp where hd: "HandleAppendEntries B (list_request (to_valid_utf8 a) L k c) ?f = (f1, resp)" by fastforce
  have f: "node_ok B ?f" "\<not> rn_panicked ?f" "rn_currentTerm ?f \<le> 1" "holds B (take k L) (rn_raftLog ?f)"
      "rn_commitIndex ?f = of_nat cf" "rn_lastApplied ?f = of_nat cf" "ok (rn_storage ?f)"
      "contents (rn_storage ?f) = kv_exec (take cf L) Map.empty"
    using net_node(1) [OF assms(1-4,2-4) pid(1)] assms(10) by (simp_all add: follower_at_def resting_def)
  note t = follower_takes [OF f(1,2) assms(4) f(3,4) L(1) k assms(12) f(5) assms(11) L(2) hd]
  define s3 where "s3 = put_node (p_ID p) f1 (s2\<lparr>nw_replies := insert (p_ID p, rpc, ReAppend (clean_aes resp)) (nw_replies s2)\<rparr>)"
  have "net_step B E F cfgs ids s2 s3"
    unfolding s3_def
    by (rule net_step.deliver [OF pid(1)]) (use f(2) n2s hd r2(4,5) in \<open>simp_all add: clean_list_request [OF assms(12)]\<close>)
  then have r3: "net_reachable B E F cfgs ids s3" by (rule net_reachable.step [OF r2(1)])
  have f1: "nw_node s3 (p_ID p) = f1" by (simp add: s3_def)
  obtain f2 where f2: "net_reachable B E F cfgs ids (put_node (p_ID p) f2 s3)" "resting ok contents L c f2"
      "rn_raftLog f2 = rn_raftLog f1" "rn_currentTerm f2 = rn_currentTerm f1"
    using catch_up [OF r3 assms(2-4) pid(1), of L cf c, unfolded f1] t(4-8,10) f(6-8) assms(11,12) L(2) by metis
  show ?thesis
  proof (rule that [where f = f2 and n = n2 and rpc = rpc and resp = "clean_aes resp", OF f2(1)])
    show "follower_at B ok contents L (length L) c f2" using f2(2-4) t(4,9) by (simp add: follower_at_def)
  qed (use r2(2-4,6) t(1-3) in \<open>simp_all add: s3_def\<close>)
qed

text \<open>The answer, and the work of the leader.\<close>

lemma sync_peer:
  assumes "net_reachable B E F cfgs ids s" "configured cfgs ids" "bolt_spec B" "bolt_writes_ok B" "a \<in> set ids"
    "in_step B ok contents ids a L c ks cs s" "p \<in> set (peers_of (cfgs a))" "\<forall>e\<in>set L. plain cmd_ok e"
  obtains s' c' where "net_reachable B E F cfgs ids s'"
    "in_step B ok contents ids a L c' (ks(p_ID p := length L)) (cs(p_ID p := c)) s'" "c \<le> c'"
    "\<forall>q\<in>set ids - {a}. (ks(p_ID p := length L)) q = length L \<Longrightarrow> c' = length L"
proof -
  have pids: "p_ID ` set (peers_of (cfgs a)) = set ids - {a}" by (rule configuredD(5) [OF assms(2,5)])
  then have pid: "p_ID p \<in> set ids - {a}" using assms(7) by auto
  have i: "cl_run (nw_cl s) a = Idle" "leader_at B ok contents L c ks (nw_node s a)"
      "\<And>q. q \<in> set ids - {a} \<Longrightarrow> cs q \<le> c \<and> follower_at B ok contents L (ks q) (cs q) (nw_node s q)"
    using assms(6) unfolding in_step_def by blast+
  obtain s1 n f rpc resp where s1: "net_reachable B E F cfgs ids s1"
      "nw_cl s1 = set_node (p_ID p) f (set_node a n (nw_cl s))"
      "leader_at B ok contents L c ks n" "follower_at B ok contents L (length L) c f"
      "(a, p, rpc) \<in> set (nw_calls s1)" "(p_ID p, rpc, ReAppend resp) \<in> nw_replies s1" "\<exists>req. rpc = RpcAppendEntries req"
      "aes_Success resp" "aes_Term resp = 1" "aes_MatchIndex resp = of_nat (length L)"
    using peer_synced [OF assms(1-5) i(1,2) assms(7) refl _ _ assms(8)] i(3) [OF pid] by metis
  have n1: "nw_node s1 a = n" using s1(2) pid by auto
  note nd = net_node [OF s1(1) assms(2-4,2-5), unfolded n1]
  have L: "\<not> rn_panicked n" "rn_state n = Leader" "rn_currentTerm n = 1" "holds B L (rn_raftLog n)" "rn_commitIndex n = of_nat c"
      "rn_lastApplied n = of_nat c" "c \<le> length L" "ok (rn_storage n)" "contents (rn_storage n) = kv_exec (take c L) Map.empty"
      "rn_heartbeatTimer n \<in> range Armed"
    using s1(3) by (simp_all add: leader_at_def resting_def)
  obtain ls where ls: "rn_leader n = Some ls" "tracks (rn_peers n) ks ls" using s1(3) by (auto simp: leader_at_def)
  have "p \<in> set (rn_peers n)" "ks (p_ID p) \<le> length L" "\<forall>e\<in>set L. le_Term e = 1"
    using nd(3) assms(7,8) i(3) [OF pid] by (simp_all add: follower_at_def plain_def)
  from leader_counts [OF nd(2) this(1) L(2,3) ls this(2) L(4) this(3) L(5,7) s1(8-10)]
  obtain c' ls' where c': "append_reply B p resp n = n\<lparr>rn_leader := Some ls', rn_commitIndex := of_nat c',
        rn_tasks := rn_tasks n @ (if c < c' then [TApplyCommitted] else [])\<rparr>"
      "c \<le> c'" "c' \<le> length L" "tracks (rn_peers n) (ks(p_ID p := length L)) ls'"
      "\<forall>q\<in>set (rn_peers n). (ks(p_ID p := length L)) (p_ID q) = length L \<Longrightarrow> c' = length L" by metis
  define s2 where "s2 = put_node a (append_reply B p resp n) (s1\<lparr>nw_calls := remove1 (a, p, rpc) (nw_calls s1)\<rparr>)"
  have "receive_reply B p rpc (ReAppend resp) n = append_reply B p resp n" using s1(7) by auto
  then have "net_step B E F cfgs ids s1 s2"
    unfolding s2_def using net_step.answer [OF assms(5) _ s1(5,6), of B E F cfgs] L(1) n1 by simp
  then have r2: "net_reachable B E F cfgs ids s2" by (rule net_reachable.step [OF s1(1)])
  have n2: "nw_node s2 a = append_reply B p resp n" by (simp add: s2_def)
  obtain n3 where n3: "net_reachable B E F cfgs ids (put_node a n3 s2)" "resting ok contents L c' n3"
      "rn_raftLog n3 = rn_raftLog n" "rn_state n3 = Leader" "rn_currentTerm n3 = 1" "rn_leader n3 = Some ls'"
      "rn_peers n3 = rn_peers n" "rn_heartbeatTimer n3 = rn_heartbeatTimer n"
    by (rule catch_up [OF r2 assms(2-5), of L c c', unfolded n2 c'(1)]) (use L c'(2,3) assms(8) in simp_all)
  have "leader_at B ok contents L c' (ks(p_ID p := length L)) n3"
    using n3(2-8) L(4,10) c'(4) by (simp add: leader_at_def)
  moreover have "follower_at B ok contents L (ks q) (cs q) (nw_node s q) \<and> cs q \<le> c'" if "q \<in> set ids - {a}" for q
    using i(3) [OF that] c'(2) by simp
  moreover have "nw_cl (put_node a n3 s2) = set_node a n3 (set_node (p_ID p) f (nw_cl s))"
    using pid by (simp add: s2_def s1(2) fun_upd_twist)
  ultimately have "in_step B ok contents ids a L c' (ks(p_ID p := length L)) (cs(p_ID p := c)) (put_node a n3 s2)"
    unfolding in_step_def using s1(4) c'(2) i(1) pid by simp
  then show ?thesis
    by (rule that [OF n3(1) _ c'(2) c'(5)]) (simp_all only: nd(3) pids [symmetric] ball_simps)
qed

section \<open>All peers\<close>

lemma sync_all:
  assumes "net_reachable B E F cfgs ids s" "configured cfgs ids" "bolt_spec B" "bolt_writes_ok B" "a \<in> set ids"
    "in_step B ok contents ids a L c ks cs s" "set ps \<subseteq> set (peers_of (cfgs a))" "\<forall>e\<in>set L. plain cmd_ok e"
    "ks' = (\<lambda>q. if q \<in> p_ID ` set ps then length L else ks q)"
  shows "\<exists>s' c' cs'. net_reachable B E F cfgs ids s' \<and> in_step B ok contents ids a L c' ks' cs' s' \<and> c \<le> c' \<and>
    (\<forall>q\<in>set ids - {a}. cs q \<le> cs' q) \<and> (\<forall>q\<in>p_ID ` set ps. c \<le> cs' q) \<and>
    (ps \<noteq> [] \<longrightarrow> (\<forall>q\<in>set ids - {a}. ks' q = length L) \<longrightarrow> c' = length L)"
  using assms(1,6,7,9)
proof (induction ps arbitrary: s c ks cs)
  case Nil
  then show ?case by auto
next
  case (Cons p ps)
  have pid: "p_ID p \<in> set ids - {a}" using Cons.prems(3) configuredD(5) [OF assms(2,5)] by auto
  obtain s1 c1 where s1: "net_reachable B E F cfgs ids s1"
      "in_step B ok contents ids a L c1 (ks(p_ID p := length L)) (cs(p_ID p := c)) s1" "c \<le> c1"
      "\<forall>q\<in>set ids - {a}. (ks(p_ID p := length L)) q = length L \<Longrightarrow> c1 = length L"
    using sync_peer [OF Cons.prems(1) assms(2-5) Cons.prems(2) _ assms(8), of p] Cons.prems(3) by auto
  have ks': "ks' = (\<lambda>q. if q \<in> p_ID ` set ps then length L else (ks(p_ID p := length L)) q)"
    using Cons.prems(4) by auto
  obtain s' c' cs' where s': "net_reachable B E F cfgs ids s'" "in_step B ok contents ids a L c' ks' cs' s'" "c1 \<le> c'"
      "\<forall>q\<in>set ids - {a}. (cs(p_ID p := c)) q \<le> cs' q" "\<forall>q\<in>p_ID ` set ps. c1 \<le> cs' q"
      "ps \<noteq> [] \<longrightarrow> (\<forall>q\<in>set ids - {a}. ks' q = length L) \<longrightarrow> c' = length L"
    using Cons.IH [OF s1(1,2) _ ks'] Cons.prems(3) by auto
  have "cs q \<le> cs' q" if q: "q \<in> set ids - {a}" for q
  proof -
    have "cs q \<le> c" using Cons.prems(2) q by (simp add: in_step_def)
    then show ?thesis using bspec [OF s'(4) q] by (simp split: if_splits)
  qed
  moreover have "c \<le> cs' (p_ID p)" using bspec [OF s'(4) pid] by simp
  moreover have "c' = length L" if "\<forall>q\<in>set ids - {a}. ks' q = length L"
  proof (cases "ps = []")
    case True
    have "c' \<le> length L" using s'(2) by (simp add: in_step_def leader_at_def resting_def)
    then show ?thesis using s1(4) s'(3) that ks' True by simp
  qed (use s'(6) that in blast)
  moreover have "\<forall>q\<in>p_ID ` set ps. c \<le> cs' q" using s'(5) s1(3) by force
  ultimately show ?case using s'(1-3) s1(3) by (intro exI [of _ s'] exI [of _ c'] exI [of _ cs']) auto
qed

definition settled ::
  "'db bolt \<Rightarrow> string list \<Rightarrow> string \<Rightarrow> log_entry list \<Rightarrow> ('db, 'st) network \<Rightarrow> bool" where
  "settled B ids a L s \<longleftrightarrow> in_step B ok contents ids a L (length L) (\<lambda>_. length L) (\<lambda>_. length L) s"

text \<open>Two rounds: in the first everyone stores, in the second everyone learns of the commit.\<close>

lemma two_rounds:
  assumes "net_reachable B E F cfgs ids s" "configured cfgs ids" "bolt_spec B" "bolt_writes_ok B" "a \<in> set ids"
    "in_step B ok contents ids a L c ks cs s" "2 \<le> length ids" "\<forall>e\<in>set L. plain cmd_ok e"
  obtains s' where "net_reachable B E F cfgs ids s'" "settled B ids a L s'"
proof -
  let ?ps = "peers_of (cfgs a)" and ?all = "\<lambda>_. length L"
  note pids = configuredD(5) [OF assms(2,5)]
  have ne: "?ps \<noteq> []" using configuredD(6) [OF assms(2,5)] assms(7) by auto
  have peers: "p_ID ` set (rn_peers (nw_node s a)) = set ids - {a}" if "net_reachable B E F cfgs ids s" for s
    using net_node(3) [OF that assms(2-4,2-5)] pids by simp
  obtain s1 c1 cs1 where s1: "net_reachable B E F cfgs ids s1"
      "in_step B ok contents ids a L c1 (\<lambda>q. if q \<in> p_ID ` set ?ps then length L else ks q) cs1 s1" "c1 = length L"
    using sync_all [OF assms(1-6) subset_refl assms(8) refl] ne unfolding pids by auto
  have i1: "in_step B ok contents ids a L c1 ?all cs1 s1"
    by (rule in_step_cong [OF s1(2) peers [OF s1(1)]]) (simp add: pids)
  have "?all = (\<lambda>q. if q \<in> p_ID ` set ?ps then length L else ?all q)" by simp
  from sync_all [OF s1(1) assms(2-5) i1 subset_refl assms(8) this]
  obtain s2 c2 cs2 where s2: "net_reachable B E F cfgs ids s2" "in_step B ok contents ids a L c2 ?all cs2 s2"
      "c2 = length L" "\<forall>q\<in>set ids - {a}. c1 \<le> cs2 q"
    using ne unfolding pids by blast
  have "cs2 q = length L" if "q \<in> set ids - {a}" for q
  proof (rule antisym)
    show "cs2 q \<le> length L" using s2(2,3) that by (simp add: in_step_def)
    show "length L \<le> cs2 q" using bspec [OF s2(4) that] s1(3) by simp
  qed
  then have "settled B ids a L s2"
    unfolding settled_def using in_step_cong [OF s2(2) peers [OF s2(1)], of ?all ?all] s2(3) by simp
  then show ?thesis by (rule that [OF s2(1)])
qed

end

section \<open>Proposals\<close>

text \<open>Commands that fit into the log and that the engine can run; the entries that carry them.\<close>

definition proposable :: "(command \<Rightarrow> bool) \<Rightarrow> command \<Rightarrow> bool" where
  "proposable cmd_ok cmd \<longleftrightarrow> runnable cmd_ok (clean_command cmd) \<and>
     (\<forall>i. entry_fits \<lparr>le_Index = i, le_Term = 1, le_Command = cmd\<rparr> \<and>
       entry_fits \<lparr>le_Index = i, le_Term = 1, le_Command = clean_command cmd\<rparr>)"

primrec numbered :: "nat \<Rightarrow> command list \<Rightarrow> log_entry list" where
  "numbered k [] = []"
| "numbered k (cmd # cmds) =
     \<lparr>le_Index = of_nat k + 1, le_Term = 1, le_Command = clean_command cmd\<rparr> # numbered (Suc k) cmds"

lemma length_numbered [simp]: "length (numbered k cmds) = length cmds"
  by (induction cmds arbitrary: k) simp_all

lemma clean_entry_numbered:
  "clean_entry \<lparr>le_Index = i, le_Term = t, le_Command = cmd\<rparr> = \<lparr>le_Index = i, le_Term = t, le_Command = clean_command cmd\<rparr>"
  by (simp add: clean_entry_def)

lemma proposable_plain:
  "proposable cmd_ok cmd \<Longrightarrow> plain cmd_ok \<lparr>le_Index = i, le_Term = 1, le_Command = clean_command cmd\<rparr>"
  by (simp add: proposable_def plain_def clean_entry_numbered)

text \<open>A proposal at a leader in step with everyone adds one entry to its log only.\<close>

lemma propose_in_step:
  assumes "in_step B ok contents ids a L (length L) (\<lambda>_. length L) (\<lambda>_. length L) s" "bolt_writes_ok B" "proposable cmd_ok cmd"
    "length L < 2 ^ 64 - 2" "n' = fst (propose_append B cmd (nw_node s a))"
  shows "in_step B ok contents ids a (L @ [\<lparr>le_Index = of_nat (length L) + 1, le_Term = 1, le_Command = clean_command cmd\<rparr>])
    (length L) (\<lambda>_. length L) (\<lambda>_. length L) (put_node a n' (s\<lparr>nw_proposed := insert cmd (nw_proposed s)\<rparr>))"
proof -
  let ?n = "nw_node s a" and ?e = "\<lparr>le_Index = of_nat (length L) + 1, le_Term = 1, le_Command = cmd\<rparr>"
  have n: "rn_state ?n = Leader" "rn_currentTerm ?n = 1" "holds B L (rn_raftLog ?n)"
    using assms(1) by (simp_all add: in_step_def leader_at_def)
  have fits: "entry_fits ?e" using assms(3) by (simp add: proposable_def)
  obtain rl where a: "Append B ?e (rn_raftLog ?n) = (rl, None)" using Append_ok [OF holds_ok [OF n(3)] assms(2) fits] .
  have h: "holds B (L @ [clean_entry ?e]) rl" using holds_append [OF n(3) a] assms(4) by simp
  have "n' = ?n\<lparr>rn_raftLog := rl, rn_pending := (rn_pending ?n)(of_nat (length L) + 1 \<mapsto> rn_nextChan ?n),
      rn_nextChan := Suc (rn_nextChan ?n)\<rparr>"
    using assms(5) n a holds_last [OF n(3)] by (simp add: propose_append_def Let_def)
  then show ?thesis
    using assms(1) h by (simp add: in_step_def leader_at_def follower_at_def resting_def clean_entry_numbered)
qed

context healthy_engine
begin

lemma commands_settle:
  assumes "net_reachable B E F cfgs ids s" "configured cfgs ids" "bolt_spec B" "bolt_writes_ok B" "a \<in> set ids"
    "2 \<le> length ids" "settled B ids a L s" "\<forall>e\<in>set L. plain cmd_ok e" "\<forall>cmd\<in>set cmds. proposable cmd_ok cmd"
    "length L + length cmds < 2 ^ 64 - 1"
  shows "\<exists>s'. net_reachable B E F cfgs ids s' \<and> settled B ids a (L @ numbered (length L) cmds) s'"
  using assms(1,7-10)
proof (induction cmds arbitrary: s L)
  case Nil
  then show ?case by auto
next
  case (Cons cmd cmds)
  let ?e = "\<lparr>le_Index = of_nat (length L) + 1, le_Term = 1, le_Command = clean_command cmd\<rparr>"
  let ?s = "s\<lparr>nw_proposed := insert cmd (nw_proposed s)\<rparr>"
  obtain n' r where p: "propose_append B cmd (nw_node s a) = (n', r)" by fastforce
  have "\<not> rn_panicked (nw_node s a)"
    using Cons.prems(2) by (simp add: settled_def in_step_def leader_at_def resting_def)
  then have r1: "net_reachable B E F cfgs ids (put_node a n' ?s)"
    by (rule net_reachable.step [OF Cons.prems(1) net_step.propose [OF assms(5) _ p]])
  have i1: "in_step B ok contents ids a (L @ [?e]) (length L) (\<lambda>_. length L) (\<lambda>_. length L) (put_node a n' ?s)"
    by (rule propose_in_step [OF Cons.prems(2) [unfolded settled_def] assms(4)]) (use Cons.prems(4,5) p in auto)
  have pl: "\<forall>e\<in>set (L @ [?e]). plain cmd_ok e"
    using Cons.prems(3,4) proposable_plain by auto
  obtain s2 where s2: "net_reachable B E F cfgs ids s2" "settled B ids a (L @ [?e]) s2"
    using two_rounds [OF r1 assms(2-5) i1 assms(6) pl] .
  then obtain s' where s': "net_reachable B E F cfgs ids s'" "settled B ids a ((L @ [?e]) @ numbered (length (L @ [?e])) cmds) s'"
    using Cons.IH [OF s2 pl] Cons.prems(4,5) by auto
  then show ?case by (intro exI [of _ s']) simp
qed

end

section \<open>From the first election on\<close>

lemma new_leader:
  assumes "bolt_writes_ok B" "fresh_node B n" "ok (rn_storage n)" "contents (rn_storage n) = Map.empty"
  shows "leader_at B ok contents [noop_entry 1 1] 0 (\<lambda>_. 0) (becomeLeader B (fst (startElection B n)))"
proof -
  define n1 where "n1 = fst (startElection B n)"
  have n: "node_ok B n" "\<not> rn_panicked n" "rn_commitIndex n = 0" "rn_lastApplied n = 0"
      "\<forall>i. log_at B (rn_raftLog n) i = None" "rl_snapshotIndex (rn_raftLog n) = 0"
    using assms(2) by (simp_all add: fresh_node_def)
  obtain el where s: "startElection B n = (n1, Some el)" "rn_state n1 = Candidate" "rn_currentTerm n1 = 1"
      "node_ok B n1" "\<not> rn_panicked n1"
    using fresh_start [OF assms(1,2)] by (metis fst_conv n1_def)
  have tm: "timer_ok (rn_cfg n)" using n(1) by (simp add: node_ok_def)
  have f: "rn_commitIndex n1 = 0" "rn_lastApplied n1 = 0" "rn_peers n1 = rn_peers n" "rn_electionTimer n1 \<noteq> NoTimer"
      "rn_storage n1 = rn_storage n"
    using n tm by (simp_all add: n1_def startElection_def Let_def resetElectionTimer_panic)
  have "rl_ok B (rn_raftLog n1)" "\<forall>i. log_at B (rn_raftLog n1) i = None" "rl_snapshotIndex (rn_raftLog n1) = 0"
    using s(4) startElection_log [OF assms(1) n(1)] n(5,6) by (simp_all add: node_ok_def n1_def)
  then have h: "holds B [] (rn_raftLog n1)" by (simp add: holds_def unat_eq_0)
  then have last: "LastIndex B (rn_raftLog n1) = 0" using holds_last by force
  obtain rl' where a: "Append B (noop_entry 1 1) (rn_raftLog n1) = (rl', None)"
    using Append_ok [OF holds_ok [OF h] assms(1) noop_entry_fits] .
  have h': "holds B [noop_entry 1 1] rl'"
    using holds_append [OF h a] by (simp add: clean_noop) (simp add: noop_entry_def)
  have tr: "tracks (rn_peers n) (\<lambda>_. 0) (newLeaderState (rn_peers n) 0)"
    using newLeaderState_maps [of "rn_peers n" 0] by (auto simp: tracks_def index_get_def)
  have "becomeLeader B n1 = (resetHeartbeatTimer (n1\<lparr>rn_state := Leader, rn_leaderID := rn_id n1,
      rn_leader := Some (newLeaderState (rn_peers n) 0), rn_electionTimer := StoppedTimer\<rparr>))\<lparr>rn_raftLog := rl'\<rparr>"
    using s(2,3) f(3,4) last a by (simp add: becomeLeader_def Let_def resetHeartbeatTimer_def)
  then show ?thesis
    unfolding n1_def [symmetric] using f s(3,5) h' tr assms(3,4)
    by (simp add: leader_at_def resting_def resetHeartbeatTimer_def)
qed

lemma blank_follower:
  assumes "blank B st n" "node_ok B n" "ok st" "contents st = Map.empty" "length L < 2 ^ 64 - 1"
  shows "follower_at B ok contents L 0 0 n"
  using assms by (simp add: blank_def follower_at_def resting_def holds_def node_ok_def unat_eq_0)

context healthy_engine
begin

text \<open>
  In a new cluster of at least two nodes with empty stores, any node can become leader and get any
  list of admissible commands applied by all.
\<close>

lemma first_leader:
  assumes "bolt_spec B" "bolt_writes_ok B" "configured cfgs ids" "2 \<le> length ids" "a \<in> set ids"
    "\<not> tx_HasBucket B db logBucket" "\<not> tx_HasBucket B db metaBucket"
    "\<forall>q\<in>set ids. sf_new F (cfgs q) (st q) \<and> ok (st q) \<and> contents (st q) = Map.empty"
  obtains s where "net_reachable B E F cfgs ids s" "in_step B ok contents ids a [noop_entry 1 1] 0 (\<lambda>_. 0) (\<lambda>_. 0) s"
proof -
  obtain cl where cl: "cluster_init B cfgs ids cl" "\<forall>a. cl_run cl a = Idle"
      "\<forall>q\<in>set ids. fresh_node B (cl_node cl q) \<and> rn_id (cl_node cl q) = q \<and> rn_peers (cl_node cl q) = peers_of (cfgs q) \<and>
         boots_on B (cfgs q) db (st q) (cl_node cl q) \<and> rn_storage (cl_node cl q) = st q"
    using fresh_cluster [OF assms(1-3,6,7), where st = st] .
  define s0 where "s0 = \<lparr>nw_cl = cl, nw_sent = {}, nw_replies = {}, nw_calls = [], nw_snaps = [], nw_proposed = {}\<rparr>"
  have "net_init B F cfgs ids s0" using cl(1,3) assms(8) by (simp add: net_init_def s0_def)
  then have r0: "net_reachable B E F cfgs ids s0" by (rule net_reachable.init)
  obtain cl' where cl': "elects B ids cl cl'" "cl_node cl' a = becomeLeader B (fst (startElection B (cl_node cl a)))"
      "\<forall>q\<in>set ids - {a}. blank B (rn_storage (cl_node cl q)) (cl_node cl' q)" "\<forall>q. cl_run cl' q = Idle"
    using full_election [OF assms(2-5) cl(2)] cl(3) by metis
  let ?s1 = "s0\<lparr>nw_cl := cl'\<rparr>" and ?L = "[noop_entry 1 1]"
  have r1: "net_reachable B E F cfgs ids ?s1" by (rule net_elects [OF _ r0]) (use cl'(1) in \<open>simp add: s0_def\<close>)
  have "leader_at B ok contents ?L 0 (\<lambda>_. 0) (cl_node cl' a)"
    unfolding cl'(2) using cl(3) assms(5,8) by (intro new_leader [OF assms(2)]) simp_all
  moreover have "follower_at B ok contents ?L 0 0 (cl_node cl' q)" if q: "q \<in> set ids - {a}" for q
    using blank_follower [OF bspec [OF cl'(3) q]] net_node(1) [OF r1 assms(3,1,2,3,1,2), of q] q cl(3) assms(8) by simp
  ultimately have "in_step B ok contents ids a ?L 0 (\<lambda>_. 0) (\<lambda>_. 0) ?s1" using cl'(4) by (simp add: in_step_def)
  then show ?thesis by (rule that [OF r1])
qed

lemma noop_plain: "\<forall>e\<in>set [noop_entry i 1]. plain cmd_ok e"
  by (simp add: plain_def noop_entry_fits clean_noop runnable_def) (simp add: noop_entry_def)

lemma cluster_serves:
  assumes "bolt_spec B" "bolt_writes_ok B" "configured cfgs ids" "2 \<le> length ids" "a \<in> set ids"
    "\<not> tx_HasBucket B db logBucket" "\<not> tx_HasBucket B db metaBucket"
    "\<forall>q\<in>set ids. sf_new F (cfgs q) (st q) \<and> ok (st q) \<and> contents (st q) = Map.empty"
    "\<forall>cmd\<in>set cmds. proposable cmd_ok cmd" "length cmds < 2 ^ 64 - 2"
  obtains s where "net_reachable B E F cfgs ids s" "settled B ids a (noop_entry 1 1 # numbered 1 cmds) s"
proof -
  obtain s1 where s1: "net_reachable B E F cfgs ids s1" "in_step B ok contents ids a [noop_entry 1 1] 0 (\<lambda>_. 0) (\<lambda>_. 0) s1"
    using first_leader [OF assms(1-8)] .
  obtain s2 where s2: "net_reachable B E F cfgs ids s2" "settled B ids a [noop_entry 1 1] s2"
    using two_rounds [OF s1(1) assms(3,1,2,5) s1(2) assms(4) noop_plain] .
  show ?thesis
    using commands_settle [OF s2(1) assms(3,1,2,5,4) s2(2) noop_plain assms(9)] assms(10) that by auto
qed

text \<open>What that means for each node.\<close>

lemma settled_node:
  assumes "settled B ids a L s" "q \<in> set ids"
  shows "rn_commitIndex (nw_node s q) = of_nat (length L)" "rn_lastApplied (nw_node s q) = of_nat (length L)"
    "holds B L (rn_raftLog (nw_node s q))" "contents (rn_storage (nw_node s q)) = kv_exec L Map.empty"
proof -
  have "resting ok contents L (length L) (nw_node s q) \<and> holds B L (rn_raftLog (nw_node s q))"
    using assms by (cases "q = a") (auto simp: settled_def in_step_def leader_at_def follower_at_def)
  then show "rn_commitIndex (nw_node s q) = of_nat (length L)" "rn_lastApplied (nw_node s q) = of_nat (length L)"
    "holds B L (rn_raftLog (nw_node s q))" "contents (rn_storage (nw_node s q)) = kv_exec L Map.empty"
    by (simp_all add: resting_def)
qed

lemma settled_leader: "settled B ids a L s \<Longrightarrow> rn_state (nw_node s a) = Leader"
  by (simp add: settled_def in_step_def leader_at_def)

end

lemma numbered_nth:
  "i < length cmds \<Longrightarrow> numbered k cmds ! i = \<lparr>le_Index = of_nat (k + i) + 1, le_Term = 1, le_Command = clean_command (cmds ! i)\<rparr>"
  by (induction cmds arbitrary: k i) (auto simp: nth_Cons split: nat.split)

lemma kv_exec_numbered: "kv_exec (numbered k cmds) m = fold (\<lambda>cmd m. fst (kv_apply (clean_command cmd) m)) cmds m"
  by (induction cmds arbitrary: k m) simp_all

end
