(* ===== verification/Program.thy ===== *)
theory Program
  imports Api_Spec Config Provenance Commit_Liveness
begin

text \<open>
  \<open>cmd/keystore/main.go\<close>: how the program is put together. The storage engine is chosen at run time,
  so the state of the \<open>storage.Engine\<close> interface value is a tagged union of the two engines, with
  dynamic dispatch on the tag. \<open>run\<close> loads the configuration, opens the store, builds the transport
  and the tracker, and starts the node; the deferred calls stop them. The file system and the
  outcome of the HTTP server are arguments. Loading without an error, opening a database file and
  reading its contents are the subject of the lemmas.
\<close>

section \<open>The storage interface value\<close>

datatype 'db store = MemoryStore memory_engine | BoltStore 'db

definition lift_store :: "('a \<Rightarrow> 's) \<Rightarrow> 'a \<times> go_error option \<Rightarrow> 's \<times> go_error option" where
  "lift_store tag r = (tag (fst r), snd r)"

definition store_ops :: "'db bolt \<Rightarrow> 'db store engine" where
  "store_ops B =
     \<lparr>eng_Get = (\<lambda>k s. case s of MemoryStore m \<Rightarrow> eng_Get memory_ops k m | BoltStore d \<Rightarrow> eng_Get (bolt_ops B) k d),
      eng_Put = (\<lambda>k v s. case s of
         MemoryStore m \<Rightarrow> lift_store MemoryStore (eng_Put memory_ops k v m)
       | BoltStore d \<Rightarrow> lift_store BoltStore (eng_Put (bolt_ops B) k v d)),
      eng_Delete = (\<lambda>k s. case s of
         MemoryStore m \<Rightarrow> lift_store MemoryStore (eng_Delete memory_ops k m)
       | BoltStore d \<Rightarrow> lift_store BoltStore (eng_Delete (bolt_ops B) k d)),
      eng_Scan = (\<lambda>p s. case s of MemoryStore m \<Rightarrow> eng_Scan memory_ops p m | BoltStore d \<Rightarrow> eng_Scan (bolt_ops B) p d),
      eng_Snapshot = (\<lambda>s. case s of MemoryStore m \<Rightarrow> eng_Snapshot memory_ops m | BoltStore d \<Rightarrow> eng_Snapshot (bolt_ops B) d),
      eng_RestoreSnapshot = (\<lambda>x s. case s of
         MemoryStore m \<Rightarrow> lift_store MemoryStore (eng_RestoreSnapshot memory_ops x m)
       | BoltStore d \<Rightarrow> lift_store BoltStore (eng_RestoreSnapshot (bolt_ops B) x d))\<rparr>"

section \<open>Starting and stopping\<close>

text \<open>\<open>quote\<close> is the formatting verb \<open>%q\<close>.\<close>

definition kv_path :: "config \<Rightarrow> string" where
  "kv_path cfg = sc_DataDir (cfg_Storage cfg) @ ''/kv.db''"

definition open_store ::
  "'db bolt \<Rightarrow> (string \<Rightarrow> go_error option) \<Rightarrow> (string \<Rightarrow> 'db go) \<Rightarrow> (string \<Rightarrow> string) \<Rightarrow> config \<Rightarrow> 'db store go" where
  "open_store B mkdirAll bolt_Open quote cfg =
     (if sc_Type (cfg_Storage cfg) = ''memory'' then Inr (MemoryStore NewMemoryEngine)
      else if sc_Type (cfg_Storage cfg) = ''persistent'' then
        (case NewBoltEngine B mkdirAll bolt_Open (kv_path cfg) of
           Inl e \<Rightarrow> Inl (Wrapped ''opening kv storage'' e)
         | Inr db \<Rightarrow> Inr (BoltStore db))
      else Inl (ErrMsg (''unknown storage type: '' @ quote (sc_Type (cfg_Storage cfg)) @
        '' (want memory or persistent)'')))"

record 'db process =
  ps_cfg :: config
  ps_transport :: transport
  ps_tracker :: tracker
  ps_node :: "('db, 'db store) raft_node"
  ps_server :: http_server

definition boot ::
  "'db bolt \<Rightarrow> (string \<Rightarrow> bytes go) \<Rightarrow> (bytes \<Rightarrow> config go) \<Rightarrow> (string \<Rightarrow> go_error option) \<Rightarrow> (string \<Rightarrow> 'db go) \<Rightarrow>
   (string \<Rightarrow> string) \<Rightarrow> (nat \<Rightarrow> nat) \<Rightarrow> int \<Rightarrow> string \<Rightarrow> 'db process go" where
  "boot B readFile yaml_Unmarshal mkdirAll bolt_Open quote rnd now cfgPath =
     (case Load readFile yaml_Unmarshal cfgPath of
        Inl e \<Rightarrow> Inl (Wrapped ''loading config'' e)
      | Inr cfg \<Rightarrow>
          (case open_store B mkdirAll bolt_Open quote cfg of
             Inl e \<Rightarrow> Inl e
           | Inr store \<Rightarrow>
               (let transport = NewHTTPTransport now (peers_of cfg);
                    tracker = NewHeartbeatTracker (Members transport) in
                case NewRaftNode B mkdirAll bolt_Open rnd cfg store of
                  Inl e \<Rightarrow> Inl (Wrapped ''creating raft node'' e)
                | Inr node \<Rightarrow> Inr \<lparr>ps_cfg = cfg, ps_transport = transport, ps_tracker = tracker,
                                   ps_node = Start node, ps_server = NewServer (srv_Addr (cfg_Server cfg))\<rparr>)))"

text \<open>
  The server ends because listening failed, or because a signal cancelled its context; then the
  result is that of \<open>Shutdown\<close>. \<open>run\<close> returns with the deferred \<open>Stop\<close> calls done.
\<close>

datatype server_end = ListenError go_error | Cancelled "go_error option"

definition ListenAndServe :: "server_end \<Rightarrow> http_server \<Rightarrow> http_server \<times> go_error option" where
  "ListenAndServe ev s =
     (case ev of
        ListenError e \<Rightarrow> (s, Some e)
      | Cancelled r \<Rightarrow> (http_Shutdown (http_listen s), r))"

definition shutdown :: "'db process \<Rightarrow> 'db process" where
  "shutdown ps = ps\<lparr>ps_node := Stop (ps_node ps), ps_tracker := tracker_Stop (ps_tracker ps)\<rparr>"

text \<open>\<open>served\<close> is the state in which the server leaves the process, and why it ended.\<close>

definition run ::
  "'db bolt \<Rightarrow> (string \<Rightarrow> bytes go) \<Rightarrow> (bytes \<Rightarrow> config go) \<Rightarrow> (string \<Rightarrow> go_error option) \<Rightarrow> (string \<Rightarrow> 'db go) \<Rightarrow>
   (string \<Rightarrow> string) \<Rightarrow> (nat \<Rightarrow> nat) \<Rightarrow> int \<Rightarrow> string \<Rightarrow> ('db process \<Rightarrow> 'db process \<times> server_end) \<Rightarrow>
   'db process option \<times> go_error option" where
  "run B readFile yaml_Unmarshal mkdirAll bolt_Open quote rnd now cfgPath served =
     (case boot B readFile yaml_Unmarshal mkdirAll bolt_Open quote rnd now cfgPath of
        Inl e \<Rightarrow> (None, Some e)
      | Inr ps \<Rightarrow>
          (case served ps of
             (ps', ev) \<Rightarrow>
               (case ListenAndServe ev (ps_server ps') of
                  (srv, err) \<Rightarrow> (Some (shutdown (ps'\<lparr>ps_server := srv\<rparr>)), map_option (Wrapped ''http server'') err))))"

text \<open>The exit status of \<open>main\<close>.\<close>

definition main :: "go_error option \<Rightarrow> nat" where
  "main err = (case err of None \<Rightarrow> 0 | Some _ \<Rightarrow> 1)"

section \<open>The interface value honours the contract\<close>

definition store_ok :: "'db bolt \<Rightarrow> 'db store \<Rightarrow> bool" where
  "store_ok B s = (case s of MemoryStore m \<Rightarrow> mem_ok m | BoltStore d \<Rightarrow> disk_ok B d)"

definition store_contents :: "'db bolt \<Rightarrow> 'db store \<Rightarrow> kv_map" where
  "store_contents B s = (case s of MemoryStore m \<Rightarrow> mem_contents m | BoltStore d \<Rightarrow> bolt_contents B d)"

lemmas store_simps = store_ops_def store_ok_def store_contents_def lift_store_def

lemma store_writes:
  "eng_Put (store_ops B) k v (MemoryStore m) = (s', r) \<longleftrightarrow>
     (\<exists>m'. s' = MemoryStore m' \<and> eng_Put memory_ops k v m = (m', r))"
  "eng_Put (store_ops B) k v (BoltStore d) = (s', r) \<longleftrightarrow>
     (\<exists>d'. s' = BoltStore d' \<and> eng_Put (bolt_ops B) k v d = (d', r))"
  "eng_Delete (store_ops B) k (MemoryStore m) = (s', r) \<longleftrightarrow>
     (\<exists>m'. s' = MemoryStore m' \<and> eng_Delete memory_ops k m = (m', r))"
  "eng_Delete (store_ops B) k (BoltStore d) = (s', r) \<longleftrightarrow>
     (\<exists>d'. s' = BoltStore d' \<and> eng_Delete (bolt_ops B) k d = (d', r))"
  "eng_RestoreSnapshot (store_ops B) x (MemoryStore m) = (s', r) \<longleftrightarrow>
     (\<exists>m'. s' = MemoryStore m' \<and> eng_RestoreSnapshot memory_ops x m = (m', r))"
  "eng_RestoreSnapshot (store_ops B) x (BoltStore d) = (s', r) \<longleftrightarrow>
     (\<exists>d'. s' = BoltStore d' \<and> eng_RestoreSnapshot (bolt_ops B) x d = (d', r))"
  by (auto simp: store_simps prod_eq_iff)

lemma store_reads:
  "eng_Get (store_ops B) k (MemoryStore m) = eng_Get memory_ops k m"
  "eng_Get (store_ops B) k (BoltStore d) = eng_Get (bolt_ops B) k d"
  "eng_Scan (store_ops B) k (MemoryStore m) = eng_Scan memory_ops k m"
  "eng_Scan (store_ops B) k (BoltStore d) = eng_Scan (bolt_ops B) k d"
  "eng_Snapshot (store_ops B) (MemoryStore m) = eng_Snapshot memory_ops m"
  "eng_Snapshot (store_ops B) (BoltStore d) = eng_Snapshot (bolt_ops B) d"
  by (simp_all add: store_ops_def)

lemma store_views [simp]:
  "store_ok B (MemoryStore m) = mem_ok m" "store_ok B (BoltStore d) = disk_ok B d"
  "store_contents B (MemoryStore m) = mem_contents m" "store_contents B (BoltStore d) = bolt_contents B d"
  by (simp_all add: store_simps)

interpretation any: healthy_engine "store_ops B" "store_ok B" "store_contents B" disk_cmd
  for B :: "'db bolt"
proof
  fix s :: "'db store" and k v p x e m s' cmd
  assume ok: "store_ok B s"
  show "eng_Get (store_ops B) k s = (case store_contents B s k of None \<Rightarrow> Inl ErrKeyNotFound | Some v \<Rightarrow> Inr v)"
    using ok mem.get_contents diskh.get_contents [of B] by (cases s) (simp_all add: store_reads)
  show "eng_Put (store_ops B) k v s = (s', Some e) \<Longrightarrow> s' = s"
    using ok mem.put_fail diskh.put_fail [of B] by (cases s) (auto simp: store_writes)
  show "eng_Put (store_ops B) k v s = (s', None) \<Longrightarrow>
      store_ok B s' \<and> store_contents B s' = (store_contents B s)(k \<mapsto> v)"
    using ok mem.put_commit diskh.put_commit [of B] by (cases s) (auto simp: store_writes)
  show "eng_Delete (store_ops B) k s = (s', Some e) \<Longrightarrow> s' = s"
    using ok mem.delete_fail diskh.delete_fail [of B] by (cases s) (auto simp: store_writes)
  show "eng_Delete (store_ops B) k s = (s', None) \<Longrightarrow>
      store_ok B s' \<and> store_contents B s' = (store_contents B s)(k := None)"
    using ok mem.delete_commit diskh.delete_commit [of B] by (cases s) (auto simp: store_writes)
  show "\<exists>m. eng_Scan (store_ops B) p s = Inr m \<and>
      map_of m = (\<lambda>k. if has_prefix k p then store_contents B s k else None)"
    using ok mem.scan_contents diskh.scan_contents [of B] by (cases s) (simp_all add: store_reads cong: if_cong)
  show "\<forall>k. store_contents B s k \<noteq> None \<longrightarrow> utf8_valid k \<Longrightarrow>
      \<exists>d. eng_Snapshot (store_ops B) s = Inr d \<and> snapshot_denotes d (store_contents B s)"
    using ok mem.snapshot_contents diskh.snapshot_contents [of B] by (cases s) (simp_all add: store_reads)
  show "eng_RestoreSnapshot (store_ops B) x s = (s', Some e) \<Longrightarrow> s' = s"
    using ok mem.restore_fail diskh.restore_fail [of B] by (cases s) (auto simp: store_writes)
  show "snapshot_denotes x m \<Longrightarrow> eng_RestoreSnapshot (store_ops B) x s = (s', None) \<Longrightarrow>
      store_ok B s' \<and> store_contents B s' = m"
    using ok mem.restore_commit diskh.restore_commit [of B] by (cases s) (auto simp: store_writes)
  show "\<exists>s'. eng_RestoreSnapshot (store_ops B) x s = (s', None)"
    if d: "snapshot_denotes x m" and fits: "\<And>k v. m k = Some v \<Longrightarrow> \<exists>cmd. disk_cmd cmd \<and> c_Key cmd = k \<and> c_Value cmd = v"
  proof (cases s)
    case (MemoryStore n)
    have "\<exists>cmd :: command. True \<and> c_Key cmd = k \<and> c_Value cmd = v" if "m k = Some v" for k v
      using fits [OF that] by blast
    from memh.restore_succeeds [OF _ d this, of n] ok MemoryStore show ?thesis by (auto simp: store_writes)
  next
    case (BoltStore db)
    then show ?thesis using ok diskh.restore_succeeds [OF _ that, of B db] by (auto simp: store_writes)
  qed
  assume cmd: "disk_cmd cmd"
  show "\<exists>s'. eng_Put (store_ops B) (c_Key cmd) (c_Value cmd) s = (s', None)"
    using ok cmd memh.put_succeeds [OF _ TrueI] diskh.put_succeeds [of B] by (cases s) (auto simp: store_writes)
  show "\<exists>s'. eng_Delete (store_ops B) (c_Key cmd) s = (s', None)"
    using ok cmd memh.delete_succeeds [OF _ TrueI] diskh.delete_succeeds [of B] by (cases s) (auto simp: store_writes)
qed

section \<open>A booted process\<close>

text \<open>Timeouts that fit comfortably into an \<open>int\<close> make the election timer usable.\<close>

lemma Load_timer_ok:
  assumes "Load readFile yaml path = Inr cfg" "0 \<le> ElectionTimeoutMinMs (cfg_Raft cfg)"
    "ElectionTimeoutMaxMs (cfg_Raft cfg) < 2 ^ 63"
  shows "timer_ok cfg"
proof -
  from assms(1) have "validate cfg = None" by (rule Load_Inr)
  then have "ElectionTimeoutMinMs (cfg_Raft cfg) < ElectionTimeoutMaxMs (cfg_Raft cfg)"
    by (simp add: validate_None_iff)
  with assms(2,3) show ?thesis by (simp add: timer_ok_def int64_id)
qed

lemma resetElectionTimer_bounds:
  assumes "0 \<le> ElectionTimeoutMinMs (cfg_Raft (rn_cfg n))"
    "ElectionTimeoutMinMs (cfg_Raft (rn_cfg n)) < ElectionTimeoutMaxMs (cfg_Raft (rn_cfg n))"
    "ElectionTimeoutMaxMs (cfg_Raft (rn_cfg n)) < 2 ^ 43"
  shows "\<exists>d. rn_electionTimer (resetElectionTimer n) = Armed d \<and>
    ElectionTimeoutMinMs (cfg_Raft (rn_cfg n)) * 1000000 \<le> d \<and>
    d < ElectionTimeoutMaxMs (cfg_Raft (rn_cfg n)) * 1000000"
proof -
  let ?lo = "ElectionTimeoutMinMs (cfg_Raft (rn_cfg n))" and ?hi = "ElectionTimeoutMaxMs (cfg_Raft (rn_cfg n))"
  define r where "r = int (rn_rand n (rn_draws n)) mod (?hi - ?lo)"
  have span: "int64 (?hi - ?lo) = ?hi - ?lo" using assms by (intro int64_id) simp_all
  have r: "0 \<le> r" "r < ?hi - ?lo" using assms(2) by (simp_all add: r_def)
  have e1: "int64 (?lo + r) = ?lo + r" using r assms by (intro int64_id) simp_all
  have e2: "int64 ((?lo + r) * 1000000) = (?lo + r) * 1000000" using r assms by (intro int64_id) simp_all
  have "rn_electionTimer (resetElectionTimer n) = Armed ((?lo + r) * 1000000)"
    using assms(2) e2 by (simp add: resetElectionTimer_def Let_def span r_def [symmetric] e1 distrib_right)
  then show ?thesis using r by simp
qed

lemma NewBoltEngine_ok:
  assumes "NewBoltEngine B mkdirAll bolt_Open path = Inr db" "bolt_spec B"
  shows "bolt_ok B db"
proof -
  obtain db0 where "db_Update B (\<lambda>tx. tx_CreateBucketIfNotExists B tx kvBucket) db0 = (db, None)"
    using assms(1) by (auto simp: NewBoltEngine_def split: option.splits sum.splits prod.splits)
  then have "tx_CreateBucketIfNotExists B db0 kvBucket = Inr db"
    by (metis db_Update_cases option.distinct(1) prod.inject)
  then show ?thesis using assms(2) create_if_not_exists_has [OF assms(2)] by (simp add: bolt_ok_def)
qed

lemma open_store_ok:
  assumes "open_store B mkdirAll bolt_Open quote cfg = Inr store" "bolt_spec B" "bolt_writes_ok B"
  shows "store_ok B store"
  using assms NewBoltEngine_ok [of B mkdirAll bolt_Open "kv_path cfg"]
  by (auto simp: open_store_def disk_ok_def split: if_splits sum.splits)

lemma NewBoltEngine_opens:
  assumes "mkdirAll (store_extractDir path) = None" "bolt_Open path = Inr db" "bolt_writes_ok B"
  obtains db' where "NewBoltEngine B mkdirAll bolt_Open path = Inr db'"
proof -
  have "kvBucket \<noteq> []" by (simp add: kvBucket_def)
  from bucket_ok(3) [OF assms(3) this] obtain t where "tx_CreateBucketIfNotExists B db kvBucket = Inr t" ..
  then have "db_Update B (\<lambda>tx. tx_CreateBucketIfNotExists B tx kvBucket) db = (t, None)"
    by (rule db_Update_ok [OF assms(3)])
  then show ?thesis using that assms(1,2) by (simp add: NewBoltEngine_def)
qed

text \<open>
  Files between runs: a persistent store reopens the file that it wrote, the memory engine leaves no
  file, and \<open>bbolt\<close> creates a missing file without buckets. So a new store is empty, and a restart
  keeps a persistent store and empties a memory store.
\<close>

definition store_file :: "'db bolt \<Rightarrow> 'db store \<Rightarrow> 'db \<Rightarrow> bool" where
  "store_file B s db = (case s of MemoryStore _ \<Rightarrow> \<not> tx_HasBucket B db kvBucket | BoltStore d \<Rightarrow> db = d)"

definition opens_on :: "'db bolt \<Rightarrow> ('db \<Rightarrow> bool) \<Rightarrow> config \<Rightarrow> 'db store \<Rightarrow> bool" where
  "opens_on B file cfg s \<longleftrightarrow> bolt_spec B \<and> bolt_writes_ok B \<and> (\<exists>mkdirAll bolt_Open quote db.
     file db \<and> bolt_Open (kv_path cfg) = Inr db \<and> open_store B mkdirAll bolt_Open quote cfg = Inr s)"

definition program_files :: "'db bolt \<Rightarrow> 'db store store_files" where
  "program_files B = \<lparr>sf_new = opens_on B (\<lambda>db. \<not> tx_HasBucket B db kvBucket),
     sf_reopen = (\<lambda>cfg s. opens_on B (store_file B s) cfg)\<rparr>"

lemma NewBoltEngine_contents:
  assumes "NewBoltEngine B mkdirAll bolt_Open path = Inr db'" "bolt_Open path = Inr db" "bolt_spec B"
  shows "bolt_contents B db' = (if tx_HasBucket B db kvBucket then bolt_contents B db else Map.empty)"
proof -
  have "tx_CreateBucketIfNotExists B db kvBucket = Inr db'"
    using assms(1,2) by (auto simp: NewBoltEngine_def db_Update_def split: option.splits sum.splits prod.splits)
  then show ?thesis using create_if_not_exists_get [OF assms(3)] by (auto simp: bolt_contents_def)
qed

lemma opens_on_contents:
  assumes "opens_on B file cfg s"
  obtains db where "file db" "store_ok B s"
    "store_contents B s \<in> {Map.empty, if tx_HasBucket B db kvBucket then bolt_contents B db else Map.empty}"
proof -
  obtain mkdirAll bolt_Open quote db where o: "bolt_spec B" "bolt_writes_ok B" "file db" "bolt_Open (kv_path cfg) = Inr db"
      "open_store B mkdirAll bolt_Open quote cfg = Inr s"
    using assms unfolding opens_on_def by blast
  have "store_contents B s \<in> {Map.empty, if tx_HasBucket B db kvBucket then bolt_contents B db else Map.empty}"
    using o NewBoltEngine_contents [of B mkdirAll bolt_Open "kv_path cfg"]
    by (auto simp: open_store_def mem_contents_def NewMemoryEngine_def me_items_def split: if_splits sum.splits)
  with that o(3) open_store_ok [OF o(5,1,2)] show ?thesis by blast
qed

lemma new_store_opens:
  assumes "bolt_spec B" "bolt_writes_ok B" "\<not> tx_HasBucket B db kvBucket" "sc_Type (cfg_Storage cfg) \<in> {''memory'', ''persistent''}"
  shows "\<exists>s. sf_new (program_files B) cfg s"
proof -
  obtain kv where "NewBoltEngine B (\<lambda>_. None) (\<lambda>_. Inr db) (kv_path cfg) = Inr kv"
    using NewBoltEngine_opens [of "\<lambda>_. None" "kv_path cfg" "\<lambda>_. Inr db" db B] assms(2) by blast
  then obtain s where "open_store B (\<lambda>_. None) (\<lambda>_. Inr db) id cfg = Inr s"
    using assms(4) by (auto simp: open_store_def)
  then have "opens_on B (\<lambda>db. \<not> tx_HasBucket B db kvBucket) cfg s"
    unfolding opens_on_def using assms(1-3)
    by (intro conjI exI [of _ "\<lambda>_. None"] exI [of _ "\<lambda>_. Inr db"] exI [of _ id] exI [of _ db]) simp_all
  then show ?thesis by (intro exI [of _ s]) (simp add: program_files_def)
qed

interpretation dur: durable_engine "store_ops B" "store_ok B" "store_contents B" "program_files B"
  for B :: "'db bolt"
proof unfold_locales
  fix cfg :: config and s s' :: "'db store"
  show "sf_new (program_files B) cfg s \<Longrightarrow> store_ok B s \<and> store_contents B s = Map.empty"
    by (auto simp: program_files_def elim: opens_on_contents)
  assume ok: "store_ok B s" and re: "sf_reopen (program_files B) cfg s s'"
  obtain db where db: "store_file B s db" "store_ok B s'"
      "store_contents B s' \<in> {Map.empty, if tx_HasBucket B db kvBucket then bolt_contents B db else Map.empty}"
    using re opens_on_contents [of B "store_file B s" cfg s'] unfolding program_files_def by auto
  then show "store_ok B s' \<and> store_contents B s' \<in> {store_contents B s, Map.empty}"
    using ok by (cases s) (auto simp: store_file_def disk_ok_def bolt_ok_def)
next
  fix d e and s :: "'db store"
  assume "unmarshal_bytes_map d = Inl e"
  then show "eng_RestoreSnapshot (store_ops B) d s = (s, Some e)"
    by (cases s) (simp_all add: store_ops_def lift_store_def memory_ops_def bolt_ops_def mem_RestoreSnapshot_def bolt_RestoreSnapshot_def)
qed

text \<open>So new stores exist, and the runs of \<open>Commit_Liveness\<close> are runs of the program.\<close>

lemma new_stores:
  assumes "bolt_spec B" "bolt_writes_ok B" "\<not> tx_HasBucket B db kvBucket"
    "\<forall>q\<in>set ids. sc_Type (cfg_Storage (cfgs q)) \<in> {''memory'', ''persistent''}"
  obtains st where "\<forall>q\<in>set ids. sf_new (program_files B) (cfgs q) (st q) \<and> store_ok B (st q) \<and> store_contents B (st q) = Map.empty"
proof -
  have "\<forall>q\<in>set ids. \<exists>s. sf_new (program_files B) (cfgs q) s" using new_store_opens [OF assms(1-3)] assms(4) by blast
  then obtain st where "\<forall>q\<in>set ids. sf_new (program_files B) (cfgs q) (st q)" using bchoice by metis
  then show ?thesis using that dur.new_store [of B] by blast
qed

lemma program_serves:
  assumes "bolt_spec B" "bolt_writes_ok B" "configured cfgs ids" "2 \<le> length ids" "a \<in> set ids"
    "\<forall>b\<in>{logBucket, metaBucket, kvBucket}. \<not> tx_HasBucket B db b"
    "\<forall>q\<in>set ids. sc_Type (cfg_Storage (cfgs q)) \<in> {''memory'', ''persistent''}"
    "\<forall>cmd\<in>set cmds. proposable disk_cmd cmd" "length cmds < 2 ^ 64 - 2"
  obtains s where "net_reachable B (store_ops B) (program_files B) cfgs ids s"
    "any.settled B B ids a (noop_entry 1 1 # numbered 1 cmds) s"
proof -
  have db: "\<not> tx_HasBucket B db logBucket" "\<not> tx_HasBucket B db metaBucket" "\<not> tx_HasBucket B db kvBucket"
    using assms(6) by simp_all
  obtain st where st: "\<forall>q\<in>set ids. sf_new (program_files B) (cfgs q) (st q) \<and> store_ok B (st q) \<and>
      store_contents B (st q) = Map.empty"
    using new_stores [OF assms(1,2) db(3) assms(7)] .
  show ?thesis using any.cluster_serves [OF assms(1-5) db(1,2) st assms(8,9)] that by blast
qed

lemma bootE:
  assumes "boot B readFile yaml mkdirAll bolt_Open quote rnd now path = Inr ps"
  obtains store node where "Load readFile yaml path = Inr (ps_cfg ps)"
    "open_store B mkdirAll bolt_Open quote (ps_cfg ps) = Inr store"
    "NewRaftNode B mkdirAll bolt_Open rnd (ps_cfg ps) store = Inr node"
    "ps_transport ps = NewHTTPTransport now (peers_of (ps_cfg ps))"
    "ps_tracker ps = NewHeartbeatTracker (Members (ps_transport ps))" "ps_node ps = Start node"
  using assms by (auto simp: boot_def Let_def split: sum.splits)

text \<open>
  A process that came up on a new Raft database is a follower in term 0 with no pending work, on a
  storage engine that honours the contract.
\<close>

definition fresh_process :: "'db bolt \<Rightarrow> 'db process \<Rightarrow> bool" where
  "fresh_process B ps \<longleftrightarrow> node_wf B (ps_node ps) \<and> \<not> rn_panicked (ps_node ps) \<and>
     rn_state (ps_node ps) = Follower \<and> rn_currentTerm (ps_node ps) = 0 \<and> rn_votedFor (ps_node ps) = [] \<and>
     (\<forall>i. log_at B (rn_raftLog (ps_node ps)) i = None) \<and> store_ok B (rn_storage (ps_node ps)) \<and>
     rn_id (ps_node ps) = nc_ID (cfg_Node (ps_cfg ps)) \<and> rn_peers (ps_node ps) = peers_of (ps_cfg ps)"

lemma boot_fresh:
  assumes "boot B readFile yaml mkdirAll bolt_Open quote rnd now path = Inr ps" "bolt_spec B" "bolt_writes_ok B"
    "bolt_Open (raft_db_path (ps_cfg ps)) = Inr db" "\<not> tx_HasBucket B db logBucket" "\<not> tx_HasBucket B db metaBucket"
    "timer_ok (ps_cfg ps)" "valid_id (nc_ID (cfg_Node (ps_cfg ps)))"
  shows "fresh_process B ps"
proof -
  obtain store node where b: "open_store B mkdirAll bolt_Open quote (ps_cfg ps) = Inr store"
      "NewRaftNode B mkdirAll bolt_Open rnd (ps_cfg ps) store = Inr node" "ps_node ps = Start node"
    using assms(1) by (rule bootE)
  note f = NewRaftNode_fresh [OF assms(2,5,6,4,7,8) b(2)]
  have "boots_on B (ps_cfg ps) db store (ps_node ps)" unfolding boots_on_def using assms(4) b(2,3) by blast
  then have "volatile_ok (ps_node ps)" by (intro boots_frame boots_on_boots)
  moreover have "node_ok B (ps_node ps)" using steadyD(1) [OF resetElectionTimer_steady f(1)] b(3) by (simp add: Start_def)
  moreover have "\<not> rn_panicked (ps_node ps)"
    using b(3) f(7,8) assms(7) by (simp add: Start_def resetElectionTimer_def timer_ok_def Let_def)
  ultimately show ?thesis
    using open_store_ok [OF b(1) assms(2,3)] NewRaftNode_volatile(3) [OF b(2)] f(2-6,9) b(3)
    by (simp add: fresh_process_def node_wf_def Start_def)
qed

text \<open>With an accepted configuration and a working file system the program does come up.\<close>

lemma boot_starts:
  assumes "Load readFile yaml path = Inr cfg" "sc_Type (cfg_Storage cfg) \<in> {''memory'', ''persistent''}"
    "\<And>d. mkdirAll d = None" "bolt_Open (kv_path cfg) = Inr kdb" "bolt_Open (raft_db_path cfg) = Inr db"
    "\<not> tx_HasBucket B db logBucket" "\<not> tx_HasBucket B db metaBucket" "bolt_spec B" "bolt_writes_ok B"
  obtains ps where "boot B readFile yaml mkdirAll bolt_Open quote rnd now path = Inr ps" "ps_cfg ps = cfg"
proof -
  obtain kv where "NewBoltEngine B mkdirAll bolt_Open (kv_path cfg) = Inr kv"
    using NewBoltEngine_opens [of mkdirAll "kv_path cfg" bolt_Open kdb B] assms(3,4,9) by blast
  then obtain store where st: "open_store B mkdirAll bolt_Open quote cfg = Inr store"
    using assms(2) by (auto simp: open_store_def)
  obtain n where "NewRaftNode B mkdirAll bolt_Open rnd cfg store = Inr n"
    using NewRaftNode_starts [of B db bolt_Open cfg mkdirAll rnd store] assms(3,5-9) by blast
  then show ?thesis using that assms(1) st by (simp add: boot_def Let_def)
qed

lemma open_store_kind:
  "open_store B mkdirAll bolt_Open quote cfg = Inr (MemoryStore m) \<Longrightarrow> sc_Type (cfg_Storage cfg) = ''memory''"
  "open_store B mkdirAll bolt_Open quote cfg = Inr (BoltStore d) \<Longrightarrow> sc_Type (cfg_Storage cfg) = ''persistent''"
  by (auto simp: open_store_def split: if_splits sum.splits)

end
