(* ===== verification/Bolt_Model.thy ===== *)
theory Bolt_Model
  imports Bolt
begin

text \<open>
  An executable key-value file that meets the documented behaviour of bbolt on a healthy disk, kept
  as association lists. It shows that \<open>bolt_spec\<close> and \<open>bolt_writes_ok\<close> can hold together, and
  serves as the concrete database of the examples. Its cursors go on with the keys after the one
  they were placed on, in order.
\<close>

type_synonym file_db = "(string \<times> (bytes \<times> bytes) list) list"

definition least_key :: "bytes list \<Rightarrow> bytes option" where
  "least_key ks = (case ks of [] \<Rightarrow> None | k # r \<Rightarrow> Some (fold min r k))"

definition greatest_key :: "bytes list \<Rightarrow> bytes option" where
  "greatest_key ks = (case ks of [] \<Rightarrow> None | k # r \<Rightarrow> Some (fold max r k))"

definition file_bucket :: "file_db \<Rightarrow> string \<Rightarrow> (bytes \<times> bytes) list" where
  "file_bucket db b = (case map_of db b of None \<Rightarrow> [] | Some m \<Rightarrow> m)"

definition file_put :: "file_db \<Rightarrow> string \<Rightarrow> bytes \<Rightarrow> bytes \<Rightarrow> file_db go" where
  "file_put db b k v =
     (if map_of db b = None then Inl ErrBucketNotFound
      else if k = [] then Inl (BoltError ''key required'')
      else if max_key_size < length k then Inl (BoltError ''key too large'')
      else if max_value_size < length v then Inl (BoltError ''value too large'')
      else Inr (AList.update b (AList.update k v (file_bucket db b)) db))"

definition file_delete :: "file_db \<Rightarrow> string \<Rightarrow> bytes \<Rightarrow> file_db go" where
  "file_delete db b k =
     (if map_of db b = None then Inl ErrBucketNotFound
      else Inr (AList.update b (AList.delete k (file_bucket db b)) db))"

definition file_create_missing :: "file_db \<Rightarrow> string \<Rightarrow> file_db go" where
  "file_create_missing db b =
     (if b = [] then Inl (BoltError ''bucket name required'')
      else if map_of db b = None then Inr ((b, []) # db) else Inr db)"

definition file_create :: "file_db \<Rightarrow> string \<Rightarrow> file_db go" where
  "file_create db b =
     (if b = [] then Inl (BoltError ''bucket name required'')
      else if map_of db b = None then Inr ((b, []) # db) else Inl (BoltError ''bucket already exists''))"

definition file_drop :: "file_db \<Rightarrow> string \<Rightarrow> file_db go" where
  "file_drop db b = (if map_of db b = None then Inl ErrBucketNotFound else Inr (AList.delete b db))"

definition file_keys :: "file_db \<Rightarrow> string \<Rightarrow> bytes list" where
  "file_keys db b = map fst (file_bucket db b)"

definition file_bolt :: "file_db bolt" where
  "file_bolt = \<lparr>
     tx_HasBucket = (\<lambda>db b. map_of db b \<noteq> None),
     tx_CreateBucketIfNotExists = file_create_missing,
     tx_CreateBucket = file_create,
     tx_DeleteBucket = file_drop,
     bk_Get = (\<lambda>db b k. map_of (file_bucket db b) k),
     bk_Put = file_put,
     bk_Delete = file_delete,
     bk_Items = (\<lambda>db b. sort_key fst (AList.clearjunk (file_bucket db b))),
     cur_First = (\<lambda>db b. least_key (file_keys db b)),
     cur_Last = (\<lambda>db b. greatest_key (file_keys db b)),
     cur_Seek = (\<lambda>db b k. least_key (filter (\<lambda>k'. k \<le> k') (file_keys db b))),
     cur_Rest = (\<lambda>db b k. sort (filter (\<lambda>k'. k < k') (remdups (file_keys db b)))),
     tx_Commit = (\<lambda>db. None)\<rparr>"

lemma least_key_set:
  assumes "\<And>k. P k \<longleftrightarrow> k \<in> set ks"
  shows "is_least P (least_key ks)"
proof (cases ks)
  case (Cons k r)
  then have "fold min r k = Min (set ks)" by (simp only: Min.set_eq_fold)
  moreover have "set ks \<noteq> {}" using Cons by simp
  ultimately show ?thesis using Cons Min_in [OF _ \<open>set ks \<noteq> {}\<close>] assms
    by (simp add: is_least_def least_key_def)
qed (use assms in \<open>simp add: is_least_def least_key_def\<close>)

lemma greatest_key_set:
  assumes "\<And>k. P k \<longleftrightarrow> k \<in> set ks"
  shows "is_greatest P (greatest_key ks)"
proof (cases ks)
  case (Cons k r)
  then have "fold max r k = Max (set ks)" by (simp only: Max.set_eq_fold)
  moreover have "set ks \<noteq> {}" using Cons by simp
  ultimately show ?thesis using Cons Max_in [OF _ \<open>set ks \<noteq> {}\<close>] assms
    by (simp add: is_greatest_def greatest_key_def)
qed (use assms in \<open>simp add: is_greatest_def greatest_key_def\<close>)

lemma file_has_key: "has_key file_bolt db b k \<longleftrightarrow> k \<in> set (file_keys db b)"
  by (simp add: has_key_def file_bolt_def file_keys_def map_of_eq_None_iff)

lemma file_bolt_spec: "bolt_spec file_bolt"
  unfolding bolt_spec_def
proof (intro conjI)
  show "bolt_create_spec file_bolt"
    by (auto simp: bolt_create_spec_def file_bolt_def file_create_missing_def file_bucket_def
        split: if_splits option.splits)
  show "bolt_recreate_spec file_bolt"
    by (auto simp: bolt_recreate_spec_def file_bolt_def file_create_def file_bucket_def
        split: if_splits option.splits)
  show "bolt_drop_spec file_bolt"
    by (auto simp: bolt_drop_spec_def file_bolt_def file_drop_def file_bucket_def delete_conv'
        split: if_splits option.splits)
  show "bolt_put_spec file_bolt"
    by (auto simp: bolt_put_spec_def file_bolt_def file_put_def file_bucket_def update_conv'
        split: if_splits option.splits)
  show "bolt_delete_spec file_bolt"
    by (auto simp: bolt_delete_spec_def file_bolt_def file_delete_def file_bucket_def update_conv' delete_conv'
        split: if_splits option.splits)
  have "is_least (has_key file_bolt db b) (cur_First file_bolt db b)"
    "is_greatest (has_key file_bolt db b) (cur_Last file_bolt db b)"
    "is_least (\<lambda>k'. has_key file_bolt db b k' \<and> k \<le> k') (cur_Seek file_bolt db b k)" for db b k
    unfolding file_has_key by (auto simp: file_bolt_def intro!: least_key_set greatest_key_set)
  moreover have "map_of (bk_Items file_bolt db b) = bk_Get file_bolt db b"
    "distinct (map fst (bk_Items file_bolt db b))" for db b
  proof -
    have d: "distinct (map fst (AList.clearjunk (file_bucket db b)))" by (rule distinct_clearjunk)
    show "map_of (bk_Items file_bolt db b) = bk_Get file_bolt db b"
      using map_of_sort_key_fst [OF d] by (simp add: file_bolt_def fun_eq_iff map_of_clearjunk)
    show "distinct (map fst (bk_Items file_bolt db b))" using d by (simp add: file_bolt_def distinct_map)
  qed
  ultimately show "bolt_read_spec file_bolt" by (simp add: bolt_read_spec_def)
qed

lemma file_bolt_writes_ok: "bolt_writes_ok file_bolt"
  by (auto simp: bolt_writes_ok_def file_bolt_def file_put_def file_delete_def file_create_missing_def
      file_create_def file_drop_def)

end
