(* ===== verification/Examples.thy ===== *)
theory Examples
  imports Election_Runs Replication_Round Program Bolt_Model
begin

text \<open>
  Concrete configurations and nodes used by the witnesses of the properties: clusters of three and
  of four nodes with the default timeouts, and nodes of the cluster of three with a given log.
\<close>

definition demo_config :: "string list \<Rightarrow> string \<Rightarrow> config" where
  "demo_config ids a =
     \<lparr>cfg_Node = \<lparr>nc_ID = a, nc_Addr = a\<rparr>,
      cfg_Peers = map (\<lambda>p. \<lparr>nc_ID = p, nc_Addr = p\<rparr>) (filter (\<lambda>p. p \<noteq> a) ids),
      cfg_Raft = \<lparr>ElectionTimeoutMinMs = 150, ElectionTimeoutMaxMs = 300, HeartbeatIntervalMs = 50,
                  SnapshotThreshold = 10000\<rparr>,
      cfg_Storage = \<lparr>sc_Type = ''memory'', sc_DataDir = ''data''\<rparr>,
      cfg_Server = \<lparr>srv_Addr = '':8080''\<rparr>\<rparr>"

definition three :: "string list" where "three = [''a'', ''b'', ''c'']"
definition two :: "string list" where "two = [''a'', ''b'']"
definition four :: "string list" where "four = [''a'', ''b'', ''c'', ''d'']"

lemma demo_timer_ok: "timer_ok (demo_config ids a)"
  by (simp add: timer_ok_def demo_config_def int64_id)

lemma demo_configured:
  assumes "distinct ids" "\<forall>a\<in>set ids. valid_id a"
  shows "configured (demo_config ids) ids"
  using assms demo_timer_ok by (auto simp: configured_def demo_config_def comp_def)

lemma ascii_valid_id: "s \<noteq> [] \<Longrightarrow> length s \<le> 1000 \<Longrightarrow> \<forall>c\<in>set s. of_char c < (128 :: nat) \<Longrightarrow> valid_id s"
  by (simp add: valid_id_def ascii_utf8_valid)

lemma three_configured: "configured (demo_config three) three"
  by (rule demo_configured) (auto simp: three_def intro!: ascii_valid_id)

lemma two_configured: "configured (demo_config two) two"
  by (rule demo_configured) (auto simp: two_def intro!: ascii_valid_id)

lemma four_configured: "configured (demo_config four) four"
  by (rule demo_configured) (auto simp: four_def intro!: ascii_valid_id)

lemma empty_file: "\<not> tx_HasBucket file_bolt [] b"
  by (simp add: file_bolt_def)

section \<open>Nodes\<close>

text \<open>A log file with the given entries, term and vote, and a node of the cluster of three on it.\<close>

definition demo_log :: "log_entry list \<Rightarrow> u64 \<Rightarrow> string \<Rightarrow> file_db raft_log" where
  "demo_log es t v =
     \<lparr>rl_db = [(logBucket, map (\<lambda>e. (indexKey (le_Index e), print_json (json_entry e))) es),
               (metaBucket, [(metaKey, print_json (json_meta t v))])],
      rl_snapshotIndex = 0, rl_snapshotTerm = 0, rl_closed = False\<rparr>"

definition demo_node ::
  "'st \<Rightarrow> log_entry list \<Rightarrow> u64 \<Rightarrow> string \<Rightarrow> node_state \<Rightarrow> leader_state option \<Rightarrow> (file_db, 'st) raft_node" where
  "demo_node st es t v role ls =
     \<lparr>rn_id = ''a'', rn_peers = peers_of (demo_config three ''a''), rn_raftLog = demo_log es t v,
      rn_currentTerm = t, rn_votedFor = v, rn_state = role, rn_commitIndex = 0, rn_lastApplied = 0,
      rn_leaderID = [], rn_leader = ls, rn_storage = st, rn_electionTimer = Armed 150000000,
      rn_heartbeatTimer = NoTimer, rn_cfg = demo_config three ''a'', rn_stopped = False,
      rn_pending = Map.empty, rn_nextChan = 0, rn_done = Map.empty, rn_snapshotData = [], rn_tasks = [],
      rn_rand = (\<lambda>_. 0), rn_draws = 0, rn_panicked = False\<rparr>"

definition demo_put :: "string \<Rightarrow> bytes \<Rightarrow> command" where
  "demo_put k v = zero_command\<lparr>c_Op := OpPut, c_Key := k, c_Value := v\<rparr>"

definition demo_entry :: "u64 \<Rightarrow> u64 \<Rightarrow> log_entry" where
  "demo_entry i t = \<lparr>le_Index = i, le_Term = t, le_Command = demo_put ''k'' ''v''\<rparr>"

lemma demo_log_simps [simp]:
  "rl_snapshotIndex (demo_log es t v) = 0" "rl_snapshotTerm (demo_log es t v) = 0" "\<not> rl_closed (demo_log es t v)"
  by (simp_all add: demo_log_def)

lemma demo_log_get:
  "bk_Get file_bolt (rl_db (demo_log es t v)) logBucket (indexKey i) =
     map_option (\<lambda>e. print_json (json_entry e)) (find (\<lambda>e. le_Index e = i) es)"
proof -
  have "map_of (map (\<lambda>e. (indexKey (le_Index e), print_json (json_entry e))) es) (indexKey i) =
      map_option (\<lambda>e. print_json (json_entry e)) (find (\<lambda>e. le_Index e = i) es)"
    by (induction es) auto
  then show ?thesis by (simp add: demo_log_def file_bolt_def file_bucket_def)
qed

lemma demo_log_at: "log_at file_bolt (demo_log es t v) i = map_option clean_entry (find (\<lambda>e. le_Index e = i) es)"
  by (cases "find (\<lambda>e. le_Index e = i) es")
    (simp_all add: log_at_def Get_def demo_log_get unmarshal_entry)

lemma demo_log_ok: "rl_ok file_bolt (demo_log es t v)"
proof -
  have "stored_entry k data" if "map_of (map (\<lambda>e. (indexKey (le_Index e), print_json (json_entry e))) es) k = Some data" for k data
    using map_of_SomeD [OF that] unmarshal_entry by (auto simp: stored_entry_def)
  then show ?thesis
    using file_bolt_spec by (simp add: rl_ok_def db_ok_def demo_log_def file_bolt_def file_bucket_def)
qed

lemma file_bolt_whole_keys: "whole_keys file_bolt"
  unfolding whole_keys_def
proof (intro allI impI)
  fix db k k' assume ok: "db_ok file_bolt db" and k': "k' \<in> set (cur_Rest file_bolt db logBucket k)"
  then have "bk_Get file_bolt db logBucket k' \<noteq> None"
    by (auto simp: file_bolt_def file_keys_def map_of_eq_None_iff)
  then obtain data where "bk_Get file_bolt db logBucket k' = Some data" by blast
  then have "stored_entry k' data" using ok unfolding db_ok_def by blast
  then obtain i where "k' = indexKey i" by (auto simp: stored_entry_def)
  then show "8 \<le> length k'" by simp
qed

lemma demo_log_meta: "utf8_valid v \<Longrightarrow> LoadMeta file_bolt (demo_log es t v) = Inr (t, v)"
  by (simp add: LoadMeta_def demo_log_def file_bolt_def file_bucket_def unmarshal_meta utf8_valid_def)

lemma demo_log_last: "es \<noteq> [] \<Longrightarrow> m \<in> le_Index ` set es \<Longrightarrow> \<forall>e\<in>set es. le_Index e \<le> m \<Longrightarrow>
    LastIndex file_bolt (demo_log es t v) = m"
  by (rule rlog.last_index_eqI [OF demo_log_ok]) (auto simp: demo_log_at find_None_iff find_Some_iff)

lemma demo_log_last_empty: "LastIndex file_bolt (demo_log [] t v) = 0"
  using LastIndex_empty [OF demo_log_ok, of "[]" t v] by (simp add: demo_log_at)

lemma demo_node_simps [simp]:
  "rn_raftLog (demo_node st es t v role ls) = demo_log es t v" "rn_currentTerm (demo_node st es t v role ls) = t"
  "rn_votedFor (demo_node st es t v role ls) = v" "rn_state (demo_node st es t v role ls) = role"
  "rn_leader (demo_node st es t v role ls) = ls" "\<not> rn_panicked (demo_node st es t v role ls)"
  "rn_storage (demo_node st es t v role ls) = st" "rn_id (demo_node st es t v role ls) = ''a''"
  "rn_peers (demo_node st es t v role ls) = peers_of (demo_config three ''a'')"
  "rn_commitIndex (demo_node st es t v role ls) = 0" "rn_lastApplied (demo_node st es t v role ls) = 0"
  "rn_cfg (demo_node st es t v role ls) = demo_config three ''a''" "rn_pending (demo_node st es t v role ls) = Map.empty"
  "rn_leaderID (demo_node st es t v role ls) = []" "rn_tasks (demo_node st es t v role ls) = []"
  by (simp_all add: demo_node_def)

lemma demo_node_ok: "utf8_valid v \<Longrightarrow> role = Leader \<longrightarrow> ls \<noteq> None \<Longrightarrow> node_ok file_bolt (demo_node st es t v role ls)"
  by (simp add: node_ok_def demo_log_ok demo_timer_ok demo_log_meta) (auto intro!: ascii_valid_id)

lemma demo_peers: "peers_of (demo_config three ''a'') =
    [\<lparr>p_ID = ''b'', p_Addr = ''b''\<rparr>, \<lparr>p_ID = ''c'', p_Addr = ''c''\<rparr>]"
  by (simp add: peers_of_def demo_config_def three_def)

lemma demo_entry_simps [simp]: "le_Index (demo_entry i t) = i" "le_Term (demo_entry i t) = t"
    "le_Command (demo_entry i t) = demo_put ''k'' ''v''"
  by (simp_all add: demo_entry_def)

lemma demo_entry_clean [simp]: "clean_entry (demo_entry i t) = demo_entry i t"
  by (simp add: clean_entry_def demo_entry_def clean_command_def demo_put_def zero_command_def OpPut_def
      ascii_to_valid_utf8)

lemma demo_entry_fits: "entry_fits (demo_entry i t)"
proof -
  have "length (print_json (json_entry (demo_entry i t))) \<le> 500"
    using length_show_u64 [of i] length_show_u64 [of t] length_quote [of "''index''"] length_quote [of "''term''"]
      length_quote [of "''command''"] length_quote [of "''op''"] length_quote [of "''PUT''"] length_quote [of "''key''"]
      length_quote [of "''k''"] length_quote [of "''value''"] length_quote [of "b64_encode ''v''"]
    by (simp add: json_entry_def json_command_def omit_if_def demo_entry_def demo_put_def zero_command_def OpPut_def
        json_u64_def json_bytes_def)
  then show ?thesis by (simp add: entry_fits_def max_value_size_def)
qed

lemma demo_put_clean: "clean_command (demo_put ''k'' ''v'') = demo_put ''k'' ''v''"
  using demo_entry_clean [of 1 1] by (simp add: clean_entry_def demo_entry_def)

lemma demo_clean_put: "disk_cmd (demo_put ''k'' ''v'')"
  by (simp add: disk_cmd_def demo_put_def max_key_size_def max_value_size_def zero_command_def)

lemma demo_proposable: "proposable disk_cmd (demo_put ''k'' ''v'')"
  using demo_entry_fits demo_clean_put by (simp add: proposable_def demo_put_clean runnable_def demo_entry_def)

abbreviation demo_follower :: "log_entry list \<Rightarrow> u64 \<Rightarrow> (file_db, memory_engine) raft_node" where
  "demo_follower es t \<equiv> demo_node NewMemoryEngine es t [] Follower None"

abbreviation demo_keeper :: "log_entry list \<Rightarrow> u64 \<Rightarrow> (file_db, file_db store) raft_node" where
  "demo_keeper es t \<equiv> demo_node (MemoryStore NewMemoryEngine) es t [] Follower None"

lemma demo_follower_ok: "node_ok file_bolt (demo_follower es t)"
  by (rule demo_node_ok) simp_all

definition demo_vote :: request_vote_request where
  "demo_vote = \<lparr>rvr_Term = 2, rvr_CandidateID = ''b'', rvr_LastLogIndex = 1, rvr_LastLogTerm = 1\<rparr>"

lemma demo_vote_granted:
  "rvs_VoteGranted (snd (HandleRequestVote file_bolt demo_vote (demo_follower [] 1)))"
proof -
  have "LastTerm file_bolt (demo_log [] 1 []) = 0" by (simp add: LastTerm_def demo_log_last_empty)
  moreover have "grants file_bolt demo_vote (demo_follower [] 1)"
  proof -
    have "same_log file_bolt (demo_log [] 1 []) (rn_raftLog (becomeFollower file_bolt 2 (demo_follower [] 1)))"
      using demo_log_ok SaveMeta_saved [OF demo_log_ok [of "[]" 1 "[]"] file_bolt_writes_ok utf8_valid_Nil, of 2]
      by (simp add: same_log_def)
    from same_log_LastTerm [OF this] calculation
    show ?thesis by (simp add: grants_def demo_vote_def rv_enter_def candidateUpToDate_def)
  qed
  ultimately show ?thesis
    by (simp add: HandleRequestVote_eq demo_timer_ok zero_rvs_def demo_vote_def)
qed

end
