(* ===== verification/Log_Properties.thy ===== *)
theory Log_Properties
  imports Examples
begin

text \<open>Properties of the persistent Raft log (\<open>internal/consensus/log.go\<close>), with their witnesses.\<close>

lemma demo_append:
  obtains rl' where "Append file_bolt (demo_entry i t) (demo_log es u v) = (rl', None)"
  using Append_ok [OF demo_log_ok file_bolt_writes_ok demo_entry_fits] .

lemma demo_find: "find (\<lambda>e. le_Index e = i) [demo_entry 1 t, demo_entry 2 u] =
    (if i = 1 then Some (demo_entry 1 t) else if i = 2 then Some (demo_entry 2 u) else None)"
  by simp

text \<open>On a healthy disk a batch of entries of reasonable size is always stored.\<close>

lemma put_entries_total:
  assumes "bolt_spec B" "bolt_writes_ok B" "tx_HasBucket B db logBucket" "\<forall>e\<in>set es. entry_fits e"
  shows "\<exists>db'. put_entries B es db = Inr db'"
  using assms(3,4)
proof (induction es arbitrary: db)
  case (Cons e es)
  obtain t where t: "put_entry B e db = Inr t"
    using put_ok [OF assms(2) Cons.prems(1), of "indexKey (le_Index e)"] Cons.prems(2)
    by (auto simp: put_entry_def entry_fits_def max_key_size_def)
  have "tx_HasBucket B t logBucket"
    using put_has [OF assms(1) Cons.prems(1) t [unfolded put_entry_def]] Cons.prems(1) by simp
  then show ?case using Cons t by simp
qed simp

lemma AppendBatch_ok:
  assumes "rl_ok B rl" "bolt_writes_ok B" "\<forall>e\<in>set es. entry_fits e"
  shows "\<exists>rl'. AppendBatch B es rl = (rl', None)"
  using put_entries_total [OF rl_okD(1) [OF assms(1)] assms(2) rl_okD(2) [OF assms(1)] assms(3)]
    rl_Update_ok [OF assms(2) rl_okD(4) [OF assms(1)], of "put_entries B es"]
  by (auto simp: AppendBatch_def)

text \<open>
  C24 (binary keys). Indices survive the trip through their eight-byte keys, and the byte order of
  the keys is the numeric order of the indices, so the first and the last key of the bucket belong
  to the least and the greatest index.
\<close>

theorem index_keys_ordered:
  "bytesToIndex (indexKey i) = i \<and> (indexKey i < indexKey j \<longleftrightarrow> i < j) \<and> length (indexKey i) = 8"
  by (simp add: indexKey_less_iff)

text \<open>
  C25 (append). After a successful \<open>Append\<close> the entry is found at its index, every other index reads
  as before, and the durable term and vote are unchanged; after a failed one the log is unchanged.
\<close>

theorem append_then_get:
  assumes "rl_ok B rl" "Append B e rl = (rl', err)"
  shows "if err = None
    then Get B i rl' = (if i = le_Index e then Inr (clean_entry e) else Get B i rl) \<and>
      LoadMeta B rl' = LoadMeta B rl \<and> rl_ok B rl'
    else rl' = rl"
proof (cases err)
  case None
  note c = Append_commit [OF assms(1) assms(2) [unfolded None]]
  have "Get B i rl' = (if i = le_Index e then Inr (clean_entry e) else Get B i rl)"
    by (simp add: Get_log_at [OF assms(1)] Get_log_at [OF c(1)] c(2))
  then show ?thesis using None c(1) LoadMeta_cong [OF assms(1) c(1,3)] by simp
next
  case (Some e)
  then show ?thesis using assms(2) Append_fail by simp
qed

theorem append_then_get_witness:
  "\<exists>rl'. Append file_bolt (demo_entry 3 1) (demo_log [demo_entry 1 1, demo_entry 2 1] 1 []) = (rl', None) \<and>
     Get file_bolt 3 rl' = Inr (demo_entry 3 1) \<and>
     Get file_bolt 2 rl' = Inr (demo_entry 2 1) \<and> LoadMeta file_bolt rl' = Inr (1, [])"
proof -
  obtain rl' where a: "Append file_bolt (demo_entry 3 1) (demo_log [demo_entry 1 1, demo_entry 2 1] 1 []) = (rl', None)"
    by (rule demo_append)
  note g = append_then_get [OF demo_log_ok a, simplified]
  have "Get file_bolt 2 (demo_log [demo_entry 1 1, demo_entry 2 1] 1 []) = Inr (demo_entry 2 1)"
    by (simp add: Get_log_at [OF demo_log_ok] demo_log_at)
  then show ?thesis using a g [of 3] g [of 2] demo_log_meta [of "[]"] by simp
qed

text \<open>
  C26 (batches are atomic). A successful \<open>AppendBatch\<close> stores every entry of the batch (the last one
  for an index that occurs twice) and nothing else; a failed one stores none.
\<close>

theorem append_batch_atomic:
  assumes "rl_ok B rl" "AppendBatch B es rl = (rl', err)"
  shows "if err = None
    then rl_ok B rl' \<and> log_at B rl' i =
      (case find (\<lambda>e. le_Index e = i) (rev es) of Some e \<Rightarrow> Some (clean_entry e) | None \<Rightarrow> log_at B rl i)
    else rl' = rl"
proof (cases err)
  case None
  then show ?thesis using AppendBatch_commit [OF assms(1)] assms(2) by simp
next
  case (Some e)
  then show ?thesis using assms(2) AppendBatch_fail by simp
qed

theorem append_batch_atomic_witness:
  "\<exists>rl'. AppendBatch file_bolt [demo_entry 2 1, demo_entry 3 1] (demo_log [demo_entry 1 1] 1 []) = (rl', None) \<and>
     (\<forall>i\<in>{1, 2, 3}. log_at file_bolt rl' i = Some (demo_entry i 1))"
proof -
  obtain rl' where a: "AppendBatch file_bolt [demo_entry 2 1, demo_entry 3 1] (demo_log [demo_entry 1 1] 1 []) = (rl', None)"
    using AppendBatch_ok [OF demo_log_ok file_bolt_writes_ok] demo_entry_fits by fastforce
  show ?thesis using append_batch_atomic [OF demo_log_ok a, simplified] a by (auto simp: demo_log_at)
qed

text \<open>
  C27 (truncation). On a healthy disk \<open>TruncateFrom\<close> succeeds, removes the entry at the given index,
  and beyond it exactly the entries whose keys \<open>Next\<close> returns after the first deletion; it adds and
  changes nothing, and keeps the term and the vote. The log is gapless and ends just before the cut
  exactly when \<open>Next\<close> returns the keys of all later entries and of no earlier one, which bbolt does not
  promise for a bucket that is changed under the cursor.
\<close>

theorem truncate_from_cuts:
  assumes "rlog.contiguous B rl" "bolt_writes_ok B" "rl_snapshotIndex rl < i" "i \<le> LastIndex B rl"
  shows "\<exists>rl'. TruncateFrom B i rl = (rl', None) \<and> rl_ok B rl' \<and> LoadMeta B rl' = LoadMeta B rl \<and>
    (\<forall>j. log_at B rl' j =
      (if j = i \<or> indexKey j \<in> set (cur_Rest B (rl_db rl) logBucket (indexKey i)) then None else log_at B rl j)) \<and>
    (rlog.contiguous B rl' \<and> LastIndex B rl' = i - 1 \<longleftrightarrow>
      (\<forall>j. rl_snapshotIndex rl < j \<and> j \<le> LastIndex B rl \<and> j \<noteq> i \<longrightarrow>
        (indexKey j \<in> set (cur_Rest B (rl_db rl) logBucket (indexKey i)) \<longleftrightarrow> i < j)))"
proof -
  have ok: "rl_ok B rl" and at: "log_at B rl j \<noteq> None \<longleftrightarrow> rl_snapshotIndex rl < j \<and> j \<le> LastIndex B rl" for j
    using assms(1) by (simp_all add: rlog.contiguous_def)
  obtain rl' where t: "TruncateFrom B i rl = (rl', None)" using TruncateFrom_ok [OF ok assms(2)] .
  note c = TruncateFrom_commit [OF ok t]
  have "log_at B rl i \<noteq> None" using at assms(3,4) by blast
  note keys = truncate_keys_at [OF ok this]
  have log: "log_at B rl' j =
      (if j = i \<or> indexKey j \<in> set (cur_Rest B (rl_db rl) logBucket (indexKey i)) then None else log_at B rl j)" for j
    using c(2) [of j] by (simp add: keys)
  have meta: "LoadMeta B rl' = LoadMeta B rl" by (rule LoadMeta_cong [OF ok c(1)]) (simp add: c(3))
  have "(log_at B rl' j = None \<longleftrightarrow> i \<le> j) \<longleftrightarrow>
      (j \<noteq> i \<longrightarrow> (indexKey j \<in> set (cur_Rest B (rl_db rl) logBucket (indexKey i)) \<longleftrightarrow> i < j))"
    if "rl_snapshotIndex rl < j \<and> j \<le> LastIndex B rl" for j
    using at [of j] log [of j] that order_le_less [of i j] by auto
  then have "rlog.contiguous B rl' \<and> LastIndex B rl' = i - 1 \<longleftrightarrow>
      (\<forall>j. rl_snapshotIndex rl < j \<and> j \<le> LastIndex B rl \<and> j \<noteq> i \<longrightarrow>
        (indexKey j \<in> set (cur_Rest B (rl_db rl) logBucket (indexKey i)) \<longleftrightarrow> i < j))"
    unfolding rlog.contiguous_truncate [OF assms(1) t assms(3,4)] by blast
  then show ?thesis using t c(1) meta log by blast
qed

lemma demo_two_contiguous: "rlog.contiguous file_bolt (demo_log [demo_entry 1 t, demo_entry 2 u] x v)"
proof -
  let ?rl = "demo_log [demo_entry 1 t, demo_entry 2 u] x v"
  have last: "LastIndex file_bolt ?rl = 2" by (rule demo_log_last) simp_all
  have "0 < i \<and> i \<le> 2 \<longleftrightarrow> i = 1 \<or> i = 2" for i :: u64
    by (auto simp: word_less_nat_alt word_le_nat_alt word_unat_eq_iff)
  moreover have "log_at file_bolt ?rl i \<noteq> None \<longleftrightarrow> i = 1 \<or> i = 2" for i
    by (simp add: demo_log_at demo_find)
  ultimately have "log_at file_bolt ?rl i \<noteq> None \<longleftrightarrow> 0 < i \<and> i \<le> 2" for i by (simp only:)
  then show ?thesis using demo_log_ok last unfolding rlog.contiguous_def by simp
qed

theorem truncate_from_cuts_witness:
  "\<exists>rl'. TruncateFrom file_bolt 1 (demo_log [demo_entry 1 1, demo_entry 2 1] 1 []) = (rl', None) \<and>
     rlog.contiguous file_bolt rl' \<and> LastIndex file_bolt rl' = 0 \<and> log_at file_bolt rl' 1 = None \<and>
     log_at file_bolt rl' 2 = None"
proof -
  let ?rl = "demo_log [demo_entry 1 1, demo_entry 2 1] 1 []"
  have last: "LastIndex file_bolt ?rl = 2" by (rule demo_log_last) simp_all
  have rest: "set (cur_Rest file_bolt (rl_db ?rl) logBucket (indexKey 1)) = {indexKey 2}"
    using indexKey_less_iff [of 1 2] indexKey_less_iff [of 1 1]
    by (auto simp: file_bolt_def file_keys_def file_bucket_def demo_log_def word_less_nat_alt)
  have "0 < j \<and> j \<le> 2 \<and> j \<noteq> 1 \<longleftrightarrow> j = 2" for j :: u64
    by (auto simp: word_less_nat_alt word_le_nat_alt word_unat_eq_iff)
  then have "\<forall>j. 0 < j \<and> j \<le> 2 \<and> j \<noteq> 1 \<longrightarrow> (indexKey j \<in> {indexKey 2} \<longleftrightarrow> 1 < j)"
    by (simp add: word_less_nat_alt)
  moreover have "(0 :: u64) < 1" "(1 :: u64) \<le> 2" by (simp_all add: word_less_nat_alt word_le_nat_alt)
  ultimately show ?thesis
    using truncate_from_cuts [OF demo_two_contiguous file_bolt_writes_ok, of 1 1 1 "[]" 1] last rest by auto
qed

text \<open>
  Gapless log. Appending at the index after the last one, as \<open>Propose\<close> and a new leader do, keeps
  the log gapless above the snapshot boundary and advances the last index by one.
\<close>

theorem append_keeps_contiguous:
  assumes "rlog.contiguous B rl" "le_Index e = LastIndex B rl + 1" "LastIndex B rl \<noteq> - 1"
    "Append B e rl = (rl', None)"
  shows "rlog.contiguous B rl' \<and> LastIndex B rl' = LastIndex B rl + 1 \<and>
    LastTerm B rl' = le_Term e"
proof -
  note c = rlog.contiguous_append [OF assms(1,4,2,3)]
  have ok: "rl_ok B rl" "rl_ok B rl'" using assms(1) c(1) by (simp_all add: rlog.contiguous_def)
  have at: "log_at B rl' (LastIndex B rl') = Some (clean_entry e)"
    using Append_commit(2) [OF ok(1) assms(4)] assms(2) c(2) by simp
  moreover have "log_at B rl' (LastIndex B rl') \<noteq> None \<longrightarrow> rl_snapshotIndex rl' < LastIndex B rl'"
    using c(1) unfolding rlog.contiguous_def by blast
  ultimately have gt: "rl_snapshotIndex rl' < LastIndex B rl'" by simp
  then have "0 < LastIndex B rl'" by (rule le_less_trans [OF word_zero_le])
  then have "LastIndex B rl' \<noteq> 0" by (simp only: word_gt_0)
  then have "LastTerm B rl' = le_Term e" using less_imp_neq [OF gt] at by (simp add: LastTerm_def Let_def Get_log_at [OF ok(2)])
  then show ?thesis using c by blast
qed

theorem append_keeps_contiguous_witness:
  "\<exists>rl'. Append file_bolt (demo_entry 3 4) (demo_log [demo_entry 1 1, demo_entry 2 1] 4 []) = (rl', None) \<and>
     rlog.contiguous file_bolt rl' \<and> LastIndex file_bolt rl' = 3 \<and> LastTerm file_bolt rl' = 4"
proof -
  let ?rl = "demo_log [demo_entry 1 1, demo_entry 2 1] 4 []"
  obtain rl' where a: "Append file_bolt (demo_entry 3 4) ?rl = (rl', None)" by (rule demo_append)
  have last: "LastIndex file_bolt ?rl = 2" by (rule demo_log_last) simp_all
  show ?thesis
    using a append_keeps_contiguous [OF demo_two_contiguous _ _ a] last by (intro exI [of _ rl']) simp
qed



text \<open>
  C29 (range reads). On a log without gaps in the range, \<open>GetRange\<close> returns exactly the entries of the
  range, in order and with consecutive indices.
\<close>

theorem get_range_complete:
  assumes "rl_ok B rl" "i \<le> to" "filled B rl i to"
  shows "\<exists>es. GetRange B i to rl = Inr es \<and> runs i es \<and> length es = unat to - unat i + 1 \<and>
    (\<forall>e. e \<in> set es \<longleftrightarrow> (\<exists>j. i \<le> j \<and> j \<le> to \<and> log_at B rl j = Some e))"
proof (intro exI conjI allI)
  show "GetRange B i to rl = Inr (entries_from B rl i to)" "runs i (entries_from B rl i to)"
    using GetRange_full [OF assms(2,1,3)] by blast+
  show "length (entries_from B rl i to) = unat to - unat i + 1"
    using assms(2) by (simp add: entries_from_def word_le_nat_alt Suc_diff_le)
  show "e \<in> set (entries_from B rl i to) \<longleftrightarrow> (\<exists>j. i \<le> j \<and> j \<le> to \<and> log_at B rl j = Some e)" for e
    by (rule entries_from_mem [OF assms(3)])
qed

theorem get_range_complete_witness:
  "\<exists>es. GetRange file_bolt 1 2 (demo_log [demo_entry 1 1, demo_entry 2 1] 1 []) = Inr es \<and> length es = 2 \<and>
     demo_entry 2 1 \<in> set es"
proof -
  let ?rl = "demo_log [demo_entry 1 1, demo_entry 2 1] 1 []"
  have last: "LastIndex file_bolt ?rl = 2" by (rule demo_log_last) simp_all
  have "filled file_bolt ?rl 1 2" using contiguous_filled [OF demo_two_contiguous, of 1 1 1 "[]" 1] last by simp
  moreover have "log_at file_bolt ?rl 2 = Some (demo_entry 2 1)" by (simp add: demo_log_at)
  moreover have "(1 :: u64) \<le> 2" by (simp add: word_le_nat_alt)
  ultimately show ?thesis using get_range_complete [OF demo_log_ok, of 1 2 "[demo_entry 1 1, demo_entry 2 1]" 1 "[]"]
    by (auto intro!: exI [of _ 2])
qed

end
