(* ===== verification/Node_Properties.thy ===== *)
theory Node_Properties
  imports Examples
begin

text \<open>
  Properties of a single Raft node (\<open>internal/consensus/raft.go\<close>, \<open>state.go\<close>), with their
  witnesses: votes, replication, commitment, application and snapshots.
\<close>

section \<open>Votes\<close>

text \<open>
  C13 (when a vote is granted). A node grants its vote exactly when the request is not from an older
  term, it has not voted for another candidate in the term of the request, and the candidate's log
  is at least as up to date as its own.
\<close>

theorem vote_granted_iff:
  assumes "node_ok B n" "\<not> rn_panicked n" "bolt_writes_ok B"
  shows "rvs_VoteGranted (snd (HandleRequestVote B req n)) \<longleftrightarrow>
    rn_currentTerm n \<le> rvr_Term req \<and>
    (rn_currentTerm n = rvr_Term req \<longrightarrow> rn_votedFor n \<in> {[], rvr_CandidateID req}) \<and>
    (LastTerm B (rn_raftLog n) < rvr_LastLogTerm req \<or>
     LastTerm B (rn_raftLog n) = rvr_LastLogTerm req \<and> LastIndex B (rn_raftLog n) \<le> rvr_LastLogIndex req)"
proof -
  have tm: "timer_ok (rn_cfg n)" and rl: "rl_ok B (rn_raftLog n)" using assms(1) by (simp_all add: node_ok_def)
  have same: "same_log B (rn_raftLog n) (rn_raftLog (rv_enter B req n))"
    using rl SaveMeta_saved [OF rl assms(3) utf8_valid_Nil, of "rvr_Term req"]
    by (simp add: rv_enter_def same_log_def)
  have up: "candidateUpToDate B req (rn_raftLog (rv_enter B req n)) = candidateUpToDate B req (rn_raftLog n)"
    using same_log_LastIndex [OF same] same_log_LastTerm [OF same] by (simp add: candidateUpToDate_def)
  let ?t = "rn_currentTerm n" and ?u = "rvr_Term req"
  consider (older) "?u < ?t" "\<not> ?t \<le> ?u" | (newer) "\<not> ?u < ?t" "?t < ?u" "?t \<le> ?u" "?t \<noteq> ?u" | (same) "?t = ?u"
    using less_linear [of ?t ?u] leD less_imp_le less_imp_neq not_less by metis
  then have "grants B req n \<longleftrightarrow> ?t \<le> ?u \<and> (?t = ?u \<longrightarrow> rn_votedFor n \<in> {[], rvr_CandidateID req}) \<and>
      candidateUpToDate B req (rn_raftLog n)"
    by cases (simp_all add: grants_def up, simp_all add: rv_enter_def)
  moreover have "rvs_VoteGranted (snd (HandleRequestVote B req n)) \<longleftrightarrow> grants B req n"
    by (simp add: HandleRequestVote_eq [OF tm assms(2)] zero_rvs_def) (simp add: grants_def)
  ultimately show ?thesis by (auto simp: candidateUpToDate_def)
qed

theorem vote_granted_iff_witness:
  "rvs_VoteGranted (snd (HandleRequestVote file_bolt
     \<lparr>rvr_Term = 2, rvr_CandidateID = ''b'', rvr_LastLogIndex = 1, rvr_LastLogTerm = 1\<rparr> (demo_follower [] 1))) \<and>
   \<not> rvs_VoteGranted (snd (HandleRequestVote file_bolt
     \<lparr>rvr_Term = 0, rvr_CandidateID = ''b'', rvr_LastLogIndex = 1, rvr_LastLogTerm = 1\<rparr> (demo_follower [] 1)))"
proof -
  have "LastTerm file_bolt (demo_log [] 1 []) = 0" by (simp add: LastTerm_def demo_log_last_empty)
  moreover have "(1 :: u64) \<le> 2" "\<not> (1 :: u64) \<le> 0" by (simp_all add: word_le_nat_alt)
  moreover have "\<not> rn_panicked (demo_follower [] 1)" by simp
  ultimately show ?thesis
    by (simp add: vote_granted_iff [OF demo_follower_ok _ file_bolt_writes_ok])
qed

text \<open>
  C14 (votes are durable). When a node grants its vote, the vote is already in its database: a restart
  from that database succeeds, and the new node is a follower in the term of the request that has
  voted for the candidate and has the same log.
\<close>

theorem vote_survives_restart:
  assumes "node_ok B n" "\<not> rn_panicked n" "bolt_writes_ok B" "savable (rvr_CandidateID req)"
    and "HandleRequestVote B req n = (n', resp)" "rvs_VoteGranted resp"
    and "bolt_Open (raft_db_path (rn_cfg n)) = Inr (rl_db (rn_raftLog n'))"
    and "mkdirAll (extractDir (raft_db_path (rn_cfg n))) = None" "nc_ID (cfg_Node (rn_cfg n)) = rn_id n"
  shows "\<exists>m. NewRaftNode B mkdirAll bolt_Open rnd (rn_cfg n) store = Inr m \<and> rn_currentTerm m = rvr_Term req \<and>
    rn_votedFor m = rvr_CandidateID req \<and> rn_state m = Follower \<and> log_at B (rn_raftLog m) = log_at B (rn_raftLog n')"
proof -
  have ok': "node_ok B n'" using steadyD(1) [OF HandleRequestVote_steady [OF assms(3,4,2,1,5)] assms(1)] .
  note g = HandleRequestVote_granted(1,2) [OF assms(3,4,2,1,5,6)]
  have db: "bolt_spec B" "db_ok B (rl_db (rn_raftLog n'))"
      "LoadMeta B (rn_raftLog n') = Inr (rvr_Term req, rvr_CandidateID req)"
    using ok' g by (simp_all add: node_ok_def rl_ok_def)
  have cfg: "timer_ok (rn_cfg n)" "valid_id (nc_ID (cfg_Node (rn_cfg n)))"
    using assms(1,9) by (simp_all add: node_ok_def)
  obtain m where m: "NewRaftNode B mkdirAll bolt_Open rnd (rn_cfg n) store = Inr m"
    using NewRaftNode_restarts [OF assms(3) ok' refl, of bolt_Open "rn_cfg n" mkdirAll rnd store] assms(7,8) by blast
  note re = NewRaftNode_reopen [OF db(1,2) assms(7) db(3) refl cfg m]
  show ?thesis using m re by blast
qed

theorem vote_survives_restart_witness:
  "\<exists>n' resp m. HandleRequestVote file_bolt demo_vote (demo_follower [] 1) = (n', resp) \<and>
     NewRaftNode file_bolt (\<lambda>_. None) (\<lambda>_. Inr (rl_db (rn_raftLog n'))) (\<lambda>_. 0) (demo_config three ''a'')
       NewMemoryEngine = Inr m \<and> rn_currentTerm m = 2 \<and> rn_votedFor m = ''b''"
proof -
  obtain n' resp where h: "HandleRequestVote file_bolt demo_vote (demo_follower [] 1) = (n', resp)" by fastforce
  have g: "rvs_VoteGranted resp" using demo_vote_granted h by simp
  have sv: "savable (rvr_CandidateID demo_vote)" by (simp add: savable_def demo_vote_def ascii_utf8_valid)
  have live: "\<not> rn_panicked (demo_follower [] 1)" by simp
  have "nc_ID (cfg_Node (rn_cfg (demo_follower [] 1))) = rn_id (demo_follower [] 1)" by (simp add: demo_config_def)
  from vote_survives_restart [OF demo_follower_ok live file_bolt_writes_ok sv h g _ _ this,
      of "\<lambda>_. Inr (rl_db (rn_raftLog n'))" "\<lambda>_. None" "\<lambda>_. 0" NewMemoryEngine] h
  show ?thesis by (auto simp: demo_vote_def)
qed

text \<open>
  C15 (terms and votes over time). In every run of a cluster, of any size, whatever requests, replies,
  timers, elections, tasks, crashes and restarts a node goes through, its term never decreases, a
  vote cast in a term is never changed within that term, and term and vote are at every moment the
  ones on its disk.
\<close>

theorem terms_and_votes_monotone:
  assumes "bolt_spec B" "bolt_writes_ok B" "configured cfgs ids" "reachable B E cfgs ids cl"
    and "(cluster_step B E cfgs ids)\<^sup>*\<^sup>* cl cl'" "a \<in> set ids"
  shows "rn_currentTerm (cl_node cl a) \<le> rn_currentTerm (cl_node cl' a) \<and>
    (rn_currentTerm (cl_node cl' a) = rn_currentTerm (cl_node cl a) \<and> rn_votedFor (cl_node cl a) \<noteq> [] \<longrightarrow>
      rn_votedFor (cl_node cl' a) = rn_votedFor (cl_node cl a)) \<and>
    LoadMeta B (rn_raftLog (cl_node cl' a)) = Inr (rn_currentTerm (cl_node cl' a), rn_votedFor (cl_node cl' a))"
proof -
  note steps = cluster_steps_advance [OF assms(5,4,3,1,2)]
  note adv = advancesD [OF steps(2) reachable_node(1) [OF assms(4,3,1,2,6)]]
  have "node_ok B (cl_node cl' a)" using reachable_node(1) [OF steps(1) assms(3,1,2,6)] .
  then show ?thesis using adv by (simp add: node_ok_def)
qed

text \<open>A run in which one node has voted for another in an election that is still open.\<close>

lemma voter_run:
  "\<exists>cl :: (file_db, memory_engine) cluster. reachable file_bolt memory_ops (demo_config three) three cl \<and>
     rn_currentTerm (cl_node cl ''b'') = 1 \<and> rn_votedFor (cl_node cl ''b'') = ''a''"
proof -
  obtain cl :: "(file_db, memory_engine) cluster" where cl: "cluster_init file_bolt (demo_config three) three cl"
      "\<forall>a. cl_run cl a = Idle" "\<forall>a\<in>set three. fresh_node file_bolt (cl_node cl a) \<and> rn_id (cl_node cl a) = a"
    using fresh_cluster [OF file_bolt_spec file_bolt_writes_ok three_configured empty_file empty_file,
        of "\<lambda>_. NewMemoryEngine"] by metis
  have ids: "''a'' \<in> set three" "''b'' \<in> set three" by (simp_all add: three_def)
  have f: "fresh_node file_bolt (cl_node cl ''a'')" "fresh_node file_bolt (cl_node cl ''b'')"
      "rn_id (cl_node cl ''a'') = ''a''" using cl(3) ids by blast+
  have run: "cl_run cl ''a'' = Idle" using cl(2) by blast
  obtain cl1 n1 el where c1: "elects file_bolt three cl cl1" "campaign file_bolt (cl_node cl ''a'') n1 el"
      "new_request (el_req el)" "el_req el \<in> cl_requests cl1" "cl_node cl1 = (cl_node cl)(''a'' := n1)"
    using election_begins [OF file_bolt_writes_ok ids(1) f(1) run] by metis
  have na: "node_ok file_bolt (cl_node cl ''a'')" "\<not> rn_panicked (cl_node cl ''a'')" using f(1) by (simp_all add: fresh_node_def)
  have "startElection file_bolt (cl_node cl ''a'') = (n1, Some el)" using c1(2) by (simp add: campaign_def)
  then have cand: "rvr_CandidateID (el_req el) = ''a''" "rvr_Term (el_req el) = 1"
    using startElection_keeps(9) [OF file_bolt_writes_ok na] f(3) c1(3) by (auto simp: new_request_def)
  let ?n = "cl_node cl1 ''b''"
  have nb: "fresh_node file_bolt ?n" "node_ok file_bolt ?n" "\<not> rn_panicked ?n" using f(2) c1(5) by (simp_all add: fresh_node_def)
  obtain n2 resp where v: "HandleRequestVote file_bolt (el_req el) ?n = (n2, resp)" "rvs_VoteGranted resp"
    using fresh_vote [OF file_bolt_writes_ok nb(1)] c1(3) unfolding new_request_def by metis
  have "savable (rvr_CandidateID (el_req el))" using cand by (simp add: savable_def ascii_utf8_valid)
  note g = HandleRequestVote_granted(1,2) [OF file_bolt_writes_ok this nb(3,2) v]
  let ?cl = "set_node ''b'' n2 (cl1\<lparr>cl_replies := insert (''b'', el_req el, resp) (cl_replies cl1)\<rparr>)"
  have "elects file_bolt three cl1 ?cl" using election_step.request_vote [OF ids(2) nb(3) c1(4) v(1)] by (rule elects_one)
  then have "reachable file_bolt memory_ops (demo_config three) three ?cl"
    using elects_reachable elects_reachable [OF c1(1) reachable.init [OF cl(1)]] by blast
  then show ?thesis using g cand by (intro exI [of _ ?cl]) simp
qed

theorem terms_and_votes_monotone_witness:
  "\<exists>(cl :: (file_db, memory_engine) cluster) cl'. (cluster_step file_bolt memory_ops (demo_config three) three)\<^sup>*\<^sup>* cl cl' \<and>
     rn_currentTerm (cl_node cl ''b'') = 1 \<and> rn_votedFor (cl_node cl ''b'') = ''a'' \<and>
     boots file_bolt (demo_config three ''b'') (rl_db (rn_raftLog (cl_node cl ''b''))) (cl_node cl' ''b'') \<and>
     rn_currentTerm (cl_node cl' ''b'') = 1 \<and> rn_votedFor (cl_node cl' ''b'') = ''a''"
proof -
  obtain cl :: "(file_db, memory_engine) cluster" where cl: "reachable file_bolt memory_ops (demo_config three) three cl"
      "rn_currentTerm (cl_node cl ''b'') = 1" "rn_votedFor (cl_node cl ''b'') = ''a''" using voter_run by blast
  let ?n = "cl_node cl ''b''" and ?cfg = "demo_config three ''b''"
  have b: "''b'' \<in> set three" by (simp add: three_def)
  note ok = reachable_node(1) [OF cl(1) three_configured file_bolt_spec file_bolt_writes_ok b]
  have db: "db_ok file_bolt (rl_db (rn_raftLog ?n))" "LoadMeta file_bolt (rn_raftLog ?n) = Inr (1, ''a'')"
    using ok cl(2,3) by (simp_all add: node_ok_def rl_ok_def)
  obtain m where m: "NewRaftNode file_bolt (\<lambda>_. None) (\<lambda>_. Inr (rl_db (rn_raftLog ?n))) (\<lambda>_. 0) ?cfg NewMemoryEngine = Inr m"
    using NewRaftNode_restarts [OF file_bolt_writes_ok ok refl, of "\<lambda>_. Inr (rl_db (rn_raftLog ?n))" ?cfg "\<lambda>_. None"
        "\<lambda>_. 0" NewMemoryEngine] by auto
  have "valid_id (nc_ID (cfg_Node ?cfg))" using configuredD(1,2) [OF three_configured b] by simp
  note re = NewRaftNode_reopen [OF file_bolt_spec db(1) refl db(2) refl demo_timer_ok this m]
  have boots: "boots file_bolt ?cfg (rl_db (rn_raftLog ?n)) (Start m)"
    unfolding boots_def boots_on_def
    by (intro exI [of _ NewMemoryEngine] exI [of _ "\<lambda>_. None"] exI [of _ "\<lambda>_. Inr (rl_db (rn_raftLog ?n))"]
        exI [of _ "\<lambda>_. 0"] exI [of _ m]) (simp add: m)
  let ?cl = "set_node ''b'' (Start m) (set_run ''b'' Idle cl)"
  have st: "(cluster_step file_bolt memory_ops (demo_config three) three)\<^sup>*\<^sup>* cl ?cl"
    by (rule r_into_rtranclp) (rule cluster_step.restart [where a = "''b''" and cfgs = "demo_config three" and cl = cl, OF b boots])
  have "rn_currentTerm (cl_node ?cl ''b'') = 1" using re by (simp add: Start_def)
  then show ?thesis
    using terms_and_votes_monotone [OF file_bolt_spec file_bolt_writes_ok three_configured cl(1) st b] cl(2,3) st boots
    by (intro exI [of _ cl] exI [of _ ?cl]) simp
qed

section \<open>Replication\<close>

text \<open>
  C16 (one round of replication). A leader with a gapless log sends a peer all entries from its
  \<open>nextIndex\<close> on. A follower that holds the previous entry and nothing that contradicts the batch
  accepts it; its log then has the leader's terms on the whole range, the leader's entries where it
  had none, and its old entries below the range.
\<close>

theorem replication_catches_up:
  assumes "rn_state n = Leader" "rn_leader n = Some ls" "index_get (nextIndex ls) (p_ID p) = i"
    and "rlog.contiguous B (rn_raftLog n)" "rl_snapshotIndex (rn_raftLog n) < i" "i \<le> LastIndex B (rn_raftLog n)"
    and "batch_ok (entries_from B (rn_raftLog n) i (LastIndex B (rn_raftLog n)))"
    and "node_ok B f" "\<not> rn_panicked f" "bolt_writes_ok B" "rn_currentTerm f \<le> rn_currentTerm n"
    and "rl_snapshotIndex (rn_raftLog f) < i" "prev_ok B (rn_raftLog f) (round_request B n i)"
    and "agrees B (rn_raftLog f) (entries_from B (rn_raftLog n) i (LastIndex B (rn_raftLog n)))"
  shows "\<exists>req f' resp. replicateToPeer B p n = (n, Some (RpcAppendEntries req)) \<and>
    HandleAppendEntries B req f = (f', resp) \<and> aes_Success resp \<and>
    aes_MatchIndex resp = LastIndex B (rn_raftLog f') \<and>
    caught_up B (rn_raftLog n) (rn_raftLog f) (rn_raftLog f') i"
proof -
  have "aer_Entries (round_request B n i) = entries_from B (rn_raftLog n) i (LastIndex B (rn_raftLog n))"
    by (simp add: round_request_def)
  with replication_round [OF assms(4-6) _ assms(8-13)] assms(7,14)
    replicateToPeer_request [OF assms(1-6)] show ?thesis by auto
qed

lemma demo_batch_ok [simp]: "batch_ok []" "batch_ok (demo_entry i t # es) \<longleftrightarrow> t \<noteq> 0 \<and> batch_ok es"
  by (simp_all add: batch_ok_def demo_entry_fits)

lemma demo_empty_term: "TermAt file_bolt (demo_log [] t v) i = 0"
  by (simp add: TermAt_log_at demo_log_at)

theorem replication_catches_up_witness:
  "\<exists>req f' resp. replicateToPeer file_bolt \<lparr>p_ID = ''b'', p_Addr = ''b''\<rparr>
       (demo_node NewMemoryEngine [demo_entry 1 1] 1 [] Leader (Some \<lparr>nextIndex = [(''b'', 1)], matchIndex = []\<rparr>)) =
       (demo_node NewMemoryEngine [demo_entry 1 1] 1 [] Leader (Some \<lparr>nextIndex = [(''b'', 1)], matchIndex = []\<rparr>),
        Some (RpcAppendEntries req)) \<and>
     HandleAppendEntries file_bolt req (demo_follower [] 0) = (f', resp) \<and> aes_Success resp \<and>
     log_at file_bolt (rn_raftLog f') 1 = Some (demo_entry 1 1)"
proof -
  let ?ls = "\<lparr>nextIndex = [(''b'', 1)], matchIndex = []\<rparr>"
  let ?n = "demo_node NewMemoryEngine [demo_entry 1 1] 1 [] Leader (Some ?ls)"
  let ?p = "\<lparr>p_ID = ''b'', p_Addr = ''b''\<rparr>"
  have last: "LastIndex file_bolt (demo_log [demo_entry 1 1] 1 []) = 1" by (rule demo_log_last) simp_all
  have one: "0 < i \<and> i \<le> 1 \<longleftrightarrow> i = 1" for i :: u64
    by (auto simp: word_less_nat_alt word_le_nat_alt word_unat_eq_iff)
  have con: "rlog.contiguous file_bolt (demo_log [demo_entry 1 1] 1 [])"
    unfolding rlog.contiguous_def using demo_log_ok last one by (simp add: demo_log_at)
  have es: "entries_from file_bolt (demo_log [demo_entry 1 1] 1 []) 1 1 = [demo_entry 1 1]"
    by (simp add: entries_from_last demo_log_at)
  have "prev_ok file_bolt (demo_log [] 0 []) (round_request file_bolt ?n 1)"
    by (simp add: prev_ok_def round_request_def)
  then obtain req f' resp where r: "replicateToPeer file_bolt ?p ?n = (?n, Some (RpcAppendEntries req))"
      "HandleAppendEntries file_bolt req (demo_follower [] 0) = (f', resp)" "aes_Success resp"
      "caught_up file_bolt (demo_log [demo_entry 1 1] 1 []) (demo_log [] 0 []) (rn_raftLog f') 1"
    using replication_catches_up [of ?n ?ls ?p 1 file_bolt "demo_follower [] 0"] con last es
      demo_follower_ok file_bolt_writes_ok
    by (auto simp: index_get_def agrees_def demo_empty_term)
  have "log_at file_bolt (demo_log [demo_entry 1 1] 1 []) 1 = Some (demo_entry 1 1)" by (simp add: demo_log_at)
  then have "log_at file_bolt (rn_raftLog f') 1 = Some (demo_entry 1 1)"
    using r(4) last demo_empty_term unfolding caught_up_def by auto
  then show ?thesis using r by blast
qed

text \<open>
  C17 (conflicts lose an entry). When the first entry of a batch contradicts the follower's log, the
  follower cuts its log there but does not store that entry, and the reply still reports success with
  the last index as matched. When the conflict is at the end of the log, the rest of the batch is
  stored behind the gap (further up, what is left of the log to meet depends on how far the cursor of
  \<open>TruncateFrom\<close> gets after its first deletion).
\<close>

theorem conflicting_entry_is_dropped:
  assumes "node_ok B f" "\<not> rn_panicked f" "bolt_writes_ok B" "rn_currentTerm f \<le> aer_Term req"
    and "prev_ok B (rn_raftLog f) req" "aer_Entries req = e # es" "runs (aer_PrevLogIndex req + 1) (e # es)"
    and "batch_ok es" "rl_snapshotIndex (rn_raftLog f) < aer_PrevLogIndex req + 1"
    and "TermAt B (rn_raftLog f) (aer_PrevLogIndex req + 1) \<notin> {0, le_Term e}"
  shows "\<exists>f' resp. HandleAppendEntries B req f = (f', resp) \<and> aes_Success resp \<and>
    aes_MatchIndex resp = LastIndex B (rn_raftLog f') \<and> log_at B (rn_raftLog f') (le_Index e) = None \<and>
    (LastIndex B (rn_raftLog f) = le_Index e \<longrightarrow>
      (\<forall>d\<in>set es. log_at B (rn_raftLog f') (le_Index d) = Some (clean_entry d)))"
proof -
  let ?i = "aer_PrevLogIndex req + 1"
  have idx: "le_Index e = ?i" using assms(7) by simp
  have app: "\<exists>rl'. ae_append B ?i (aer_Entries req) rl = (rl', True) \<and>
      log_at B rl' (le_Index e) = None \<and> (LastIndex B (rn_raftLog f) = le_Index e \<longrightarrow>
        (\<forall>d\<in>set es. log_at B rl' (le_Index d) = Some (clean_entry d)))"
    if same: "same_log B (rn_raftLog f) rl" for rl
  proof -
    have rl: "rl_ok B rl" "rl_snapshotIndex rl < ?i" using same assms(9) by (simp_all add: same_log_def)
    have t: "TermAt B rl ?i \<noteq> 0" "TermAt B rl ?i \<noteq> le_Term e" using assms(10) same_log_TermAt [OF same] by simp_all
    show ?thesis using ae_append_conflict [OF rl(1) assms(3,7,8) rl(2) t] assms(6) idx
        same_log_LastIndex [OF same] by auto
  qed
  from HandleAppendEntries_accepts [OF assms(1-5) app] show ?thesis by auto
qed

theorem conflicting_entry_is_dropped_witness:
  "\<exists>f' resp. HandleAppendEntries file_bolt
       \<lparr>aer_Term = 2, aer_LeaderID = ''b'', aer_PrevLogIndex = 0, aer_PrevLogTerm = 0,
        aer_Entries = [demo_entry 1 2, demo_entry 2 2], aer_LeaderCommit = 0\<rparr>
       (demo_follower [demo_entry 1 1] 1) = (f', resp) \<and> aes_Success resp \<and>
     log_at file_bolt (rn_raftLog f') 1 = None \<and> log_at file_bolt (rn_raftLog f') 2 = Some (demo_entry 2 2)"
proof -
  have t: "TermAt file_bolt (demo_log [demo_entry 1 1] 1 []) 1 = 1" by (simp add: TermAt_log_at demo_log_at)
  have last: "LastIndex file_bolt (demo_log [demo_entry 1 1] 1 []) = 1" by (rule demo_log_last) simp_all
  have "(1 :: u64) \<le> 2" by (simp add: word_le_nat_alt)
  then show ?thesis
    using conflicting_entry_is_dropped [OF demo_follower_ok _ file_bolt_writes_ok, of "[demo_entry 1 1]" 1
        "\<lparr>aer_Term = 2, aer_LeaderID = ''b'', aer_PrevLogIndex = 0, aer_PrevLogTerm = 0,
          aer_Entries = [demo_entry 1 2, demo_entry 2 2], aer_LeaderCommit = 0\<rparr>" "demo_entry 1 2" "[demo_entry 2 2]"]
      t last
    by (auto simp: prev_ok_def)
qed

text \<open>
  C18 (rejections and the back-up hint). When the previous entry is missing or has another term, the
  follower keeps its log and answers with the place to continue from: one past its last index, or
  the first index of the run of entries that have the conflicting term.
\<close>

theorem rejection_hint:
  assumes "node_ok B f" "\<not> rn_panicked f" "bolt_writes_ok B" "rn_currentTerm f \<le> aer_Term req"
    and "\<not> prev_ok B (rn_raftLog f) req" "HandleAppendEntries B req f = (f', resp)"
  shows "\<not> aes_Success resp \<and> same_log B (rn_raftLog f) (rn_raftLog f') \<and>
    (if LastIndex B (rn_raftLog f) < aer_PrevLogIndex req
     then aes_ConflictIndex resp = LastIndex B (rn_raftLog f) + 1
     else aes_ConflictIndex resp \<le> aer_PrevLogIndex req \<and>
       (\<forall>i. aes_ConflictIndex resp \<le> i \<and> i \<le> aer_PrevLogIndex req \<longrightarrow>
          TermAt B (rn_raftLog f) i = aes_ConflictTerm resp) \<and>
       (SnapshotIndex (rn_raftLog f) + 1 < aes_ConflictIndex resp \<longrightarrow>
          TermAt B (rn_raftLog f) (aes_ConflictIndex resp - 1) \<noteq> aes_ConflictTerm resp))"
proof -
  have tm: "timer_ok (rn_cfg f)" using assms(1) by (simp add: node_ok_def)
  let ?rl = "rn_raftLog f" and ?rl' = "rn_raftLog (ae_enter B req f)"
  note same = ae_enter_same_log [OF assms(1,3), of req]
  have np: "\<not> prev_ok B ?rl' req" using assms(5) same_log_prev_ok [OF same] by simp
  have rej: "f' = ae_enter B req f" "ae_check B ?rl' req (ae_reply req f) = Some resp"
    using tm assms(2,6) np leD [OF assms(4)]
    by (cases rule: HandleAppendEntries_cases; simp add: ae_check_None_iff)+
  have pos: "aer_PrevLogIndex req \<noteq> 0" using np by (auto simp: prev_ok_def)
  have succ: "\<not> aes_Success resp"
    using rej(2) by (auto simp: ae_check_def Let_def ae_reply_def zero_aes_def split: if_splits)
  show ?thesis
  proof (cases "LastIndex B ?rl < aer_PrevLogIndex req")
    case True
    then have "aes_ConflictIndex resp = LastIndex B ?rl + 1"
      using rej(2) pos same_log_LastIndex [OF same] by (auto simp: ae_check_def Let_def word_gt_0)
    then show ?thesis using True succ same rej(1) by simp
  next
    case False
    let ?t = "TermAt B ?rl (aer_PrevLogIndex req)"
    have r: "aes_ConflictTerm resp = ?t" "aes_ConflictIndex resp = conflict_loop B ?rl' ?t (aer_PrevLogIndex req)"
      using rej(2) False pos same_log_LastIndex [OF same] same_log_TermAt [OF same]
      by (auto simp: ae_check_def Let_def word_gt_0 split: if_splits)
    note cl = conflict_loop_spec [OF r(2), unfolded same_log_TermAt [OF same]]
    have si: "rl_snapshotIndex ?rl' = SnapshotIndex ?rl" using same by (simp add: same_log_def SnapshotIndex_def)
    have "TermAt B ?rl i = ?t" if "aes_ConflictIndex resp \<le> i" "i \<le> aer_PrevLogIndex req" for i
      using cl(2) that by (cases "i = aer_PrevLogIndex req") (simp, simp add: order_less_le)
    then have "\<forall>i. aes_ConflictIndex resp \<le> i \<and> i \<le> aer_PrevLogIndex req \<longrightarrow> TermAt B ?rl i = aes_ConflictTerm resp"
      unfolding r(1) by blast
    moreover have "SnapshotIndex ?rl + 1 < aes_ConflictIndex resp \<longrightarrow>
        TermAt B ?rl (aes_ConflictIndex resp - 1) \<noteq> aes_ConflictTerm resp"
      using cl(3) unfolding r(1) si .
    ultimately show ?thesis unfolding if_not_P [OF False] rej(1) using cl(1) succ same by blast
  qed
qed

theorem rejection_hint_witness:
  "\<exists>f' resp. HandleAppendEntries file_bolt
       \<lparr>aer_Term = 2, aer_LeaderID = ''b'', aer_PrevLogIndex = 5, aer_PrevLogTerm = 1, aer_Entries = [],
        aer_LeaderCommit = 0\<rparr> (demo_follower [demo_entry 1 1] 1) = (f', resp) \<and>
     \<not> aes_Success resp \<and> aes_ConflictIndex resp = 2"
proof -
  let ?req = "\<lparr>aer_Term = 2, aer_LeaderID = ''b'', aer_PrevLogIndex = 5, aer_PrevLogTerm = 1, aer_Entries = [],
        aer_LeaderCommit = 0\<rparr> :: append_entries_request"
  obtain f' resp where h: "HandleAppendEntries file_bolt ?req (demo_follower [demo_entry 1 1] 1) = (f', resp)"
    by fastforce
  have last: "LastIndex file_bolt (demo_log [demo_entry 1 1] 1 []) = 1" by (rule demo_log_last) simp_all
  have "(1 :: u64) \<le> 2" "(1 :: u64) < 5" "\<not> (5 :: u64) \<le> 1" by (simp_all add: word_le_nat_alt word_less_nat_alt)
  then show ?thesis
    using rejection_hint [OF demo_follower_ok _ file_bolt_writes_ok _ _ h] last h by (auto simp: prev_ok_def)
qed

section \<open>Commitment\<close>

text \<open>
  The commit rule of the leader: \<open>commitCandidate\<close> finds the greatest index above the commit
  index whose entry has the current term and which a strict majority of the cluster holds, and
  returns 0 when there is none.
\<close>

theorem commit_candidate_greatest:
  assumes "distinct (map fst (matchIndex ls))" "c = commitCandidate ls commit hi t termAt"
  shows "if c = 0 then \<forall>n. \<not> committable (matchIndex ls) commit t termAt hi n
    else committable (matchIndex ls) commit t termAt hi c \<and>
      (\<forall>n. committable (matchIndex ls) commit t termAt hi n \<longrightarrow> n \<le> c)"
  using commit_loop_spec [OF assms(1), of commit t termAt hi] assms(2) by (simp add: commitCandidate_def)

theorem commit_candidate_greatest_witness:
  "committable [(''b'', 3), (''c'', 1)] 1 2 (\<lambda>_. 2) 4
     (commitCandidate \<lparr>nextIndex = [], matchIndex = [(''b'', 3), (''c'', 1)]\<rparr> 1 4 2 (\<lambda>_. 2))"
proof -
  let ?ls = "\<lparr>nextIndex = [], matchIndex = [(''b'', 3), (''c'', 1)]\<rparr> :: leader_state"
  have "commitCandidate ?ls 1 4 2 (\<lambda>_. 2) \<noteq> 0" by code_simp
  then show ?thesis using commit_candidate_greatest [of ?ls _ 1 4 2 "\<lambda>_. 2", OF _ refl] by simp
qed

text \<open>
  C19 (commit indices never go back). Neither an AppendEntries request nor the reply to one lowers the
  commit index of a node.
\<close>

theorem commit_index_monotone:
  assumes "node_wf B n" "\<not> rn_panicked n" "p \<in> set (rn_peers n)"
  shows "rn_commitIndex n \<le> rn_commitIndex (fst (HandleAppendEntries B req n)) \<and>
    rn_commitIndex n \<le> rn_commitIndex (append_reply B p resp n)"
proof
  have "timer_ok (rn_cfg n)" "leader_wf n" using assms(1) by (simp_all add: node_wf_defs node_ok_def)
  then show "rn_commitIndex n \<le> rn_commitIndex (fst (HandleAppendEntries B req n))"
    "rn_commitIndex n \<le> rn_commitIndex (append_reply B p resp n)"
    using HandleAppendEntries_commit_mono [OF _ assms(2) prod.collapse [symmetric]]
      append_reply_commit_mono [OF _ assms(3)] by blast+
qed

text \<open>A leader that has committed the first of its two entries.\<close>

definition demo_committer :: "(file_db, memory_engine) raft_node" where
  "demo_committer = (demo_node NewMemoryEngine [demo_entry 1 1, demo_entry 2 1] 1 [] Leader
     (Some \<lparr>nextIndex = [(''b'', 2), (''c'', 2)], matchIndex = [(''b'', 1), (''c'', 1)]\<rparr>))\<lparr>rn_commitIndex := 1\<rparr>"

lemma demo_committer_wf: "node_wf file_bolt demo_committer"
proof -
  have "node_ok file_bolt (demo_node NewMemoryEngine [demo_entry 1 1, demo_entry 2 1] 1 [] Leader
      (Some \<lparr>nextIndex = [(''b'', 2), (''c'', 2)], matchIndex = [(''b'', 1), (''c'', 1)]\<rparr>))"
    by (rule demo_node_ok) simp_all
  then have "node_ok file_bolt demo_committer" by (simp add: demo_committer_def node_ok_def)
  then show ?thesis by (simp add: node_wf_defs leader_wf_def pending_ok_def demo_committer_def demo_peers)
qed

theorem commit_index_monotone_witness:
  "1 \<le> rn_commitIndex (fst (HandleAppendEntries file_bolt
     \<lparr>aer_Term = 2, aer_LeaderID = ''b'', aer_PrevLogIndex = 0, aer_PrevLogTerm = 0, aer_Entries = [],
      aer_LeaderCommit = 0\<rparr> demo_committer)) \<and>
   1 \<le> rn_commitIndex (append_reply file_bolt \<lparr>p_ID = ''b'', p_Addr = ''b''\<rparr>
     (zero_aes\<lparr>aes_Term := 1, aes_Success := True, aes_MatchIndex := 2\<rparr>) demo_committer) \<and>
   rn_commitIndex (append_reply file_bolt \<lparr>p_ID = ''b'', p_Addr = ''b''\<rparr>
     (zero_aes\<lparr>aes_Term := 1, aes_Success := True, aes_MatchIndex := 2\<rparr>) demo_committer) = 2"
proof -
  let ?rl = "demo_log [demo_entry 1 1, demo_entry 2 1] 1 []"
  have n: "rn_commitIndex demo_committer = 1" "\<not> rn_panicked demo_committer"
      "\<lparr>p_ID = ''b'', p_Addr = ''b''\<rparr> \<in> set (rn_peers demo_committer)"
    by (simp_all add: demo_committer_def demo_peers)
  have "LastIndex file_bolt ?rl = 2" by (rule demo_log_last) simp_all
  moreover have "TermAt file_bolt ?rl 2 = 1" by (simp add: TermAt_log_at demo_log_at)
  moreover have "commit_loop [(''b'', 2), (''c'', 1)] 1 1 f 2 = 2" if "f 2 = 1" for f :: "u64 \<Rightarrow> u64"
    using that by (subst commit_loop.simps) (simp add: commit_majority_def replica_count_def word_less_nat_alt word_le_nat_alt)
  ultimately have "rn_commitIndex (append_reply file_bolt \<lparr>p_ID = ''b'', p_Addr = ''b''\<rparr>
      (zero_aes\<lparr>aes_Term := 1, aes_Success := True, aes_MatchIndex := 2\<rparr>) demo_committer) = 2"
    by (simp add: append_reply_def demo_committer_def Let_def commitCandidate_def note_match_def index_get_def
        word_less_nat_alt)
  then show ?thesis using commit_index_monotone [OF demo_committer_wf n(2,3)] n(1) by simp
qed

section \<open>Application\<close>

text \<open>
  C20 (commands on the store). On either storage engine, applying a command whose key and value have
  an admissible size has the effect and the result of the key-value specification. For any other
  command the same holds unless the write that the command makes is refused; then the store is
  unchanged and the result is the error of that write.
\<close>

theorem apply_command_refines:
  assumes "store_ok B s" "applyCommand (store_ops B) cmd s = (s', err)"
  shows "store_ok B s' \<and>
    (runnable disk_cmd cmd \<longrightarrow> (store_contents B s', err) = kv_apply cmd (store_contents B s)) \<and>
    ((store_contents B s', err) = kv_apply cmd (store_contents B s) \<or>
     s' = s \<and> err = write_error (store_ops B) cmd s \<and> err \<noteq> None)"
  using any.apply_refines [OF assms] any.apply_exact [OF assms(1) _ assms(2)] by (auto simp: prod_eq_iff)

theorem apply_command_refines_witness:
  "\<exists>s' err. applyCommand (store_ops file_bolt) (demo_put ''k'' ''v'') (MemoryStore NewMemoryEngine) = (s', err) \<and>
     err = None \<and> store_contents file_bolt s' = [''k'' \<mapsto> ''v'']"
proof -
  obtain s' err where a: "applyCommand (store_ops file_bolt) (demo_put ''k'' ''v'') (MemoryStore NewMemoryEngine) = (s', err)"
    by fastforce
  have ok: "store_ok file_bolt (MemoryStore NewMemoryEngine)" by simp
  have "runnable disk_cmd (demo_put ''k'' ''v'')" by (simp add: runnable_def demo_clean_put)
  then show ?thesis using apply_command_refines [OF ok a] a
    by (auto simp: kv_apply_def demo_put_def zero_command_def)
qed

text \<open>
  C21 (the apply loop). When all committed entries are in the log and their commands are of
  admissible size, \<open>applyCommitted\<close> applies exactly the entries between \<open>lastApplied\<close> and
  \<open>commitIndex\<close>, in order, on either engine. Each proposal that waits for one of these indices gets
  the result of its own command, and no other proposal is answered.
\<close>

theorem apply_committed_exact:
  assumes "rl_ok B (rn_raftLog n)" "store_ok B (rn_storage n)" "\<not> rn_panicked n" "pending_ok n"
    "rn_lastApplied n \<le> rn_commitIndex n" "range_ready B disk_cmd n"
  shows "apply_result B (store_ok B) (store_contents B) n (applyCommitted B (store_ops B) n)"
  by (rule any.applyCommitted_exact [OF assms])

lemma demo_one_ready:
  "range_ready file_bolt disk_cmd ((demo_node st [demo_entry 1 1] 1 [] Follower None)\<lparr>rn_commitIndex := 1\<rparr>)"
proof -
  have "i = 1" if "0 < i" "i \<le> 1" for i :: u64
    using that by (auto simp: word_less_nat_alt word_le_nat_alt word_unat_eq_iff)
  then show ?thesis by (auto simp: range_ready_def runnable_def demo_log_at demo_clean_put)
qed

theorem apply_committed_exact_witness:
  "store_contents file_bolt (rn_storage (applyCommitted file_bolt (store_ops file_bolt)
     ((demo_keeper [demo_entry 1 1] 1)\<lparr>rn_commitIndex := 1\<rparr>))) =
   [''k'' \<mapsto> ''v'']"
proof -
  let ?n = "(demo_keeper [demo_entry 1 1] 1)\<lparr>rn_commitIndex := 1\<rparr>"
  have "apply_result file_bolt (store_ok file_bolt) (store_contents file_bolt) ?n
      (applyCommitted file_bolt (store_ops file_bolt) ?n)"
    using demo_log_ok demo_one_ready by (intro apply_committed_exact) (simp_all add: pending_ok_def)
  moreover have "entries_between file_bolt (demo_log [demo_entry 1 1] 1 []) 0 1 = [demo_entry 1 1]"
    by (simp add: entries_between_def demo_log_at)
  ultimately show ?thesis
    by (simp add: apply_result_def kv_apply_def demo_put_def zero_command_def)
qed

section \<open>Snapshots\<close>





text \<open>
  A late snapshot reply crashes the node: a leader that has stepped down and then receives the
  reply to an InstallSnapshot request it sent before reads through the leader state that stepping
  down has cleared, and panics.
\<close>

lemma late_snapshot_reply_panics:
  assumes "iss_Success resp" "iss_Term resp \<le> t"
  shows "rn_panicked (snapshot_reply B p snapshotIdx resp (becomeFollower B t n))"
  using assms by (simp add: snapshot_reply_def not_less [symmetric])

section \<open>Becoming leader and proposing\<close>

text \<open>
  C23 (proposals). A node that is not the leader refuses a proposal, names the leader it knows and
  changes nothing. A leader appends the command right after its last index, with its own term, and
  registers a channel that no other pending proposal uses; no other index of the log and no other
  pending proposal is affected. When the entry cannot be written, the leader changes nothing; on a
  healthy disk an entry of admissible size is always written.
\<close>

theorem propose_outcome:
  assumes "node_wf B n" "propose_append B cmd n = (n', r)"
  shows "if rn_state n \<noteq> Leader then n' = n \<and> r = Inl (NotLeaderError (rn_leaderID n))
    else (case r of
        Inl e \<Rightarrow> n' = n \<and> (\<exists>e'. e = Wrapped ''appending to log'' e')
      | Inr (i, ch) \<Rightarrow> i = LastIndex B (rn_raftLog n) + 1 \<and>
          log_at B (rn_raftLog n') i =
            Some (clean_entry \<lparr>le_Index = i, le_Term = rn_currentTerm n, le_Command = cmd\<rparr>) \<and>
          (\<forall>j. j \<noteq> i \<longrightarrow> log_at B (rn_raftLog n') j = log_at B (rn_raftLog n) j) \<and>
          (\<forall>j. rn_pending n j \<noteq> Some ch) \<and> rn_pending n' = (rn_pending n)(i \<mapsto> ch)) \<and>
      (bolt_writes_ok B \<and> entry_fits \<lparr>le_Index = LastIndex B (rn_raftLog n) + 1, le_Term = rn_currentTerm n,
         le_Command = cmd\<rparr> \<longrightarrow> (\<exists>w. r = Inr w))"
proof -
  have rl: "rl_ok B (rn_raftLog n)" and pd: "pending_ok n" using assms(1) by (simp_all add: node_wf_defs node_ok_def)
  have fresh: "rn_pending n j \<noteq> Some (rn_nextChan n)" for j
    using pd less_irrefl unfolding pending_ok_def by blast
  define e where "e = \<lparr>le_Index = LastIndex B (rn_raftLog n) + 1, le_Term = rn_currentTerm n, le_Command = cmd\<rparr>"
  obtain rl' err where a: "Append B e (rn_raftLog n) = (rl', err)" by fastforce
  show ?thesis
  proof (cases err)
    case None
    note at = Append_commit(2) [OF rl a [unfolded None]]
    show ?thesis using assms(2) a None fresh at by (auto simp: propose_append_def Let_def e_def [symmetric]) (simp_all add: e_def)
  next
    case (Some x)
    then have "rl' = rn_raftLog n" using a Append_fail by simp
    moreover have "\<not> (bolt_writes_ok B \<and> entry_fits e)" using Append_ok [OF rl, of e] a Some by auto
    ultimately show ?thesis using assms(2) a Some by (auto simp: propose_append_def Let_def e_def [symmetric])
  qed
qed

theorem propose_outcome_witness:
  "\<exists>n' ch. propose_append file_bolt (demo_put ''k'' ''v'')
       (demo_node NewMemoryEngine [demo_entry 1 1] 1 [] Leader (Some (newLeaderState [] 1)) \<lparr>rn_peers := []\<rparr>) = (n', Inr (2, ch)) \<and>
     log_at file_bolt (rn_raftLog n') 2 = Some (demo_entry 2 1) \<and> rn_pending n' 2 = Some ch"
proof -
  let ?n = "demo_node NewMemoryEngine [demo_entry 1 1] 1 [] Leader (Some (newLeaderState [] 1)) \<lparr>rn_peers := []\<rparr>"
  have last: "LastIndex file_bolt (demo_log [demo_entry 1 1] 1 []) = 1" by (rule demo_log_last) simp_all
  have e: "\<lparr>le_Index = 2, le_Term = 1, le_Command = demo_put ''k'' ''v''\<rparr> = demo_entry 2 1" by (simp add: demo_entry_def)
  obtain rl' where a: "Append file_bolt (demo_entry 2 1) (demo_log [demo_entry 1 1] 1 []) = (rl', None)"
    using Append_ok [OF demo_log_ok file_bolt_writes_ok demo_entry_fits] .
  obtain n' r where p: "propose_append file_bolt (demo_put ''k'' ''v'') ?n = (n', r)" by fastforce
  have "node_ok file_bolt (demo_node NewMemoryEngine [demo_entry 1 1] 1 [] Leader (Some (newLeaderState [] 1)))"
    by (rule demo_node_ok) simp_all
  then have "node_wf file_bolt ?n"
    by (simp add: node_wf_defs node_ok_def leader_wf_def pending_ok_def newLeaderState_def)
  moreover have "r = Inr (2, rn_nextChan ?n)" using p a last e by (auto simp: propose_append_def Let_def)
  ultimately show ?thesis using propose_outcome [of file_bolt ?n, OF _ p] p e by (auto simp: last)
qed

text \<open>
  Taking office. A candidate that won becomes leader of its term: it expects every peer to
  need the entry after its last one, knows of no replicated entry yet, and adds a no-op entry of
  its own term at the end of its log. A node that is no longer a candidate stays what it is.
\<close>

theorem winner_takes_office:
  assumes "node_ok B n" "bolt_writes_ok B" "el_won el" "rn_electionTimer n \<noteq> NoTimer"
  shows "if rn_state n \<noteq> Candidate then finishElection B el n = n
    else rn_state (finishElection B el n) = Leader \<and> rn_leaderID (finishElection B el n) = rn_id n \<and>
      rn_currentTerm (finishElection B el n) = rn_currentTerm n \<and>
      (\<exists>ls. rn_leader (finishElection B el n) = Some ls \<and> (\<forall>p\<in>set (rn_peers n).
         map_of (nextIndex ls) (p_ID p) = Some (LastIndex B (rn_raftLog n) + 1) \<and>
         map_of (matchIndex ls) (p_ID p) = Some 0)) \<and>
      log_at B (rn_raftLog (finishElection B el n)) (LastIndex B (rn_raftLog n) + 1) =
        Some (noop_entry (LastIndex B (rn_raftLog n) + 1) (rn_currentTerm n))"
proof (cases "rn_state n = Candidate")
  case True
  have rl: "rl_ok B (rn_raftLog n)" using assms(1) by (simp add: node_ok_def)
  let ?e = "noop_entry (LastIndex B (rn_raftLog n) + 1) (rn_currentTerm n)"
  obtain rl' where a: "Append B ?e (rn_raftLog n) = (rl', None)" using Append_ok [OF rl assms(2) noop_entry_fits] .
  have "log_at B rl' (LastIndex B (rn_raftLog n) + 1) = Some ?e"
    using Append_commit(2) [OF rl a] clean_noop by (simp add: noop_entry_def)
  then show ?thesis using True assms(3,4) a newLeaderState_maps [of "rn_peers n"]
    by (auto simp: finishElection_def becomeLeader_def Let_def resetHeartbeatTimer_def)
next
  case False
  then show ?thesis by (simp add: finishElection_def becomeLeader_def)
qed

theorem winner_takes_office_witness:
  "rn_state (finishElection file_bolt \<lparr>el_req = zero_rvr, el_votes = 2, el_quorum = 2, el_won = True, el_waiting = []\<rparr>
     (demo_node NewMemoryEngine [] 1 ''a'' Candidate None)) = Leader"
proof -
  have "utf8_valid ''a''" by (simp add: ascii_utf8_valid)
  then have "node_ok file_bolt (demo_node NewMemoryEngine [] 1 ''a'' Candidate None)" by (rule demo_node_ok) simp
  moreover have "rn_electionTimer (demo_node NewMemoryEngine [] 1 ''a'' Candidate None) \<noteq> NoTimer" by (simp add: demo_node_def)
  ultimately show ?thesis
    using winner_takes_office [of file_bolt "demo_node NewMemoryEngine [] 1 ''a'' Candidate None"
        "\<lparr>el_req = zero_rvr, el_votes = 2, el_quorum = 2, el_won = True, el_waiting = []\<rparr>"] file_bolt_writes_ok by simp
qed

end
