(* ===== verification/Metrics.thy ===== *)
theory Metrics
  imports Complex_Main Api
begin

text \<open>
  \<open>internal/metrics\<close>: the metrics that \<open>collector.go\<close> creates and the reporter of \<open>reporter.go\<close>,
  a server with its endpoints. A metric is described by its options; creating and registering it is the business of the
  Prometheus client, whose rendering of \<open>/metrics\<close> is an argument. The client refuses two metrics
  of one registry with the same full name and labels, and histogram buckets that are not strictly
  increasing; the lemmas show that neither happens.
\<close>

section \<open>Collector\<close>

datatype buckets = DefBuckets | Buckets "rat list"

datatype metric_kind = Gauge | Counter | GaugeVec "string list" | CounterVec "string list"
  | HistogramVec buckets "string list"

record metric =
  mt_Namespace :: string
  mt_Name :: string
  mt_Help :: string
  mt_ConstLabels :: "(string \<times> string) list"
  mt_kind :: metric_kind

text \<open>A field of the collector that \<open>New\<close> does not set is nil.\<close>

record collector =
  RaftTerm :: "metric option"
  RaftState :: "metric option"
  ElectionTotal :: "metric option"
  LeaderChanges :: "metric option"
  mc_CommitIndex :: "metric option"
  mc_LastApplied :: "metric option"
  LogSize :: "metric option"
  SnapshotSize :: "metric option"
  OpsTotal :: "metric option"
  OpDuration :: "metric option"
  OpsErrors :: "metric option"
  ReplicationLatency :: "metric option"
  AppendEntriesTotal :: "metric option"

definition new_metric :: "string \<Rightarrow> string \<Rightarrow> string \<Rightarrow> metric_kind \<Rightarrow> metric option" where
  "new_metric nodeID name help kind =
     Some \<lparr>mt_Namespace = ''raftrixdb'', mt_Name = name, mt_Help = help,
           mt_ConstLabels = [(''node_id'', nodeID)], mt_kind = kind\<rparr>"

definition collector_New :: "string \<Rightarrow> collector" where
  "collector_New nodeID =
     \<lparr>RaftTerm = new_metric nodeID ''raft_term'' ''Current Raft term of this node.'' Gauge,
      RaftState = new_metric nodeID ''raft_state''
        ''Current state of the Raft node (1 = active for that state).'' (GaugeVec [''state'']),
      ElectionTotal = new_metric nodeID ''elections_total''
        ''Total number of elections started by this node.'' Counter,
      LeaderChanges = new_metric nodeID ''leader_changes_total''
        ''Total number of times this node has become leader.'' Counter,
      mc_CommitIndex = new_metric nodeID ''commit_index'' ''Highest log index known to be committed.'' Gauge,
      mc_LastApplied = new_metric nodeID ''last_applied''
        ''Highest log index applied to the state machine.'' Gauge,
      LogSize = None,
      SnapshotSize = None,
      OpsTotal = new_metric nodeID ''operations_total''
        ''Total number of client operations, by type.'' (CounterVec [''op'']),
      OpDuration = new_metric nodeID ''operation_duration_seconds''
        ''Latency of client operations from proposal to commit.'' (HistogramVec DefBuckets [''op'']),
      OpsErrors = new_metric nodeID ''operation_errors_total''
        ''Total number of failed client operations, by type.'' (CounterVec [''op'']),
      ReplicationLatency = new_metric nodeID ''replication_latency_seconds''
        ''Round-trip latency for AppendEntries RPCs to each peer.''
        (HistogramVec (Buckets [1/1000, 5/1000, 10/1000, 25/1000, 50/1000, 100/1000, 250/1000, 500/1000, 1])
           [''peer'']),
      AppendEntriesTotal = new_metric nodeID ''append_entries_total''
        ''Total AppendEntries RPCs sent, by peer and result.'' (CounterVec [''peer'', ''result''])\<rparr>"

definition collector_fields :: "collector \<Rightarrow> metric option list" where
  "collector_fields c = [RaftTerm c, RaftState c, ElectionTotal c, LeaderChanges c, mc_CommitIndex c,
     mc_LastApplied c, LogSize c, SnapshotSize c, OpsTotal c, OpDuration c, OpsErrors c, ReplicationLatency c,
     AppendEntriesTotal c]"

definition full_name :: "metric \<Rightarrow> string" where
  "full_name m = mt_Namespace m @ ''_'' @ mt_Name m"

text \<open>Metric names must match \<open>[a-zA-Z_:][a-zA-Z0-9_:]*\<close>.\<close>

definition name_char :: "char \<Rightarrow> bool" where
  "name_char c \<longleftrightarrow> c \<in> set ''abcdefghijklmnopqrstuvwxyzABCDEFGHIJKLMNOPQRSTUVWXYZ_:''"

definition name_ok :: "string \<Rightarrow> bool" where
  "name_ok s \<longleftrightarrow> s \<noteq> [] \<and> name_char (hd s) \<and> list_all (\<lambda>c. name_char c \<or> is_digit c) s"

definition buckets_ok :: "metric_kind \<Rightarrow> bool" where
  "buckets_ok k = (case k of HistogramVec (Buckets bs) _ \<Rightarrow> sorted_wrt (<) bs | _ \<Rightarrow> True)"

definition registered :: "collector \<Rightarrow> metric list" where
  "registered c = List.map_filter id (collector_fields c)"

section \<open>Reporter\<close>

definition NewReporter :: "string \<Rightarrow> http_server" where
  "NewReporter addr = \<lparr>hs_Addr = addr, hs_ReadTimeout = 5 * second, hs_WriteTimeout = 10 * second,
     hs_IdleTimeout = 0, hs_state = NotStarted\<rparr>"

text \<open>\<open>Start\<close> serves in the background; \<open>Stop\<close> returns what \<open>Shutdown\<close> returns, the argument \<open>err\<close>.\<close>

definition reporter_Start :: "http_server \<Rightarrow> http_server" where
  "reporter_Start r = http_listen r"

definition reporter_Stop :: "go_error option \<Rightarrow> http_server \<Rightarrow> http_server \<times> go_error option" where
  "reporter_Stop err r = (http_Shutdown r, err)"

definition reporter_routes :: "http_response \<Rightarrow> string \<Rightarrow> http_response" where
  "reporter_routes metrics_page path =
     (if path = ''/metrics'' then metrics_page
      else if path = ''/healthz''
      then \<lparr>rs_Status = 200, rs_ContentType = ''text/plain; charset=utf-8'', rs_Body = ''ok''\<rparr>
      else http_Error ''404 page not found'' 404)"

section \<open>Registration\<close>

lemma registered_New:
  "map mt_Name (registered (collector_New nodeID)) =
     [''raft_term'', ''raft_state'', ''elections_total'', ''leader_changes_total'', ''commit_index'', ''last_applied'',
      ''operations_total'', ''operation_duration_seconds'', ''operation_errors_total'',
      ''replication_latency_seconds'', ''append_entries_total'']"
  by (simp add: registered_def collector_fields_def collector_New_def new_metric_def map_filter_simps)

lemma registered_namespace: "m \<in> set (registered (collector_New nodeID)) \<Longrightarrow> mt_Namespace m = ''raftrixdb''"
  by (auto simp: registered_def collector_fields_def collector_New_def new_metric_def map_filter_simps)

lemma full_names:
  "map full_name (registered (collector_New nodeID)) =
     map (\<lambda>s. ''raftrixdb_'' @ s) (map mt_Name (registered (collector_New nodeID)))"
  by (simp add: full_name_def registered_namespace)

lemma distinct_full_names: "distinct (map full_name (registered (collector_New nodeID)))"
  unfolding full_names registered_New by simp

lemma valid_full_names: "list_all name_ok (map full_name (registered (collector_New nodeID)))"
  unfolding full_names registered_New by (simp add: name_ok_def name_char_def)

lemma valid_buckets: "\<forall>m\<in>set (registered (collector_New nodeID)). buckets_ok (mt_kind m)"
  by (simp add: registered_def collector_fields_def collector_New_def new_metric_def map_filter_simps buckets_ok_def)

end
