(* ===== verification/Service_Properties.thy ===== *)
theory Service_Properties
  imports Examples Metrics
begin

text \<open>
  Properties of the parts around the Raft node, with their witnesses: configuration, wire format,
  storage engines, cluster membership, transactions, the HTTP interface and the program as a whole.
\<close>

section \<open>Configuration and wire format\<close>

text \<open>
  C30 (timeouts). A configuration that \<open>Load\<close> accepts names the node and its address, and with timeouts
  of at most some centuries every election timer is armed with a duration between the configured
  minimum and maximum, longer than the heartbeat interval, and never panics.
\<close>

theorem loaded_timeouts:
  assumes "Load readFile yaml_Unmarshal path = Inr cfg" "rn_cfg n = cfg"
    "0 \<le> ElectionTimeoutMinMs (cfg_Raft cfg)" "ElectionTimeoutMaxMs (cfg_Raft cfg) < 2 ^ 43"
  shows "nc_ID (cfg_Node cfg) \<noteq> [] \<and> nc_Addr (cfg_Node cfg) \<noteq> [] \<and> applyDefaults cfg = cfg \<and>
    (\<exists>d. rn_electionTimer (resetElectionTimer n) = Armed d \<and>
       ElectionTimeoutMinMs (cfg_Raft cfg) * 1000000 \<le> d \<and> d < ElectionTimeoutMaxMs (cfg_Raft cfg) * 1000000 \<and>
       HeartbeatIntervalMs (cfg_Raft cfg) * 1000000 < d) \<and>
    rn_panicked (resetElectionTimer n) = rn_panicked n"
proof -
  obtain cfg0 where c: "cfg = applyDefaults cfg0" "validate cfg = None" using assms(1) by (rule Load_Inr)
  have v: "nc_ID (cfg_Node cfg) \<noteq> []" "nc_Addr (cfg_Node cfg) \<noteq> []"
      "HeartbeatIntervalMs (cfg_Raft cfg) < ElectionTimeoutMinMs (cfg_Raft cfg)"
      "ElectionTimeoutMinMs (cfg_Raft cfg) < ElectionTimeoutMaxMs (cfg_Raft cfg)"
    using c(2) by (simp_all add: validate_None_iff)
  obtain d where d: "rn_electionTimer (resetElectionTimer n) = Armed d"
      "ElectionTimeoutMinMs (cfg_Raft cfg) * 1000000 \<le> d" "d < ElectionTimeoutMaxMs (cfg_Raft cfg) * 1000000"
    using resetElectionTimer_bounds [of n] assms(2-4) v(4) by auto
  have "timer_ok cfg" using Load_timer_ok [OF assms(1,3)] assms(4) by simp
  then have "rn_panicked (resetElectionTimer n) = rn_panicked n"
    using assms(2) by (simp add: resetElectionTimer_def timer_ok_def Let_def)
  moreover have "HeartbeatIntervalMs (cfg_Raft cfg) * 1000000 < d" using d(2) v(3) by linarith
  ultimately show ?thesis using d v(1,2) c(1) by auto
qed

theorem loaded_timeouts_witness:
  "\<exists>d. rn_electionTimer (resetElectionTimer (demo_node NewMemoryEngine [] 1 [] Follower None)) = Armed d \<and>
     150000000 \<le> d \<and> d < 300000000"
proof -
  have l: "Load (\<lambda>_. Inr []) (\<lambda>_. Inr (demo_config three ''a'')) ''f'' = Inr (demo_config three ''a'')"
    by (simp add: Load_def applyDefaults_def validate_def demo_config_def default_int_def default_string_def)
  show ?thesis
    using loaded_timeouts [OF l, of "demo_node NewMemoryEngine [] 1 [] Follower None"] by (auto simp: demo_config_def)
qed

text \<open>
  C31 (messages survive the wire). Decoding the JSON text of any Raft message, also with the line break
  that the server adds, gives back the message with its identifiers, operations and keys repaired
  to valid UTF-8; values and snapshots are arbitrary bytes and come back unchanged.
\<close>

theorem messages_round_trip:
  "decode dec_aer zero_aer (print_json (json_aer a)) = Inr (clean_aer a) \<and>
   decode dec_rvr zero_rvr (print_json (json_rvr b)) = Inr (clean_rvr b) \<and>
   decode dec_isr zero_isr (print_json (json_isr c)) = Inr (clean_isr c) \<and>
   decode dec_aes zero_aes (print_json (json_aes d) @ [CHR 0x0A]) = Inr (clean_aes d) \<and>
   decode dec_rvs zero_rvs (print_json (json_rvs e) @ [CHR 0x0A]) = Inr (clean_rvs e) \<and>
   decode dec_iss zero_iss (print_json (json_iss f) @ [CHR 0x0A]) = Inr (clean_iss f) \<and>
   isr_Data (clean_isr c) = isr_Data c \<and>
   map (c_Value \<circ> le_Command) (aer_Entries (clean_aer a)) = map (c_Value \<circ> le_Command) (aer_Entries a)"
  by (simp add: json_simps) (simp add: clean_isr_def clean_aer_def clean_command_def comp_def)

section \<open>Storage\<close>

text \<open>
  C32 (snapshots move between engines). A store whose keys are valid UTF-8 and whose keys and values
  have sizes that bbolt accepts can be serialised, a store of either kind can restore the snapshot,
  and it then has exactly the same contents.
\<close>

theorem snapshot_transfers:
  assumes "store_ok B s" "store_ok B t" "\<forall>k v. store_contents B s k = Some v \<longrightarrow> utf8_valid k \<and> k \<noteq> [] \<and>
    length k \<le> max_key_size \<and> length v \<le> max_value_size"
  shows "\<exists>d t'. eng_Snapshot (store_ops B) s = Inr d \<and> eng_RestoreSnapshot (store_ops B) d t = (t', None) \<and>
    store_ok B t' \<and> store_contents B t' = store_contents B s"
proof -
  have u: "\<forall>k. store_contents B s k \<noteq> None \<longrightarrow> utf8_valid k" using assms(3) by auto
  obtain d where d: "eng_Snapshot (store_ops B) s = Inr d" "snapshot_denotes d (store_contents B s)"
    using any.snapshot_contents [OF assms(1) u] by blast
  have "\<exists>cmd. disk_cmd cmd \<and> c_Key cmd = k \<and> c_Value cmd = v" if "store_contents B s k = Some v" for k v
    using assms(3) that by (intro exI [of _ "zero_command\<lparr>c_Key := k, c_Value := v\<rparr>"]) (simp add: disk_cmd_def)
  then show ?thesis using any.restore_exact [OF assms(2) d(2)] d(1) by metis
qed

theorem snapshot_transfers_witness:
  "\<exists>d t'. eng_Snapshot (store_ops file_bolt) (BoltStore [(kvBucket, [(''x'', ''1'')])]) = Inr d \<and>
     eng_RestoreSnapshot (store_ops file_bolt) d (MemoryStore NewMemoryEngine) = (t', None) \<and>
     store_contents file_bolt t' = [''x'' \<mapsto> ''1'']"
proof -
  let ?s = "BoltStore [(kvBucket, [(''x'', ''1'')])] :: file_db store" and ?t = "MemoryStore NewMemoryEngine :: file_db store"
  have s: "store_ok file_bolt ?s"
    using file_bolt_spec file_bolt_writes_ok by (simp add: disk_ok_def bolt_ok_def file_bolt_def)
  have c: "store_contents file_bolt ?s = [''x'' \<mapsto> ''1'']"
    by (auto simp: bolt_contents_def file_bolt_def file_bucket_def)
  have t: "store_ok file_bolt ?t" by simp
  have "\<forall>k v. store_contents file_bolt ?s k = Some v \<longrightarrow> utf8_valid k \<and> k \<noteq> [] \<and>
      length k \<le> max_key_size \<and> length v \<le> max_value_size"
    unfolding c by (simp add: ascii_utf8_valid max_key_size_def max_value_size_def)
  from snapshot_transfers [OF s t this] show ?thesis unfolding c by blast
qed

section \<open>Membership\<close>

text \<open>
  C33 (live peers). After any history of calls, a peer is listed as live exactly when fewer than two
  calls to it have failed since the last one that succeeded.
\<close>

theorem live_peers_exact:
  assumes "distinct (map p_ID ps)" "p \<in> set ps" "length history < 2 ^ 63"
  shows "p_ID p \<in> set (LivePeers (fold transport_observe history (NewHTTPTransport now ps))
      (NewHeartbeatTracker (Members (NewHTTPTransport now ps)))) \<longleftrightarrow> misses 0 (about (p_ID p) history) < 2"
  by (rule LivePeers_iff [OF assms])

theorem live_peers_exact_witness:
  "''b'' \<in> set (LivePeers (fold transport_observe [(''b'', Failed), (''c'', Failed)]
      (NewHTTPTransport 0 (peers_of (demo_config three ''a''))))
      (NewHeartbeatTracker (Members (NewHTTPTransport 0 (peers_of (demo_config three ''a''))))))"
  using live_peers_exact [of "peers_of (demo_config three ''a'')" "\<lparr>p_ID = ''b'', p_Addr = ''b''\<rparr>"
      "[(''b'', Failed), (''c'', Failed)]" 0] by (simp add: demo_peers)

section \<open>Remote calls, transactions and the HTTP interface\<close>

text \<open>
  C34 (remote calls are local calls). When the HTTP client of a node reaches the server of a peer, each
  of the three Raft calls has exactly the effect and the result of calling the peer's handler
  directly, up to the repair of identifiers and keys to valid UTF-8, and the call counts as a
  success for the health of the peer.
\<close>

theorem rpc_is_local_call:
  assumes "reaches (routes ext upper B E wait) H p n"
  shows "transport_AppendEntries H now p areq t =
      (recordSuccess now (p_ID p) t, Inr (clean_aes (snd (HandleAppendEntries B (clean_aer areq) n)))) \<and>
    fst (routes ext upper B E wait (post ''/raft/append-entries'' (print_json (json_aer areq))) n) =
      fst (HandleAppendEntries B (clean_aer areq) n) \<and>
    transport_RequestVote H now p vreq t =
      (recordSuccess now (p_ID p) t, Inr (clean_rvs (snd (HandleRequestVote B (clean_rvr vreq) n)))) \<and>
    fst (routes ext upper B E wait (post ''/raft/request-vote'' (print_json (json_rvr vreq))) n) =
      fst (HandleRequestVote B (clean_rvr vreq) n) \<and>
    transport_InstallSnapshot H now p sreq t =
      (recordSuccess now (p_ID p) t, Inr (clean_iss (snd (HandleInstallSnapshot B E (clean_isr sreq) n)))) \<and>
    fst (routes ext upper B E wait (post ''/raft/install-snapshot'' (print_json (json_isr sreq))) n) =
      fst (HandleInstallSnapshot B E (clean_isr sreq) n)"
proof -
  note a = serve_append_entries [where B = B and req = areq and n = n and ext = ext and upper = upper and E = E and wait = wait,
        OF prod.collapse [symmetric]]
    and v = serve_request_vote [where B = B and req = vreq and n = n and ext = ext and upper = upper and E = E and wait = wait,
        OF prod.collapse [symmetric]]
    and i = serve_install_snapshot [where B = B and req = sreq and n = n and ext = ext and upper = upper and E = E and wait = wait,
        OF prod.collapse [symmetric]]
  have "transport_AppendEntries H now p areq t =
      (recordSuccess now (p_ID p) t, Inr (clean_aes (snd (HandleAppendEntries B (clean_aer areq) n))))"
    unfolding transport_AppendEntries_def by (rule rpc_connected [OF assms a]) (simp_all add: dec_aes_json)
  moreover have "transport_RequestVote H now p vreq t =
      (recordSuccess now (p_ID p) t, Inr (clean_rvs (snd (HandleRequestVote B (clean_rvr vreq) n))))"
    unfolding transport_RequestVote_def by (rule rpc_connected [OF assms v]) (simp_all add: dec_rvs_json)
  moreover have "transport_InstallSnapshot H now p sreq t =
      (recordSuccess now (p_ID p) t, Inr (clean_iss (snd (HandleInstallSnapshot B E (clean_isr sreq) n))))"
    unfolding transport_InstallSnapshot_def by (rule rpc_connected [OF assms i]) (simp_all add: dec_iss_json)
  ultimately show ?thesis using a v i by simp
qed

text \<open>A client that is wired to the server of one node.\<close>

definition demo_client ::
  "(http_request \<Rightarrow> ('db, 'st) raft_node \<Rightarrow> ('db, 'st) raft_node \<times> http_response) \<Rightarrow> ('db, 'st) raft_node \<Rightarrow> http_client" where
  "demo_client serve n = \<lparr>hc_newRequest = (\<lambda>_. None),
     hc_do = (\<lambda>url data. let r = snd (serve (post (drop (length ''http://b'') url) data) n)
                in Inr (rs_Status r, rs_Body r))\<rparr>"

lemma demo_client_connected: "reaches serve (demo_client serve n) \<lparr>p_ID = ''b'', p_Addr = ''b''\<rparr> n"
  by (simp add: reaches_def demo_client_def rpc_url_def Let_def)

definition demo_wait :: "('db, 'st) wait" where
  "demo_wait w n = (n\<lparr>rn_pending := (rn_pending n)(fst w := None)\<rparr>, Some ContextDone)"

theorem rpc_is_local_call_witness:
  "snd (transport_RequestVote (demo_client (routes (\<lambda>_. []) id file_bolt memory_ops demo_wait)
       (demo_node NewMemoryEngine [] 5 [] Follower None)) 0 \<lparr>p_ID = ''b'', p_Addr = ''b''\<rparr>
       \<lparr>rvr_Term = 3, rvr_CandidateID = ''c'', rvr_LastLogIndex = 0, rvr_LastLogTerm = 0\<rparr> \<lparr>tr_members = []\<rparr>) =
     Inr \<lparr>rvs_Term = 5, rvs_VoteGranted = False, rvs_VoterID = ''a''\<rparr>"
proof -
  let ?n = "demo_node NewMemoryEngine [] 5 [] Follower None"
  let ?req = "\<lparr>rvr_Term = 3, rvr_CandidateID = ''c'', rvr_LastLogIndex = 0, rvr_LastLogTerm = 0\<rparr> :: request_vote_request"
  have "snd (HandleRequestVote file_bolt (clean_rvr ?req) ?n) = \<lparr>rvs_Term = 5, rvs_VoteGranted = False, rvs_VoterID = ''a''\<rparr>"
    by (simp add: HandleRequestVote_def clean_rvr_def zero_rvs_def word_less_nat_alt)
  then show ?thesis
    using rpc_is_local_call [OF demo_client_connected, of "\<lambda>_. []" id file_bolt memory_ops demo_wait ?n 0 zero_aer
        "\<lparr>tr_members = []\<rparr>" ?req zero_isr]
    by (simp add: clean_rvs_def ascii_to_valid_utf8)
qed






definition write_request :: "http_request \<Rightarrow> bool" where
  "write_request rq \<longleftrightarrow>
     (\<exists>key. key \<noteq> [] \<and> rq_Path rq = ''/v1/keys/'' @ key \<and> (rq_Method rq = ''DELETE'' \<or>
        rq_Method rq = ''PUT'' \<and> (\<exists>b. decode dec_put_body \<lparr>pb_Value = []\<rparr> (rq_Body rq) = Inr b))) \<or>
     (\<exists>key b. key \<noteq> [] \<and> rq_Path rq = ''/v1/cas/'' @ key \<and> rq_Method rq = ''POST'' \<and>
        decode dec_cas_body \<lparr>cb_PrevValue = [], cb_NewValue = []\<rparr> (rq_Body rq) = Inr b) \<or>
     (\<exists>b. rq_Path rq = ''/v1/txn'' \<and> rq_Method rq = ''POST'' \<and>
        decode dec_txn_body \<lparr>tb_Ops = []\<rparr> (rq_Body rq) = Inr b \<and> tb_Ops b \<noteq> [])"

lemma client_paths [simp]:
  "has_prefix (''/v1/keys/'' @ key) ''/v1/keys/''" "TrimPrefix (''/v1/keys/'' @ key) ''/v1/keys/'' = key"
  "has_prefix (''/v1/cas/'' @ key) ''/v1/cas/''" "TrimPrefix (''/v1/cas/'' @ key) ''/v1/cas/'' = key"
  "\<not> has_prefix (''/v1/cas/'' @ key) ''/v1/keys/''" "\<not> has_prefix ''/v1/txn'' ''/v1/keys/''" "\<not> has_prefix ''/v1/txn'' ''/v1/cas/''"
  by (simp_all add: has_prefix_def TrimPrefix_def)

text \<open>
  C37 (writes away from the leader). A well-formed PUT, DELETE, CAS or transaction that reaches a node
  that is not the leader is answered with 307 and the leader the node knows of, and changes
  nothing.
\<close>

theorem writes_are_redirected:
  assumes "write_request rq" "rn_state n \<noteq> Leader"
  shows "routes ext upper B E wait rq n =
    (n, writeJSON 307 (JObj [(''error'', JStr ''not leader''), (''leader_id'', JStr (rn_leaderID n))]))"
proof -
  have r: "answer_proposal ext (propose_call B wait cmd n) = (n, redirect n)" for cmd
    by (rule answer_not_leader [OF assms(2)])
  consider (key) key where "key \<noteq> []" "rq_Path rq = ''/v1/keys/'' @ key" "rq_Method rq = ''DELETE''"
    | (put) key b where "key \<noteq> []" "rq_Path rq = ''/v1/keys/'' @ key" "rq_Method rq = ''PUT''"
        "decode dec_put_body \<lparr>pb_Value = []\<rparr> (rq_Body rq) = Inr b"
    | (cas) key b where "key \<noteq> []" "rq_Path rq = ''/v1/cas/'' @ key" "rq_Method rq = ''POST''"
        "decode dec_cas_body \<lparr>cb_PrevValue = [], cb_NewValue = []\<rparr> (rq_Body rq) = Inr b"
    | (txn) b where "rq_Path rq = ''/v1/txn''" "rq_Method rq = ''POST''"
        "decode dec_txn_body \<lparr>tb_Ops = []\<rparr> (rq_Body rq) = Inr b" "tb_Ops b \<noteq> []"
    using assms(1) unfolding write_request_def by blast
  then have "routes ext upper B E wait rq n = (n, redirect n)"
  proof cases
    case key
    then show ?thesis using r by (simp add: routes_def handleKey_def deleteKey_def Let_def del: append.simps)
  next
    case put
    then show ?thesis using r by (simp add: routes_def handleKey_def putKey_def Let_def del: append.simps)
  next
    case cas
    then show ?thesis using r by (simp add: routes_def handleCAS_def Let_def del: append.simps)
  next
    case txn
    then show ?thesis using txn_not_leader [OF assms(2), of "map (txn_command upper) (tb_Ops b)"]
      by (simp add: routes_def handleTxn_def Let_def)
  qed
  then show ?thesis by (simp add: redirect_def)
qed

theorem writes_are_redirected_witness:
  "rs_Status (snd (routes (\<lambda>_. []) id file_bolt memory_ops demo_wait
     \<lparr>rq_Method = ''DELETE'', rq_Path = ''/v1/keys/'' @ ''k'', rq_prefix = [], rq_Body = []\<rparr>
     (demo_node NewMemoryEngine [] 1 [] Follower None))) = 307"
proof -
  have w: "write_request \<lparr>rq_Method = ''DELETE'', rq_Path = ''/v1/keys/'' @ ''k'', rq_prefix = [], rq_Body = []\<rparr>"
    unfolding write_request_def by (intro disjI1 exI [of _ "''k''"]) simp
  have l: "rn_state (demo_node NewMemoryEngine [] 1 [] Follower None) \<noteq> Leader" by simp
  show ?thesis unfolding writes_are_redirected [OF w l] by simp
qed

text \<open>
  C38 (reads). A GET is answered from the local store, on either engine: 200 with the key and its value
  when the store has the key, 404 when it does not. The node is not changed.
\<close>

theorem get_serves_store:
  assumes "store_ok B (rn_storage n)" "key \<noteq> []" "rq_Method rq = ''GET''" "rq_Path rq = ''/v1/keys/'' @ key"
  shows "routes ext upper B (store_ops B) wait rq n =
    (n, case store_contents B (rn_storage n) key of
          None \<Rightarrow> writeError 404 ''key not found''
        | Some v \<Rightarrow> writeJSON 200 (JObj [(''key'', JStr key), (''value'', JStr v)]))"
  using assms any.get_response [OF assms(1)]
  by (simp add: routes_def handleKey_def Let_def del: append.simps)

theorem get_serves_store_witness:
  "rs_Status (snd (routes (\<lambda>_. []) id file_bolt (store_ops file_bolt) demo_wait
     \<lparr>rq_Method = ''GET'', rq_Path = ''/v1/keys/'' @ ''k'', rq_prefix = [], rq_Body = []\<rparr>
     (demo_node (MemoryStore NewMemoryEngine) [] 1 [] Follower None))) = 404"
proof -
  have s: "store_ok file_bolt (rn_storage (demo_node (MemoryStore NewMemoryEngine) [] 1 [] Follower None))" by simp
  show ?thesis
    by (subst get_serves_store [OF s, where key = "''k''"]) (simp_all add: writeError_def)
qed

text \<open>
  C39 (no request corrupts a node). Whatever a request contains, and whatever the node works through
  while a proposal waits, votes and elections included, serving the request keeps the invariant of the
  node, never lowers its term and never changes a vote within a term. A candidate named in a vote
  request must be an identifier that the log can store.
\<close>

theorem requests_keep_invariant:
  assumes "bolt_writes_ok B" "admissible B E wait" "\<not> rn_panicked n" "node_ok B n" "vote_savable rq"
    "routes ext upper B E wait rq n = (n', resp)"
  shows "node_ok B n' \<and> rn_currentTerm n \<le> rn_currentTerm n' \<and>
    (rn_currentTerm n' = rn_currentTerm n \<and> rn_votedFor n \<noteq> [] \<longrightarrow> rn_votedFor n' = rn_votedFor n)"
proof -
  have "advances B n n'" using routes_advances [OF assms(1-5), of ext upper] assms(6) by simp
  from advancesD [OF this assms(4)] show ?thesis by blast
qed

lemma demo_wait_admissible: "admissible B E demo_wait"
  unfolding admissible_def
proof (intro allI exI conjI)
  show "(live_step B E)\<^sup>*\<^sup>* n n" for n by simp
  show "Propose_wait WakeCtx w n = (fst (demo_wait w n), Some (snd (demo_wait w n)))" for w n
    by (simp add: Propose_wait_def demo_wait_def)
qed

theorem requests_keep_invariant_witness:
  "\<exists>n' resp. routes (\<lambda>_. []) id file_bolt memory_ops demo_wait
       (post ''/raft/request-vote'' (print_json (json_rvr demo_vote))) (demo_follower [] 1) = (n', resp) \<and>
     rn_currentTerm n' = 2 \<and> rn_votedFor n' = ''b'' \<and> node_ok file_bolt n'"
proof -
  let ?rq = "post ''/raft/request-vote'' (print_json (json_rvr demo_vote))"
  have id: "clean_rvr demo_vote = demo_vote" by (simp add: clean_rvr_def demo_vote_def ascii_to_valid_utf8)
  have sv: "savable (rvr_CandidateID demo_vote)" by (simp add: savable_def demo_vote_def ascii_utf8_valid)
  have vs: "vote_savable ?rq" using sv by (simp add: vote_savable_def post_def json_simps id)
  have live: "\<not> rn_panicked (demo_follower [] 1)" by simp
  obtain n' resp where h: "HandleRequestVote file_bolt demo_vote (demo_follower [] 1) = (n', resp)" by fastforce
  have "rvs_VoteGranted resp" using demo_vote_granted h by simp
  note g = HandleRequestVote_granted(1,2) [OF file_bolt_writes_ok sv live demo_follower_ok h this]
  note r = serve_request_vote [of file_bolt demo_vote "demo_follower [] 1" n' resp "\<lambda>_. []" id memory_ops demo_wait,
      unfolded id, OF h]
  show ?thesis
    using requests_keep_invariant [OF file_bolt_writes_ok demo_wait_admissible live demo_follower_ok vs r] r g
    by (simp add: demo_vote_def)
qed

section \<open>The program\<close>

text \<open>
  C40 (start-up). With a configuration that \<open>Load\<close> accepts, a storage type of the two known ones and a
  working file system, the program comes up. On a new Raft database its node is a well-formed
  follower in term 0 with an empty log, on a working store of the configured kind, and all its
  peers count as live.
\<close>

theorem boot_gives_fresh_follower:
  assumes "Load readFile yaml path = Inr cfg" "sc_Type (cfg_Storage cfg) \<in> {''memory'', ''persistent''}"
    and "\<And>d. mkdirAll d = None" "bolt_Open (kv_path cfg) = Inr kdb" "bolt_Open (raft_db_path cfg) = Inr db"
    and "\<not> tx_HasBucket B db logBucket" "\<not> tx_HasBucket B db metaBucket" "bolt_spec B" "bolt_writes_ok B"
    and "0 \<le> ElectionTimeoutMinMs (cfg_Raft cfg)" "ElectionTimeoutMaxMs (cfg_Raft cfg) < 2 ^ 63"
    and "valid_id (nc_ID (cfg_Node cfg))" "distinct (map p_ID (peers_of cfg))"
  shows "\<exists>ps. boot B readFile yaml mkdirAll bolt_Open quote rnd now path = Inr ps \<and> ps_cfg ps = cfg \<and> fresh_process B ps \<and>
    (case rn_storage (ps_node ps) of MemoryStore _ \<Rightarrow> sc_Type (cfg_Storage cfg) = ''memory''
       | BoltStore _ \<Rightarrow> sc_Type (cfg_Storage cfg) = ''persistent'') \<and>
    (\<forall>p\<in>set (peers_of cfg). p_ID p \<in> set (LivePeers (ps_transport ps) (ps_tracker ps)))"
proof -
  obtain ps where b: "boot B readFile yaml mkdirAll bolt_Open quote rnd now path = Inr ps" "ps_cfg ps = cfg"
    using boot_starts [OF assms(1-9)] .
  have tm: "timer_ok cfg" by (rule Load_timer_ok [OF assms(1,10,11)])
  have f: "fresh_process B ps"
    by (rule boot_fresh [OF b(1) assms(8,9)]) (use b(2) assms(5-7,12) tm in simp_all)
  obtain store node where st: "open_store B mkdirAll bolt_Open quote cfg = Inr store"
      "NewRaftNode B mkdirAll bolt_Open rnd cfg store = Inr node" "ps_node ps = Start node"
      "ps_transport ps = NewHTTPTransport now (peers_of cfg)" "ps_tracker ps = NewHeartbeatTracker (Members (ps_transport ps))"
    using bootE [OF b(1)] b(2) by metis
  have "rn_storage (ps_node ps) = store" using NewRaftNode_volatile(3) [OF st(2)] st(3) by (simp add: Start_def)
  then show ?thesis using b f open_store_kind [of B mkdirAll bolt_Open quote cfg] st(1) LivePeers_iff [OF assms(13), of _ "[]" now] st(4,5)
    by (intro exI [of _ ps]) (auto split: store.split)
qed

theorem boot_gives_fresh_follower_witness:
  "\<exists>ps. boot file_bolt (\<lambda>_. Inr []) (\<lambda>_. Inr (demo_config three ''a'')) (\<lambda>_. None) (\<lambda>_. Inr []) id (\<lambda>_. 0) 0 ''f'' = Inr ps \<and>
     rn_state (ps_node ps) = Follower \<and> ''b'' \<in> set (LivePeers (ps_transport ps) (ps_tracker ps))"
proof -
  let ?cfg = "demo_config three ''a''"
  have l: "Load (\<lambda>_. Inr []) (\<lambda>_. Inr ?cfg) ''f'' = Inr ?cfg"
    by (simp add: Load_def applyDefaults_def validate_def demo_config_def default_int_def default_string_def)
  have c: "sc_Type (cfg_Storage ?cfg) \<in> {''memory'', ''persistent''}" "0 \<le> ElectionTimeoutMinMs (cfg_Raft ?cfg)"
      "ElectionTimeoutMaxMs (cfg_Raft ?cfg) < 2 ^ 63" "distinct (map p_ID (peers_of ?cfg))"
      "\<lparr>p_ID = ''b'', p_Addr = ''b''\<rparr> \<in> set (peers_of ?cfg)"
    unfolding demo_peers by (simp_all add: demo_config_def)
  have v: "valid_id (nc_ID (cfg_Node ?cfg))" by (auto simp: demo_config_def intro!: ascii_valid_id)
  obtain ps where "boot file_bolt (\<lambda>_. Inr []) (\<lambda>_. Inr ?cfg) (\<lambda>_. None) (\<lambda>_. Inr []) id (\<lambda>_. 0) 0 ''f'' = Inr ps"
      "fresh_process file_bolt ps" "\<forall>p\<in>set (peers_of ?cfg). p_ID p \<in> set (LivePeers (ps_transport ps) (ps_tracker ps))"
    using boot_gives_fresh_follower [OF l c(1) refl refl refl empty_file empty_file file_bolt_spec file_bolt_writes_ok c(2,3) v c(4),
        of id "\<lambda>_. 0" 0] by blast
  then show ?thesis using c(5) by (auto simp: fresh_process_def)
qed

end
