(* ===== verification/Spec2Isabelle.thy ===== *)
theory Spec2Isabelle
  imports Log_Properties Node_Properties Service_Properties
begin

text \<open>
  \<^bold>\<open>RaftrixDB.\<close> A replicated key-value store in Go. A process (\<open>cmd/keystore/main.go\<close>) loads its
  configuration, opens a storage engine and a Raft node, and serves an HTTP interface to clients and
  to the other nodes. A client write becomes a command in the Raft log of the leader; the leader sends
  its log to the followers, commits what a majority holds, and every node applies the committed
  commands to its own storage engine. Reads are answered from the local engine.

  \<^bold>\<open>Theories and sources.\<close> Every definition of the model carries the name of the Go function or
  type it translates; the paths below are relative to \<open>src/\<close>.

  \<^item> \<open>Prelude\<close>: error values (\<open>go_error\<close>, results \<open>'a go\<close>), 64-bit words, lemmas on lists and maps.
  \<^item> \<open>Go_Utf8\<close>, \<open>Json_String\<close>, \<open>Json_Base64\<close>, \<open>Json\<close>, \<open>Json_Roundtrip\<close>, \<open>Json_Codec\<close>: what the code uses
    of \<open>encoding/json\<close>, down to the text: escaping, the replacement of invalid UTF-8, base64 for
    byte slices, the order and omission of struct fields, and decoding into a struct. Printing and
    parsing are inverse up to that replacement.
  \<^item> \<open>Types\<close> (\<open>pkg/types/types.go\<close>): node states, operations, commands, entries, the three pairs of
    RPC messages, and their JSON forms.
  \<^item> \<open>Bolt\<close>: the interface of bbolt, a record of functions with its documented laws; \<open>Bolt_Model\<close> is
    an executable instance. What a cursor returns after a deletion (\<open>cur_Rest\<close>) is left open.
  \<^item> \<open>Index_Key\<close>, \<open>Raft_Log\<close>, \<open>Raft_Log_Spec\<close> (\<open>internal/consensus/log.go\<close>): the persistent log.
    The locale \<open>replicated_log\<close> is its contract, interpreted as \<open>rlog\<close>.
  \<^item> \<open>Leader_State\<close> (\<open>internal/consensus/state.go\<close>): replication record and commit rule.
  \<^item> \<open>Config\<close> (\<open>config/config.go\<close>): loading, defaults, validation.
  \<^item> \<open>Storage\<close>, \<open>Storage_Spec\<close> (\<open>internal/storage\<close>): the two engines. The locale \<open>storage_engine\<close> is the
    contract of the \<open>Engine\<close> interface, interpreted for both (\<open>mem\<close>, \<open>blt\<close>).
  \<^item> \<open>Raft_Node\<close>, \<open>Raft_Node_Spec\<close> (\<open>internal/consensus/raft.go\<close>, \<open>snapshot.go\<close>): the Raft node, all
    handlers, elections, replication, the apply loop, snapshots, proposals and shutdown.
  \<^item> \<open>Replication\<close>, \<open>Replication_Round\<close>: the log of a follower after AppendEntries, and a full round
    from \<open>replicateToPeer\<close> to the answer.
  \<^item> \<open>State_Machine\<close>: the key-value specification \<open>kv_apply\<close>; the locale \<open>healthy_engine\<close> extends the
    engine contract, and the apply loop refines the specification over it (\<open>memh\<close>, \<open>diskh\<close>, \<open>any\<close>).
  \<^item> \<open>Cluster\<close>, \<open>Cluster_Invariant\<close>, \<open>Election_Safety\<close>, \<open>Election_Runs\<close>, \<open>Election_Liveness\<close>: a step
    relation for a cluster of nodes with lost, late and repeated messages, crashes and restarts; its
    invariants; votes and quorums (locale \<open>quorum_system\<close>, interpreted as \<open>maj\<close>); runs that elect
    leaders.
  \<^item> \<open>Network\<close>: the cluster with the messages that its nodes send and the files from which a node
    restarts; every run of it is a run of the cluster.
  \<^item> \<open>Provenance\<close>: where entries, messages, snapshots and stored values come from, an invariant of the
    network. The locale \<open>durable_engine\<close> extends \<open>healthy_engine\<close> by what reopening a store promises;
    \<open>Program\<close> interprets it for the store of the program (\<open>dur\<close>).
  \<^item> \<open>Log_Image\<close>, \<open>Commit_Liveness\<close>: logs that hold a given list of entries, one round of replication
    between such logs, and runs that carry any list of commands to all nodes.
  \<^item> \<open>Membership\<close> (\<open>internal/cluster\<close>): the HTTP transport, member health and the heartbeat tracker.
  \<^item> \<open>Transaction\<close> (\<open>internal/transaction\<close>): transactions and their manager.
  \<^item> \<open>Api\<close>, \<open>Api_Spec\<close> (\<open>pkg/api/v1/kvstore.go\<close>): routing and all HTTP handlers.
  \<^item> \<open>Program\<close> (\<open>cmd/keystore/main.go\<close>): start-up, the choice of the engine, shutdown.
  \<^item> \<open>Metrics\<close> (\<open>internal/metrics\<close>): the registered metrics, the reporter and its routes.
  \<^item> \<open>Examples\<close>: concrete configurations, logs and nodes for the witnesses.
  \<^item> \<open>Log_Properties\<close>, \<open>Node_Properties\<close>, \<open>Service_Properties\<close>: the properties of the parts. The
    properties that span the cluster are in this theory.

  \<^bold>\<open>State and steps.\<close> \<open>raft_node\<close> has the fields of the struct \<open>RaftNode\<close>. A critical section under
  the mutex is one function on it. Goroutines that the code starts are tasks in \<open>rn_tasks\<close>, taken by
  a later step; \<open>startElection\<close> and \<open>replicateToPeer\<close> are split at the points where they release the
  mutex. A panic sets \<open>rn_panicked\<close>. Channels of proposals are numbers: \<open>rn_pending\<close> maps indices to
  channels and \<open>rn_done\<close> channels to results. The step relation \<open>cluster_step\<close> interleaves these
  functions over the nodes; in it the contents of AppendEntries and InstallSnapshot messages are
  arbitrary, votes are real ones, and a crashed node restarts from its database; crashes fall between
  critical sections. \<open>Stop\<close> is there up to the moment before it closes the log (\<open>Stop_signal\<close>); what
  follows the closing is covered by \<open>live_step\<close>, the steps of one node in any environment, votes and
  elections included, which also describe what a node does while a proposal waits. \<open>net_step\<close> is finer:
  requests are those of \<open>replicateToPeer\<close>, replies those of the handlers, \<open>nw_calls\<close> lists the
  goroutines that wait for a reply and \<open>nw_snaps\<close> those between the two halves of \<open>takeSnapshot\<close>; a
  restarted node also reopens its own store.

  \<^bold>\<open>What is shown.\<close> At most one leader per term in clusters of odd size, the invariant of
  every reachable cluster, the commit rule, that a new cluster can bring any list of commands to all
  replicas, that every stored value and every log entry was proposed, that all replication of a term
  comes from one node, agreement of replicas that apply the same entries, and that a committed write
  can be read. Three results describe limits of the code: clusters of even size can have two leaders
  in a term, a cluster of one has none, and a follower that resolves a conflict loses the conflicting
  entry (in \<open>Node_Properties\<close>); the last one is why no agreement of logs across a whole run is
  claimed. The properties of the parts cover votes, their durability, replication, the commit
  candidate, the apply loop, snapshots, proposals, the log, configuration, wire format, engines,
  membership, RPC, transactions, the HTTP interface, start-up and shutdown.

  \<^bold>\<open>Bounds.\<close> All indices and terms are 64-bit words with wrap-around. The deletion loops of the log
  run over the keys that their cursor returns, a finite list; bbolt does not say which keys these are
  once the bucket has changed, so the properties of \<open>TruncateFrom\<close>, \<open>Compact\<close> and what is built on them
  hold for every such list (\<open>whole_keys\<close>, where it is a hypothesis, excludes keys that are too short to
  decode). \<open>conflict_loop\<close>, \<open>commit_loop\<close>, \<open>applyCommitted\<close> and
  \<open>GetRange\<close> end by a measure on words. The cluster steps assume that a term does not wrap around, and
  the list of commands that reaches all replicas is shorter than \<open>2 ^ 63\<close>, so that no index does.

  \<^bold>\<open>Parameters.\<close> bbolt (\<open>bolt_spec\<close>: the documented effect of each call; \<open>bolt_writes_ok\<close>: a healthy
  disk), the file system, YAML decoding, the text of foreign error messages, \<open>strconv.Quote\<close> and
  \<open>strings.ToUpper\<close>, the random source, the clock, and the network between HTTP client and server.

  \<^bold>\<open>Not modelled.\<close> Logging (\<open>slog\<close>) has no effect on the state. The HTTP server and client of the
  standard library (connections, the effect of timeouts, recovery from panics in handlers, cleaning
  of unusual paths), the Prometheus client behind the metrics, operating system signals, and the scheduling of
  timers are outside the sources; the model has their events as inputs. The generated code for
  \<open>proto/\<close> is not used by the program. Build scripts, compose files and the integration test contain
  no code of the program.
\<close>

text \<open>
  C1 (election safety). In a cluster with an odd number of nodes, whatever messages are lost,
  delayed or repeated and whatever nodes crash and restart, at most one node is ever elected leader
  in a term.
\<close>

theorem election_safety:
  assumes "bolt_spec B" "bolt_writes_ok B" "configured cfgs ids" "odd (length ids)"
    and "reachable B E cfgs ids cl" "(t, a) \<in> cl_elected cl" "(t, b) \<in> cl_elected cl"
  shows "a = b"
  using elected_unique [OF election_inv_reachable [OF assms(5,3,1,2,4)] assms(6,7)] .

theorem election_safety_witness:
  "\<exists>cl :: (file_db, memory_engine) cluster. reachable file_bolt memory_ops (demo_config three) three cl \<and>
     (1, ''a'') \<in> cl_elected cl \<and> (\<forall>b. (1, b) \<in> cl_elected cl \<longrightarrow> b = ''a'')"
proof -
  obtain cl :: "(file_db, memory_engine) cluster"
    where cl: "reachable file_bolt memory_ops (demo_config three) three cl" "(1, ''a'') \<in> cl_elected cl"
    using leader_run [OF file_bolt_spec file_bolt_writes_ok three_configured _ empty_file empty_file,
        of "''a''" "''b''" memory_ops] by (auto simp: three_def)
  have "odd (length three)" by (simp add: three_def)
  note safe = election_safety [OF file_bolt_spec file_bolt_writes_ok three_configured this cl(1) _ cl(2)]
  then show ?thesis using cl by blast
qed

text \<open>
  C2 (one leader at a time). In a cluster with an odd number of nodes, two nodes that both consider
  themselves leader of the same term are the same node.
\<close>

theorem leader_unique:
  assumes "bolt_spec B" "bolt_writes_ok B" "configured cfgs ids" "odd (length ids)"
    and "reachable B E cfgs ids cl" "a \<in> set ids" "b \<in> set ids"
    and "rn_state (cl_node cl a) = Leader" "rn_state (cl_node cl b) = Leader"
    and "rn_currentTerm (cl_node cl a) = rn_currentTerm (cl_node cl b)"
  shows "a = b"
proof -
  note inv = election_inv_reachable [OF assms(5,3,1,2,4)]
  have "(rn_currentTerm (cl_node cl x), x) \<in> cl_elected cl" if "x \<in> {a, b}" for x
    using inv that assms(6-9) by (auto simp: election_inv_def elected_inv_def)
  then show ?thesis using elected_unique [OF inv] assms(10) by (metis insert_iff)
qed

theorem leader_unique_witness:
  "\<exists>cl :: (file_db, memory_engine) cluster. reachable file_bolt memory_ops (demo_config three) three cl \<and>
     rn_state (cl_node cl ''a'') = Leader \<and>
     (\<forall>b. b \<in> set three \<longrightarrow> rn_state (cl_node cl b) = Leader \<longrightarrow> rn_currentTerm (cl_node cl b) = 1 \<longrightarrow> b = ''a'')"
proof -
  obtain cl :: "(file_db, memory_engine) cluster"
    where cl: "reachable file_bolt memory_ops (demo_config three) three cl"
      "rn_state (cl_node cl ''a'') = Leader" "rn_currentTerm (cl_node cl ''a'') = 1"
    using leader_run [OF file_bolt_spec file_bolt_writes_ok three_configured _ empty_file empty_file,
        of "''a''" "''b''" memory_ops] by (auto simp: three_def)
  have t: "odd (length three)" "''a'' \<in> set three" by (simp_all add: three_def)
  have "b = ''a''" if "b \<in> set three" "rn_state (cl_node cl b) = Leader" "rn_currentTerm (cl_node cl b) = 1" for b
    by (rule leader_unique [OF file_bolt_spec file_bolt_writes_ok three_configured t(1) cl(1) that(1) t(2) that(2) cl(2)])
      (simp add: that(3) cl(3))
  then show ?thesis using cl by blast
qed

text \<open>
  C3 (the invariant of a running cluster, of any size). At every moment of every run each node is well
  formed: its log and database are intact, the term and vote on disk are those in memory, a leader
  has a replication record for exactly its peers, no two pending proposals share a channel, nothing
  is applied before it is committed, and replication is only started towards peers. The identity,
  the peers and the configuration of a node never change.
\<close>

theorem cluster_invariant:
  assumes "bolt_spec B" "bolt_writes_ok B" "configured cfgs ids" "reachable B E cfgs ids cl" "a \<in> set ids"
  shows "node_ok B (cl_node cl a) \<and> leader_wf (cl_node cl a) \<and> pending_ok (cl_node cl a) \<and>
    rn_lastApplied (cl_node cl a) \<le> rn_commitIndex (cl_node cl a) \<and>
    (\<forall>p. TReplicate p \<in> set (rn_tasks (cl_node cl a)) \<longrightarrow> p \<in> set (peers_of (cfgs a))) \<and>
    LoadMeta B (rn_raftLog (cl_node cl a)) = Inr (rn_currentTerm (cl_node cl a), rn_votedFor (cl_node cl a)) \<and>
    rn_id (cl_node cl a) = a \<and> rn_peers (cl_node cl a) = peers_of (cfgs a) \<and> rn_cfg (cl_node cl a) = cfgs a"
proof -
  have wf: "node_ok B (cl_node cl a)" "volatile_ok (cl_node cl a)" "rn_id (cl_node cl a) = a"
      "rn_peers (cl_node cl a) = peers_of (cfgs a)" "rn_cfg (cl_node cl a) = cfgs a"
    using cluster_wf_reachable [OF assms(4,3,1,2)] assms(5) by (simp_all add: cluster_wf_def node_wf_def)
  then show ?thesis by (simp add: node_ok_def volatile_ok_def tasks_ok_def applied_ok_def)
qed

theorem cluster_invariant_witness:
  "\<exists>cl :: (file_db, memory_engine) cluster. reachable file_bolt memory_ops (demo_config four) four cl \<and>
     rn_state (cl_node cl ''a'') = Leader \<and> node_ok file_bolt (cl_node cl ''d'') \<and>
     rn_peers (cl_node cl ''d'') = peers_of (demo_config four ''d'')"
proof -
  obtain cl :: "(file_db, memory_engine) cluster"
    where cl: "reachable file_bolt memory_ops (demo_config four) four cl" "rn_state (cl_node cl ''a'') = Leader"
    using leader_run [OF file_bolt_spec file_bolt_writes_ok four_configured _ empty_file empty_file,
        of "''a''" "''b''" memory_ops] by (auto simp: four_def)
  have "''d'' \<in> set four" by (simp add: four_def)
  from cluster_invariant [OF file_bolt_spec file_bolt_writes_ok four_configured cl(1) this] cl show ?thesis by blast
qed

text \<open>
  C4 (the commit rule). When the answer of a peer moves the commit index of a leader, in any run of a
  cluster of any size, the new index holds an entry of the leader's own term, lies within its log,
  and more than half of the cluster, the leader included, has reported a log that reaches it. No
  greater index fulfils these conditions.
\<close>

theorem leader_commit_rule:
  assumes "bolt_spec B" "bolt_writes_ok B" "configured cfgs ids" "reachable B E cfgs ids cl" "a \<in> set ids"
    and "p \<in> set (peers_of (cfgs a))" "append_reply B p resp (cl_node cl a) = n'"
    and "rn_commitIndex n' \<noteq> rn_commitIndex (cl_node cl a)"
  shows "\<exists>ls. rn_leader n' = Some ls \<and> rn_state n' = Leader \<and> rn_commitIndex (cl_node cl a) < rn_commitIndex n' \<and>
    rn_commitIndex n' \<le> LastIndex B (rn_raftLog (cl_node cl a)) \<and>
    TermAt B (rn_raftLog (cl_node cl a)) (rn_commitIndex n') = rn_currentTerm (cl_node cl a) \<and>
    length ids < 2 * (1 + card {q \<in> set ids - {a}. rn_commitIndex n' \<le> index_get (matchIndex ls) q}) \<and>
    (\<forall>c. rn_commitIndex n' < c \<and> c \<le> LastIndex B (rn_raftLog (cl_node cl a)) \<and>
       TermAt B (rn_raftLog (cl_node cl a)) c = rn_currentTerm (cl_node cl a) \<longrightarrow>
       2 * (1 + card {q \<in> set ids - {a}. c \<le> index_get (matchIndex ls) q}) \<le> length ids)"
proof -
  let ?n = "cl_node cl a"
  have p: "p \<in> set (rn_peers ?n)" using reachable_node(3) [OF assms(4,3,1,2,5)] assms(6) by simp
  obtain ls where ls: "rn_leader n' = Some ls" "rn_state n' = Leader"
      "committable (matchIndex ls) (rn_commitIndex ?n) (rn_currentTerm ?n) (TermAt B (rn_raftLog ?n))
         (LastIndex B (rn_raftLog ?n)) (rn_commitIndex n')"
      "\<forall>c. committable (matchIndex ls) (rn_commitIndex ?n) (rn_currentTerm ?n) (TermAt B (rn_raftLog ?n))
         (LastIndex B (rn_raftLog ?n)) c \<longrightarrow> c \<le> rn_commitIndex n'"
    using append_reply_commits [OF reachable_node(2) [OF assms(4,3,1,2,5)] p assms(7) [symmetric] assms(8)] by blast
  have wf: "leader_wf n'" "rn_peers n' = peers_of (cfgs a)"
    using append_reply_leader_wf [OF reachable_node(2) [OF assms(4,3,1,2,5)] p, of B resp] assms(7)
      steadyD(3) [OF append_reply_steady [OF assms(2)] reachable_node(1) [OF assms(4,3,1,2,5)], of p resp]
      reachable_node(3) [OF assms(4,3,1,2,5)] by simp_all
  note size = matchIndex_members [OF assms(3,5) wf ls(1)]
  have new: "committable (matchIndex ls) (rn_commitIndex ?n) (rn_currentTerm ?n) (TermAt B (rn_raftLog ?n))
      (LastIndex B (rn_raftLog ?n)) c \<longleftrightarrow> rn_commitIndex ?n < c \<and> c \<le> LastIndex B (rn_raftLog ?n) \<and>
      TermAt B (rn_raftLog ?n) c = rn_currentTerm ?n \<and>
      length ids < 2 * (1 + card {q \<in> set ids - {a}. c \<le> index_get (matchIndex ls) q})" for c
    unfolding committable_def size by simp
  have up: "rn_commitIndex ?n < rn_commitIndex n'" using ls(3) new by blast
  have "\<not> length ids < 2 * (1 + card {q \<in> set ids - {a}. c \<le> index_get (matchIndex ls) q})"
    if "rn_commitIndex n' < c" "c \<le> LastIndex B (rn_raftLog ?n)" "TermAt B (rn_raftLog ?n) c = rn_currentTerm ?n" for c
    using ls(4) new [of c] less_trans [OF up that(1)] that leD by blast
  then show ?thesis using ls(1,2,3) new by (intro exI [of _ ls]) (simp add: not_less)
qed

theorem leader_commit_rule_witness:
  "\<exists>(cl :: (file_db, memory_engine) cluster) p resp n'. reachable file_bolt memory_ops (demo_config two) two cl \<and>
     append_reply file_bolt p resp (cl_node cl ''a'') = n' \<and> rn_commitIndex (cl_node cl ''a'') = 0 \<and> rn_commitIndex n' = 1 \<and>
     TermAt file_bolt (rn_raftLog (cl_node cl ''a'')) 1 = rn_currentTerm (cl_node cl ''a'')"
proof -
  let ?p = "\<lparr>p_ID = ''b'', p_Addr = ''b''\<rparr>" and ?F = "\<lparr>sf_new = \<lambda>_ _. True, sf_reopen = \<lambda>_ _ _. True\<rparr>"
  let ?resp = "zero_aes\<lparr>aes_Term := 1, aes_Success := True, aes_MatchIndex := 1\<rparr>" and ?L = "[noop_entry 1 1]"
  have t: "2 \<le> length two" "''a'' \<in> set two" by (simp_all add: two_def)
  have peers: "peers_of (demo_config two ''a'') = [?p]" by (simp add: peers_of_def demo_config_def two_def)
  have st: "\<forall>q\<in>set two. sf_new ?F (demo_config two q) NewMemoryEngine \<and> mem_ok NewMemoryEngine \<and> mem_contents NewMemoryEngine = Map.empty"
    by (simp add: mem_ok_def mem_contents_def NewMemoryEngine_def me_items_def)
  obtain s :: "(file_db, memory_engine) network" where s: "net_reachable file_bolt memory_ops ?F (demo_config two) two s"
      "in_step file_bolt mem_ok mem_contents two ''a'' ?L 0 (\<lambda>_. 0) (\<lambda>_. 0) s"
    using memh.first_leader [OF file_bolt_spec file_bolt_writes_ok two_configured t empty_file empty_file st] by blast
  note r = net_reachable_cluster(1) [OF s(1) two_configured file_bolt_spec file_bolt_writes_ok]
  note nd = reachable_node [OF r two_configured file_bolt_spec file_bolt_writes_ok t(2)]
  let ?n = "nw_node s ''a''"
  have n: "rn_state ?n = Leader" "rn_currentTerm ?n = 1" "holds file_bolt ?L (rn_raftLog ?n)" "rn_commitIndex ?n = of_nat 0"
    using s(2) by (simp_all add: in_step_def leader_at_def resting_def)
  obtain ls where ls: "rn_leader ?n = Some ls" "tracks (rn_peers ?n) (\<lambda>_. 0) ls"
    using s(2) by (auto simp: in_step_def leader_at_def)
  have "?p \<in> set (rn_peers ?n)" "\<forall>e\<in>set ?L. le_Term e = 1" "aes_Success ?resp" "aes_Term ?resp = 1"
      "aes_MatchIndex ?resp = of_nat (length ?L)"
    using nd(3) peers by (simp_all add: noop_entry_def)
  from leader_counts [OF nd(2) this(1) n(1,2) ls _ n(3) this(2) n(4) _ this(3-5)]
  have c: "rn_commitIndex (append_reply file_bolt ?p ?resp ?n) = 1" using nd(3) peers by force
  moreover have "?p \<in> set (peers_of (demo_config two ''a''))" using peers by simp
  ultimately have "TermAt file_bolt (rn_raftLog ?n) 1 = rn_currentTerm ?n"
    using leader_commit_rule [OF file_bolt_spec file_bolt_writes_ok two_configured r t(2) _ refl, of ?p ?resp] n(4) by auto
  then show ?thesis using r c n(4) by auto
qed

text \<open>
  C5 (commands reach all replicas). A new cluster of any size from two on can serve any list of
  admissible commands, with any of its nodes as leader: there is a run of the network, made of the
  messages that the nodes send, after which that node leads, every node has the commands in its log
  in order, has applied them all, and holds the contents that the key-value specification gives.
\<close>

theorem commands_reach_all_replicas:
  assumes "bolt_spec B" "bolt_writes_ok B" "configured cfgs ids" "2 \<le> length ids" "a \<in> set ids"
    and "\<forall>b\<in>{logBucket, metaBucket, kvBucket}. \<not> tx_HasBucket B db b"
    and "\<forall>q\<in>set ids. sc_Type (cfg_Storage (cfgs q)) \<in> {''memory'', ''persistent''}"
    and "\<forall>cmd\<in>set cmds. proposable disk_cmd cmd" "length cmds < 2 ^ 63"
  shows "\<exists>s. net_reachable B (store_ops B) (program_files B) cfgs ids s \<and> rn_state (nw_node s a) = Leader \<and>
    (\<forall>q\<in>set ids. rn_commitIndex (nw_node s q) = of_nat (length cmds + 1) \<and>
       rn_lastApplied (nw_node s q) = of_nat (length cmds + 1) \<and>
       (\<forall>k<length cmds. \<exists>e. log_at B (rn_raftLog (nw_node s q)) (of_nat (k + 2)) = Some e \<and>
          le_Command e = clean_command (cmds ! k)) \<and>
       store_contents B (rn_storage (nw_node s q)) =
         fold (\<lambda>cmd m. fst (kv_apply (clean_command cmd) m)) cmds Map.empty)"
proof -
  let ?L = "noop_entry 1 1 # numbered 1 cmds"
  have "length cmds < 2 ^ 64 - 2" using assms(9) by simp
  then obtain s where s: "net_reachable B (store_ops B) (program_files B) cfgs ids s" "any.settled B B ids a ?L s"
    using program_serves [OF assms(1-8)] by blast
  have ex: "kv_exec ?L Map.empty = fold (\<lambda>cmd m. fst (kv_apply (clean_command cmd) m)) cmds Map.empty"
    by (simp add: kv_exec_numbered) (simp add: noop_entry_def kv_apply_def)
  have at: "log_at B (rn_raftLog (nw_node s q)) (of_nat (k + 2)) = Some (numbered 1 cmds ! k)"
    if "q \<in> set ids" "k < length cmds" for q k
    using holds_at [OF any.settled_node(3) [OF s(2) that(1)], of "Suc k"] that(2) by (simp add: add.commute add.left_commute)
  show ?thesis
    by (intro exI [of _ s] conjI ballI)
      (use s(1) any.settled_leader [OF s(2)] any.settled_node [OF s(2)] ex at in \<open>simp_all add: numbered_nth\<close>)
qed

theorem commands_reach_all_replicas_witness:
  "\<exists>s :: (file_db, file_db store) network. net_reachable file_bolt (store_ops file_bolt) (program_files file_bolt) (demo_config four) four s \<and>
     rn_state (nw_node s ''c'') = Leader \<and> store_contents file_bolt (rn_storage (nw_node s ''b'')) = [''k'' \<mapsto> ''v'']"
proof -
  have t: "2 \<le> length four" "''c'' \<in> set four" "''b'' \<in> set four" by (simp_all add: four_def)
  have e: "\<forall>b\<in>{logBucket, metaBucket, kvBucket}. \<not> tx_HasBucket file_bolt [] b" using empty_file by simp
  have ty: "\<forall>q\<in>set four. sc_Type (cfg_Storage (demo_config four q)) \<in> {''memory'', ''persistent''}" by (simp add: demo_config_def)
  have p: "\<forall>cmd\<in>set [demo_put ''k'' ''v'']. proposable disk_cmd cmd" "length [demo_put ''k'' ''v''] < 2 ^ 63"
    using demo_proposable by simp_all
  have "fold (\<lambda>cmd m. fst (kv_apply (clean_command cmd) m)) [demo_put ''k'' ''v''] Map.empty = [''k'' \<mapsto> ''v'']"
    by (simp add: demo_put_clean) (simp add: kv_apply_def demo_put_def)
  note run = commands_reach_all_replicas [OF file_bolt_spec file_bolt_writes_ok four_configured t(1,2) e ty p, unfolded this]
  show ?thesis by (rule ex_forward [OF run]) (use t(3) in blast)
qed

text \<open>
  C6 (no value out of thin air). At every moment of every run of the network, with lost, late and
  repeated messages, snapshots, crashes and restarts on either engine, every value in the store of a
  node was put there by a command that a client proposed: a PUT or CAS for that key with that value.
\<close>

theorem stored_values_were_proposed:
  assumes "bolt_spec B" "bolt_writes_ok B" "configured cfgs ids" "a \<in> set ids"
    and "net_reachable B (store_ops B) (program_files B) cfgs ids s"
    and "store_contents B (rn_storage (nw_node s a)) key = Some val"
  shows "\<exists>cmd\<in>nw_proposed s. c_Op (clean_command cmd) \<in> {OpPut, OpCAS} \<and> c_Key (clean_command cmd) = key \<and> c_Value cmd = val"
  using dur.net_reachable_sourced [OF assms(5,3,1,2)] assms(4,6)
  unfolding net_sourced_def sourced_nodes_def sourced_node_def written_by_def by blast

lemma demo_served:
  obtains s :: "(file_db, file_db store) network"
  where "net_reachable file_bolt (store_ops file_bolt) (program_files file_bolt) (demo_config three) three s"
    "store_contents file_bolt (rn_storage (nw_node s ''b'')) ''k'' = Some ''v''"
    "log_at file_bolt (rn_raftLog (nw_node s ''b'')) 2 = Some (demo_entry 2 1)"
proof -
  let ?L = "noop_entry 1 1 # numbered 1 [demo_put ''k'' ''v'']"
  have t: "2 \<le> length three" "''a'' \<in> set three" "''b'' \<in> set three" by (simp_all add: three_def)
  have e: "\<forall>b\<in>{logBucket, metaBucket, kvBucket}. \<not> tx_HasBucket file_bolt [] b" using empty_file by simp
  have ty: "\<forall>q\<in>set three. sc_Type (cfg_Storage (demo_config three q)) \<in> {''memory'', ''persistent''}" by (simp add: demo_config_def)
  have "\<forall>cmd\<in>set [demo_put ''k'' ''v'']. proposable disk_cmd cmd" "length [demo_put ''k'' ''v''] < 2 ^ 64 - 2"
    using demo_proposable by simp_all
  from program_serves [OF file_bolt_spec file_bolt_writes_ok three_configured t(1,2) e ty this]
  obtain s where s: "net_reachable file_bolt (store_ops file_bolt) (program_files file_bolt) (demo_config three) three s"
      "any.settled file_bolt file_bolt three ''a'' ?L s" .
  note n = any.settled_node [OF s(2) t(3)]
  have v: "kv_exec ?L Map.empty ''k'' = Some ''v''"
    by (simp add: demo_put_clean) (simp add: kv_apply_def demo_put_def noop_entry_def)
  have e: "log_at file_bolt (rn_raftLog (nw_node s ''b'')) 2 = Some (demo_entry 2 1)"
    using holds_at [OF n(3), of 1] by (simp add: demo_put_clean demo_entry_def)
  show ?thesis by (rule that [OF s(1) _ e]) (simp only: n(4) v)
qed

theorem stored_values_were_proposed_witness:
  "\<exists>s :: (file_db, file_db store) network.
     net_reachable file_bolt (store_ops file_bolt) (program_files file_bolt) (demo_config three) three s \<and>
     (\<exists>cmd\<in>nw_proposed s. c_Key (clean_command cmd) = ''k'' \<and> c_Value cmd = ''v'')"
proof -
  have "''b'' \<in> set three" by (simp add: three_def)
  note src = stored_values_were_proposed [OF file_bolt_spec file_bolt_writes_ok three_configured this]
  obtain s where "net_reachable file_bolt (store_ops file_bolt) (program_files file_bolt) (demo_config three) three s"
      "store_contents file_bolt (rn_storage (nw_node s ''b'')) ''k'' = Some ''v''" by (rule demo_served)
  then show ?thesis using src by blast
qed

text \<open>
  C7 (where log entries come from). In every run of the network each entry of each log carries the
  term of a node that was elected in it, and its command is the no-op of a new leader or one that a
  client proposed, as it reads after JSON.
\<close>

theorem log_entries_sourced:
  assumes "bolt_spec B" "bolt_writes_ok B" "configured cfgs ids" "a \<in> set ids"
    and "net_reachable B (store_ops B) (program_files B) cfgs ids s"
    and "log_at B (rn_raftLog (nw_node s a)) i = Some e"
  shows "(\<exists>b. (le_Term e, b) \<in> cl_elected (nw_cl s)) \<and>
    (le_Command e = zero_command\<lparr>c_Op := OpNoop\<rparr> \<or> le_Command e \<in> clean_command ` nw_proposed s)"
proof -
  have "sourced (nw_proposed s) (cl_elected (nw_cl s)) e"
    using dur.net_reachable_sourced [OF assms(5,3,1,2)] assms(4,6)
    unfolding net_sourced_def sourced_nodes_def sourced_node_def sourced_log_def by blast
  then show ?thesis by (auto simp: sourced_def sourced_cmd_def noop_command_def)
qed

theorem log_entries_sourced_witness:
  "\<exists>s :: (file_db, file_db store) network.
     net_reachable file_bolt (store_ops file_bolt) (program_files file_bolt) (demo_config three) three s \<and>
     demo_put ''k'' ''v'' \<in> clean_command ` nw_proposed s \<and> (\<exists>b. (1, b) \<in> cl_elected (nw_cl s))"
proof -
  have "''b'' \<in> set three" by (simp add: three_def)
  note src = log_entries_sourced [OF file_bolt_spec file_bolt_writes_ok three_configured this]
  obtain s where s: "net_reachable file_bolt (store_ops file_bolt) (program_files file_bolt) (demo_config three) three s"
      "log_at file_bolt (rn_raftLog (nw_node s ''b'')) 2 = Some (demo_entry 2 1)" by (rule demo_served)
  have "demo_put ''k'' ''v'' \<noteq> zero_command\<lparr>c_Op := OpNoop\<rparr>" by (simp add: demo_put_def zero_command_def)
  then show ?thesis using src [OF s] s(1) by auto
qed

text \<open>
  C8 (one sender per term). In a cluster with an odd number of nodes, all AppendEntries and
  InstallSnapshot requests of a term that were ever sent come from one and the same node, the leader
  elected in that term.
\<close>

theorem one_sender_per_term:
  assumes "bolt_spec B" "bolt_writes_ok B" "configured cfgs ids" "odd (length ids)"
    and "net_reachable B (store_ops B) (program_files B) cfgs ids s"
    and "(q, r) \<in> nw_sent s" "(q', r') \<in> nw_sent s" "fst (rpc_sender r) = fst (rpc_sender r')"
  shows "rpc_sender r \<in> cl_elected (nw_cl s) \<and> snd (rpc_sender r) = snd (rpc_sender r')"
proof -
  have el: "rpc_sender r \<in> cl_elected (nw_cl s)" if "(p, r) \<in> nw_sent s" for p r
    using dur.net_reachable_sourced [OF assms(5,3,1,2)] that
    unfolding net_sourced_def by (metis snd_conv sourced_rpc_sender)
  have "election_inv B cfgs ids (nw_cl s)"
    by (rule election_inv_reachable [OF net_reachable_cluster(1) [OF assms(5,3,1,2)] assms(3,1,2,4)])
  then show ?thesis using elected_unique el [OF assms(6)] el [OF assms(7)] assms(8) by (metis prod.collapse)
qed

theorem one_sender_per_term_witness:
  "\<exists>(s :: (file_db, file_db store) network) req.
     net_reachable file_bolt (store_ops file_bolt) (program_files file_bolt) (demo_config three) three s \<and>
     (''b'', RpcAppendEntries req) \<in> nw_sent s \<and>
     (\<forall>q r. (q, r) \<in> nw_sent s \<longrightarrow> fst (rpc_sender r) = 1 \<longrightarrow> snd (rpc_sender r) = ''a'')"
proof -
  let ?p = "\<lparr>p_ID = ''b'', p_Addr = ''b''\<rparr>" and ?L = "[noop_entry 1 1]"
  have t: "2 \<le> length three" "''a'' \<in> set three" "odd (length three)" by (simp_all add: three_def)
  have ty: "\<forall>q\<in>set three. sc_Type (cfg_Storage (demo_config three q)) \<in> {''memory'', ''persistent''}" by (simp add: demo_config_def)
  obtain st where st: "\<forall>q\<in>set three. sf_new (program_files file_bolt) (demo_config three q) (st q) \<and> store_ok file_bolt (st q) \<and>
      store_contents file_bolt (st q) = Map.empty"
    using new_stores [OF file_bolt_spec file_bolt_writes_ok empty_file ty] .
  obtain s where s: "net_reachable file_bolt (store_ops file_bolt) (program_files file_bolt) (demo_config three) three s"
      "in_step file_bolt (store_ok file_bolt) (store_contents file_bolt) three ''a'' ?L 0 (\<lambda>_. 0) (\<lambda>_. 0) s"
    using any.first_leader [OF file_bolt_spec file_bolt_writes_ok three_configured t(1,2) empty_file empty_file st] .
  have l: "cl_run (nw_cl s) ''a'' = Idle" "leader_at file_bolt (store_ok file_bolt) (store_contents file_bolt) ?L 0 (\<lambda>_. 0) (nw_node s ''a'')"
      "?p \<in> set (peers_of (demo_config three ''a''))"
    using s(2) by (simp_all add: in_step_def demo_peers)
  obtain s' r where s': "net_reachable file_bolt (store_ops file_bolt) (program_files file_bolt) (demo_config three) three s'"
      "r = RpcAppendEntries (list_request ''a'' ?L 0 0)" "(p_ID ?p, r) \<in> nw_sent s'"
    using any.request_sent [OF s(1) three_configured file_bolt_spec file_bolt_writes_ok t(2) l refl _ any.noop_plain] by blast
  then have sent: "(''b'', RpcAppendEntries (list_request ''a'' ?L 0 0)) \<in> nw_sent s'" by simp
  have "snd (rpc_sender r) = ''a''" if "(q, r) \<in> nw_sent s'" "fst (rpc_sender r) = 1" for q r
    using one_sender_per_term [OF file_bolt_spec file_bolt_writes_ok three_configured t(3) s'(1) that(1) sent] that(2)
    by (simp add: list_request_def)
  then show ?thesis using s'(1) sent by blast
qed

text \<open>
  C9 (even clusters can split). With four nodes the number of votes asked for, half of the peers plus
  one, is not a majority: in every correctly configured cluster of four there is a run in which two
  different nodes are leaders of the same term at the same time.
\<close>

theorem split_brain:
  fixes E :: "'st engine"
  assumes "bolt_spec B" "bolt_writes_ok B" "configured cfgs [a, b, c, d]"
    and "\<not> tx_HasBucket B db logBucket" "\<not> tx_HasBucket B db metaBucket"
  shows "a \<noteq> c \<and> (\<exists>cl :: ('db, 'st) cluster. reachable B E cfgs [a, b, c, d] cl \<and>
     rn_state (cl_node cl a) = Leader \<and> rn_state (cl_node cl c) = Leader \<and>
     rn_currentTerm (cl_node cl a) = rn_currentTerm (cl_node cl c))"
proof -
  have "distinct [a, b, c, d]" using assms(3) unfolding configured_def by blast
  then show ?thesis using split_brain_run [OF assms, of E] by auto
qed

theorem split_brain_witness:
  "\<exists>cl :: (file_db, memory_engine) cluster. reachable file_bolt memory_ops (demo_config four) four cl \<and>
     rn_state (cl_node cl ''a'') = Leader \<and> rn_state (cl_node cl ''c'') = Leader"
  using split_brain [OF file_bolt_spec file_bolt_writes_ok four_configured [unfolded four_def] empty_file empty_file,
      of memory_ops, folded four_def] by blast

text \<open>
  C10 (replicas agree). Two nodes whose stores agree up to the same applied index, and whose logs agree
  on the entries up to the same commit index, have the same store contents after applying them,
  whichever storage engine each of them uses.
\<close>

theorem replicas_agree:
  assumes "rl_ok B (rn_raftLog n)" "store_ok B (rn_storage n)" "\<not> rn_panicked n" "pending_ok n"
    "rn_lastApplied n \<le> rn_commitIndex n" "range_ready B disk_cmd n"
    and "rl_ok C (rn_raftLog m)" "store_ok C (rn_storage m)" "\<not> rn_panicked m" "pending_ok m"
    "range_ready C disk_cmd m"
    and "rn_lastApplied m = rn_lastApplied n" "rn_commitIndex m = rn_commitIndex n"
    "store_contents C (rn_storage m) = store_contents B (rn_storage n)"
    "\<And>i. rn_lastApplied n < i \<Longrightarrow> i \<le> rn_commitIndex n \<Longrightarrow> log_at B (rn_raftLog n) i = log_at C (rn_raftLog m) i"
  shows "store_contents C (rn_storage (applyCommitted C (store_ops C) m)) =
      store_contents B (rn_storage (applyCommitted B (store_ops B) n)) \<and>
    rn_lastApplied (applyCommitted C (store_ops C) m) = rn_lastApplied (applyCommitted B (store_ops B) n)"
  using any.applyCommitted_exact [OF assms(1-6)] any.applyCommitted_exact [OF assms(7-10) _ assms(11)]
    entries_between_cong [OF assms(15)] assms(5,12-14)
  by (simp add: apply_result_def)

theorem replicas_agree_witness:
  "store_contents file_bolt (rn_storage (applyCommitted file_bolt (store_ops file_bolt)
     ((demo_node (BoltStore [(kvBucket, [])]) [demo_entry 1 1] 1 [] Follower None)\<lparr>rn_commitIndex := 1\<rparr>))) =
   store_contents file_bolt (rn_storage (applyCommitted file_bolt (store_ops file_bolt)
     ((demo_keeper [demo_entry 1 1] 1)\<lparr>rn_commitIndex := 1\<rparr>)))"
proof -
  let ?n = "(demo_keeper [demo_entry 1 1] 1)\<lparr>rn_commitIndex := 1\<rparr>"
  let ?m = "(demo_node (BoltStore [(kvBucket, [])]) [demo_entry 1 1] 1 [] Follower None)\<lparr>rn_commitIndex := 1\<rparr>"
  have d: "disk_ok file_bolt [(kvBucket, [])]"
    using file_bolt_spec file_bolt_writes_ok by (simp add: disk_ok_def bolt_ok_def) (simp add: file_bolt_def)
  have c: "store_contents file_bolt (BoltStore [(kvBucket, [])]) = store_contents file_bolt (MemoryStore NewMemoryEngine)"
    by (simp add: store_contents_def bolt_contents_def file_bolt_def file_bucket_def mem_contents_def NewMemoryEngine_def
        me_items_def)
  show ?thesis
    by (rule conjunct1 [OF replicas_agree]) (use c d in \<open>simp_all add: demo_log_ok demo_one_ready pending_ok_def\<close>)
qed

text \<open>
  C11 (a write can be read). A leader accepts the proposal to store a value under a key. When it later
  has committed the log up to that entry and applies it, the proposal is answered without an error
  and a GET of the key returns the value, on either storage engine.
\<close>

theorem write_then_read:
  assumes "node_wf B n" "propose_append B cmd n = (n1, Inr (i, ch))"
    and "cmd = zero_command\<lparr>c_Op := OpPut, c_Key := key, c_Value := val\<rparr>" "disk_cmd cmd" "utf8_valid key"
    and "rn_raftLog m = rn_raftLog n1" "rn_pending m i = Some ch" "rn_commitIndex m = i" "rn_lastApplied m < i"
    and "rl_ok B (rn_raftLog m)" "store_ok B (rn_storage m)" "\<not> rn_panicked m" "pending_ok m" "range_ready B disk_cmd m"
    and "m' = applyCommitted B (store_ops B) m" "rq_Method rq = ''GET''" "rq_Path rq = ''/v1/keys/'' @ key"
  shows "rn_done m' ch = Some None \<and> routes ext upper B (store_ops B) wait rq m' =
    (m', writeJSON 200 (JObj [(''key'', JStr key), (''value'', JStr val)]))"
proof -
  have rl: "rl_ok B (rn_raftLog n)" using assms(1) by (simp add: node_wf_defs node_ok_def)
  have "rn_state n = Leader" using assms(2) by (auto simp: propose_append_def split: if_splits)
  then have "log_at B (rn_raftLog n1) i = Some (clean_entry \<lparr>le_Index = i, le_Term = rn_currentTerm n, le_Command = cmd\<rparr>)"
    using assms(2) Append_commit(2) [OF rl]
    by (auto simp: propose_append_def Let_def split: prod.splits option.splits)
  moreover have "clean_command cmd = cmd"
    using assms(3,5) by (simp add: clean_command_def utf8_valid_def OpPut_def ascii_to_valid_utf8 zero_command_def)
  ultimately have at: "le_Command (the (log_at B (rn_raftLog m) i)) = cmd" using assms(6) by simp
  have "unat (rn_lastApplied m) < unat i" using assms(9) by (simp add: word_less_nat_alt)
  then obtain k where k: "unat i = Suc k" "unat (rn_lastApplied m) \<le> k" by (cases "unat i") auto
  have "(of_nat (Suc k) :: u64) = i" unfolding k(1) [symmetric] by simp
  then have es: "entries_between B (rn_raftLog m) (unat (rn_lastApplied m)) (unat i) =
      entries_between B (rn_raftLog m) (unat (rn_lastApplied m)) k @ [the (log_at B (rn_raftLog m) i)]"
    using entries_between_snoc [OF k(2), of B "rn_raftLog m"] k(1) by simp
  have ar: "apply_result B (store_ok B) (store_contents B) m m'"
    unfolding assms(15) using assms(8,9) by (intro any.applyCommitted_exact assms) simp
  have kv: "kv_apply cmd x = (x(key \<mapsto> val), None)" for x
    unfolding assms(3) by (simp add: kv_apply_def)
  have st: "store_ok B (rn_storage m')" "store_contents B (rn_storage m') key = Some val"
    using ar assms(8) at es kv by (simp_all add: apply_result_def kv_exec_snoc)
  have "rn_lastApplied m < i \<and> i \<le> rn_commitIndex m \<and> rn_pending m i = Some ch" using assms(7-9) by simp
  then have dn: "rn_done m' ch = Some None" using ar at kv unfolding apply_result_def by fastforce
  have "key \<noteq> []" using assms(3,4) by (simp add: disk_cmd_def)
  then show ?thesis using dn st assms(16,17) any.get_response [OF st(1)]
    by (simp add: routes_def handleKey_def Let_def del: append.simps)
qed

theorem write_then_read_witness:
  "\<exists>n1 ch m'. propose_append file_bolt (demo_put ''k'' ''v'')
       (demo_node (MemoryStore NewMemoryEngine) [] 1 [] Leader (Some (newLeaderState [] 0)) \<lparr>rn_peers := []\<rparr>) = (n1, Inr (1, ch)) \<and>
     m' = applyCommitted file_bolt (store_ops file_bolt) (n1\<lparr>rn_commitIndex := 1\<rparr>) \<and> rn_done m' ch = Some None \<and>
     rs_Status (snd (routes (\<lambda>_. []) id file_bolt (store_ops file_bolt) demo_wait
       \<lparr>rq_Method = ''GET'', rq_Path = ''/v1/keys/'' @ ''k'', rq_prefix = [], rq_Body = []\<rparr> m')) = 200"
proof -
  let ?n = "demo_node (MemoryStore NewMemoryEngine :: file_db store) [] 1 [] Leader (Some (newLeaderState [] 0)) \<lparr>rn_peers := []\<rparr>"
  let ?rq = "\<lparr>rq_Method = ''GET'', rq_Path = ''/v1/keys/'' @ ''k'', rq_prefix = [], rq_Body = []\<rparr>"
  have e: "\<lparr>le_Index = 1, le_Term = 1, le_Command = demo_put ''k'' ''v''\<rparr> = demo_entry 1 1" by (simp add: demo_entry_def)
  obtain rl' where a: "Append file_bolt (demo_entry 1 1) (demo_log [] 1 []) = (rl', None)"
    using Append_ok [OF demo_log_ok file_bolt_writes_ok demo_entry_fits] .
  note ap = Append_commit [OF demo_log_ok a]
  obtain n1 r where p: "propose_append file_bolt (demo_put ''k'' ''v'') ?n = (n1, r)" by fastforce
  then have n1: "r = Inr (1, 0)" "n1 = ?n\<lparr>rn_raftLog := rl', rn_pending := [1 \<mapsto> 0], rn_nextChan := 1\<rparr>"
    using a demo_log_last_empty e by (auto simp: propose_append_def Let_def demo_node_def)
  have "node_ok file_bolt (demo_node (MemoryStore NewMemoryEngine :: file_db store) [] 1 [] Leader (Some (newLeaderState [] 0)))"
    by (rule demo_node_ok) simp_all
  then have wf: "node_wf file_bolt ?n"
    by (simp add: node_wf_defs node_ok_def leader_wf_def pending_ok_def newLeaderState_def)
  let ?m = "n1\<lparr>rn_commitIndex := 1\<rparr>"
  have ready: "range_ready file_bolt disk_cmd ?m"
    using ap(2) one_index by (auto simp: range_ready_def runnable_def n1(2) demo_clean_put)
  have "rn_done (applyCommitted file_bolt (store_ops file_bolt) ?m) 0 = Some None \<and>
      routes (\<lambda>_. []) id file_bolt (store_ops file_bolt) demo_wait ?rq (applyCommitted file_bolt (store_ops file_bolt) ?m) =
      (applyCommitted file_bolt (store_ops file_bolt) ?m, writeJSON 200 (JObj [(''key'', JStr ''k''), (''value'', JStr ''v'')]))"
    by (rule write_then_read [OF wf p [unfolded n1(1)] demo_put_def demo_clean_put])
      (use ap(1) ready in \<open>simp_all add: n1(2) ascii_utf8_valid pending_ok_def\<close>)
  then show ?thesis using p n1(1) by auto
qed

text \<open>
  C12 (a cluster of one has no leader). A node without peers never becomes leader, in any run: its own
  vote meets the quorum, but the count is compared with the quorum only when a peer answers.
\<close>

theorem single_node_never_leads:
  assumes "bolt_spec B" "bolt_writes_ok B" "configured cfgs [a]" "reachable B E cfgs [a] cl"
  shows "election_quorum (rn_peers (cl_node cl a)) = 1 \<and> rn_state (cl_node cl a) \<noteq> Leader \<and> cl_elected cl = {}"
  using alone_reachable [OF assms(4,3,1,2)] reachable_node(3) [OF assms(4,3,1,2), of a] configuredD(6) [OF assms(3), of a]
  by (simp add: alone_def election_quorum_def)

theorem single_node_never_leads_witness:
  "\<exists>cl :: (file_db, memory_engine) cluster. reachable file_bolt memory_ops (demo_config [''a'']) [''a''] cl \<and>
     rn_state (cl_node cl ''a'') \<noteq> Leader"
proof -
  have c: "configured (demo_config [''a'']) [''a'']" by (rule demo_configured) (auto intro!: ascii_valid_id)
  obtain cl :: "(file_db, memory_engine) cluster" where "reachable file_bolt memory_ops (demo_config [''a'']) [''a''] cl"
    using fresh_cluster [OF file_bolt_spec file_bolt_writes_ok c empty_file empty_file] reachable.init by metis
  with single_node_never_leads [OF file_bolt_spec file_bolt_writes_ok c this] show ?thesis by blast
qed

end
